(* ===== verification/Prelude.thy ===== *)
theory Prelude
  imports Main "HOL-Library.Word" "HOL-Library.Sublist"
begin

section \<open>Shared vocabulary of the development\<close>

text \<open>
  What every component of SignalHunter uses: C strings and the library routines the sources
  call on them, the pattern of a static array with a counter of live entries, the interface
  (a locale) of such a table, and the theorem collections the component proofs share.

  \<^item> A C string is a \<open>string\<close> without its terminating NUL; a pointer that may be NULL is a
    \<open>string option\<close>. Copying with \<open>snprintf(dst, n, "%s", s)\<close> is \<open>cstr_copy n s\<close>: the
    first \<open>n - 1\<close> bytes survive.
  \<^item> The C locale is in force (no source calls \<open>setlocale\<close>), so \<open>tolower\<close>, \<open>isspace\<close>,
    \<open>isdigit\<close> and \<open>isprint\<close> are the ASCII ones.
  \<^item> An \<open>int\<close> of the sources is an \<open>int\<close> here; the components prove bounds that keep
    the values inside 32 bits wherever the code does arithmetic on them. A \<open>size_t\<close> counter is
    a \<open>nat\<close>. Unsigned words whose wrap-around matters are words.
  \<^item> A static array \<open>g_xs\<close> with its counter \<open>g_x_count\<close> is the list of its live entries, and a
    pointer to an entry is its index.
\<close>

named_theorems table_simps \<open>facts about tables of records found by a key\<close>
named_theorems bound_intros \<open>bounds of the integers a component computes\<close>

type_synonym pid = int
type_synonym time = int
type_synonym byte = "8 word"

subsection \<open>Characters\<close>

definition chr_code :: "char \<Rightarrow> nat" where
  "chr_code c = of_char c"

definition tolower :: "char \<Rightarrow> char" where
  "tolower c = (if 65 \<le> chr_code c \<and> chr_code c \<le> 90 then char_of (chr_code c + 32) else c)"

definition isspace :: "char \<Rightarrow> bool" where
  "isspace c \<longleftrightarrow> chr_code c = 32 \<or> (9 \<le> chr_code c \<and> chr_code c \<le> 13)"

definition isdigit :: "char \<Rightarrow> bool" where
  "isdigit c \<longleftrightarrow> 48 \<le> chr_code c \<and> chr_code c \<le> 57"

definition isprint :: "byte \<Rightarrow> bool" where
  "isprint b \<longleftrightarrow> 32 \<le> b \<and> b \<le> 126"

text \<open>Deciding the case of a character on its bits is what makes closed strings evaluate.\<close>

lemma tolower_Char [simp, code]:
  "tolower (Char b0 b1 b2 b3 b4 b5 b6 b7) =
     (if \<not> b7 \<and> b6 \<and> \<not> b5 \<and> (b0 \<or> b1 \<or> b2 \<or> b3 \<or> b4)
         \<and> \<not> (b4 \<and> b3 \<and> (b2 \<or> (b1 \<and> b0)))
      then Char b0 b1 b2 b3 b4 True b6 b7 else Char b0 b1 b2 b3 b4 b5 b6 b7)"
  by (cases b0; cases b1; cases b2; cases b3; cases b4; cases b5; cases b6; cases b7;
      simp add: tolower_def chr_code_def char_of_def bit_Suc_0_iff)

lemma isspace_Char [simp, code]:
  "isspace (Char b0 b1 b2 b3 b4 b5 b6 b7) \<longleftrightarrow>
     \<not> b7 \<and> \<not> b6 \<and> \<not> b4 \<and>
     ((b5 \<and> \<not> b3 \<and> \<not> b2 \<and> \<not> b1 \<and> \<not> b0)
      \<or> (\<not> b5 \<and> b3 \<and> (b0 \<or> b1 \<or> b2) \<and> \<not> (b2 \<and> b1)))"
  by (cases b0; cases b1; cases b2; cases b3; cases b4; cases b5; cases b6; cases b7;
      simp add: isspace_def chr_code_def)

lemma isdigit_Char [simp, code]:
  "isdigit (Char b0 b1 b2 b3 b4 b5 b6 b7) \<longleftrightarrow>
     \<not> b7 \<and> \<not> b6 \<and> b5 \<and> b4 \<and> \<not> (b3 \<and> (b2 \<or> b1))"
  by (cases b0; cases b1; cases b2; cases b3; cases b4; cases b5; cases b6; cases b7;
      simp add: isdigit_def chr_code_def)

lemma tolower_idem [simp]: "tolower (tolower c) = tolower c"
  by (cases c) simp

subsection \<open>C strings\<close>

definition cstr_copy :: "nat \<Rightarrow> string \<Rightarrow> string" where
  "cstr_copy n s = take (n - 1) s"

lemma cstr_copy_length: "0 < n \<Longrightarrow> length (cstr_copy n s) < n"
  by (simp add: cstr_copy_def)

lemma cstr_copy_fits [simp]: "length s < n \<Longrightarrow> cstr_copy n s = s"
  by (simp add: cstr_copy_def)

lemma cstr_copy_idem [simp]: "cstr_copy n (cstr_copy n s) = cstr_copy n s"
  by (simp add: cstr_copy_def)

text \<open>\<open>p && *p\<close>: the pointer is not NULL and the string is not empty.\<close>

fun nonempty_str :: "string option \<Rightarrow> bool" where
  "nonempty_str None = False"
| "nonempty_str (Some s) = (s \<noteq> [])"

text \<open>\<open>p && *p ? p : dflt\<close>.\<close>

definition str_or :: "string option \<Rightarrow> string \<Rightarrow> string" where
  "str_or p dflt = (case p of Some s \<Rightarrow> if s \<noteq> [] then s else dflt | None \<Rightarrow> dflt)"

lemma str_or_simps [simp]:
  "str_or None d = d"
  "str_or (Some []) d = d"
  "str_or (Some (c # s)) d = c # s"
  by (simp_all add: str_or_def)

definition strstr :: "string \<Rightarrow> string \<Rightarrow> bool" where
  "strstr h n \<longleftrightarrow> sublist n h"

lemma strstr_code [simp, code]:
  "strstr h [] \<longleftrightarrow> True"
  "strstr [] (x # xs) \<longleftrightarrow> False"
  "strstr (y # ys) (x # xs) \<longleftrightarrow> prefix (x # xs) (y # ys) \<or> strstr ys (x # xs)"
  by (auto simp: strstr_def sublist_Cons_right)

text \<open>\<open>rw_suspicious_path\<close> of \<open>core/util.c\<close>, which detectors and scorers share.\<close>

definition rw_suspicious_path :: "string option \<Rightarrow> bool" where
  "rw_suspicious_path path = (case path of
     None \<Rightarrow> False
   | Some p \<Rightarrow> strstr p ''/tmp/'' \<or> strstr p ''/dev/shm/'' \<or> strstr p ''/var/tmp/'' \<or>
               strstr p ''/.cache/'' \<or> strstr p ''/memfd:'')"

text \<open>\<open>rw_is_numeric\<close> of \<open>core/util.c\<close>; \<open>is_numeric_name\<close> of \<open>core/lineage.c\<close> is the same text.\<close>

definition rw_is_numeric :: "string option \<Rightarrow> bool" where
  "rw_is_numeric s = (case s of
     None \<Rightarrow> False
   | Some [] \<Rightarrow> False
   | Some (c # cs) \<Rightarrow> list_all isdigit (c # cs))"

subsection \<open>Case-insensitive search\<close>

text \<open>
  \<open>contains_ci\<close> (the same function in \<open>core/score.c\<close> and \<open>core/whitelist.c\<close>) compares the needle at
  every position. Its inner loop leaves in three ways: the needle is used up (a match), a byte
  differs (try the next position), or the haystack ends first, and then the whole function
  returns 0 at once.
\<close>

datatype ci_result = Matched | Differs | HaystackEnd

fun ci_compare :: "string \<Rightarrow> string \<Rightarrow> ci_result" where
  "ci_compare h [] = Matched"
| "ci_compare [] (n # ns) = HaystackEnd"
| "ci_compare (h # hs) (n # ns) =
     (if tolower h \<noteq> tolower n then Differs else ci_compare hs ns)"

fun ci_search :: "string \<Rightarrow> string \<Rightarrow> bool" where
  "ci_search [] needle = False"
| "ci_search (h # hs) needle =
     (case ci_compare (h # hs) needle of
        Matched \<Rightarrow> True
      | HaystackEnd \<Rightarrow> False
      | Differs \<Rightarrow> ci_search hs needle)"

definition contains_ci :: "string option \<Rightarrow> string option \<Rightarrow> bool" where
  "contains_ci haystack needle = (case (haystack, needle) of
     (Some h, Some n) \<Rightarrow> if n = [] then True else ci_search h n
   | _ \<Rightarrow> False)"

lemma ci_compare_Matched: "ci_compare h n = Matched \<longleftrightarrow> prefix (map tolower n) (map tolower h)"
  by (induction h n rule: ci_compare.induct) auto

lemma ci_compare_HaystackEnd: "ci_compare h n = HaystackEnd \<Longrightarrow> length h < length n"
  by (induction h n rule: ci_compare.induct) (auto split: if_splits)

text \<open>
  Leaving early at the end of the haystack loses nothing: the remaining positions hold fewer
  bytes than the needle has.
\<close>

lemma ci_search_sublist:
  "n \<noteq> [] \<Longrightarrow> ci_search h n \<longleftrightarrow> sublist (map tolower n) (map tolower h)"
proof (induction h n rule: ci_search.induct)
  case (1 needle)
  then show ?case by simp
next
  case (2 h hs needle)
  show ?case
  proof (cases "ci_compare (h # hs) needle")
    case Matched
    then have "prefix (map tolower needle) (map tolower (h # hs))"
      by (simp only: ci_compare_Matched)
    then have "sublist (map tolower needle) (map tolower (h # hs))"
      by (rule prefix_imp_sublist)
    with Matched show ?thesis by simp
  next
    case Differs
    then have "\<not> prefix (map tolower needle) (map tolower (h # hs))"
      using Differs unfolding ci_compare_Matched[symmetric] by simp
    with Differs 2 show ?thesis by (simp add: sublist_Cons_right)
  next
    case HaystackEnd
    then have "length (h # hs) < length needle" by (rule ci_compare_HaystackEnd)
    then have "\<not> sublist (map tolower needle) (map tolower (h # hs))"
      using sublist_length_le[of "map tolower needle" "map tolower (h # hs)"] by auto
    with HaystackEnd show ?thesis by simp
  qed
qed

lemma contains_ci_None [simp]: "contains_ci None n = False" "contains_ci h None = False"
  by (simp_all add: contains_ci_def split: option.splits)

lemma contains_ci_sublist:
  "contains_ci (Some h) (Some n) \<longleftrightarrow> sublist (map tolower n) (map tolower h)"
  by (simp add: contains_ci_def ci_search_sublist)

subsection \<open>Loops over an index\<close>

lemma list_ex_upt_le: "list_ex P [0..<n + 1] \<longleftrightarrow> (\<exists>i\<le>n. P i)"
  unfolding list_ex_iff set_upt by (auto simp: less_Suc_eq_le)

lemma list_all_upt_less: "list_all P [0..<n] \<longleftrightarrow> (\<forall>i<n. P i)"
  unfolding list_all_iff set_upt by auto

subsection \<open>Static arrays with a counter\<close>

fun find_idx :: "('a \<Rightarrow> bool) \<Rightarrow> 'a list \<Rightarrow> nat option" where
  "find_idx P [] = None"
| "find_idx P (x # xs) = (if P x then Some 0 else map_option Suc (find_idx P xs))"

lemma find_idx_None: "find_idx P xs = None \<longleftrightarrow> (\<forall>x\<in>set xs. \<not> P x)"
  by (induction xs) auto

lemma find_idx_Some:
  "find_idx P xs = Some i \<Longrightarrow> i < length xs \<and> P (xs ! i) \<and> (\<forall>j<i. \<not> P (xs ! j))"
  by (induction xs arbitrary: i) (auto split: if_splits simp: less_Suc_eq_0_disj)

lemma find_idx_append:
  "find_idx P (xs @ ys) =
     (case find_idx P xs of Some i \<Rightarrow> Some i | None \<Rightarrow> map_option (\<lambda>j. length xs + j) (find_idx P ys))"
proof (induction xs)
  case Nil
  show ?case by (cases "find_idx P ys") auto
next
  case (Cons x xs)
  then show ?case
    by (cases "find_idx P xs"; cases "find_idx P ys") auto
qed

lemma find_idx_cong: "map P xs = map Q ys \<Longrightarrow> find_idx P xs = find_idx Q ys"
  by (induction xs arbitrary: ys) (auto simp: Cons_eq_map_conv)

text \<open>A table is within its array, and no key has two entries.\<close>

definition table_ok :: "('a \<Rightarrow> 'k) \<Rightarrow> nat \<Rightarrow> 'a list \<Rightarrow> bool" where
  "table_ok key cap t \<longleftrightarrow> length t \<le> cap \<and> distinct (map key t)"

lemma table_ok_Nil [simp]: "table_ok key cap []"
  by (simp add: table_ok_def)

lemma table_ok_unique:
  "table_ok key cap t \<Longrightarrow> i < length t \<Longrightarrow> j < length t \<Longrightarrow> key (t ! i) = key (t ! j) \<Longrightarrow> i = j"
  by (auto simp: table_ok_def distinct_conv_nth)

text \<open>
  The interface of such a table: \<open>find\<close> is the linear search for the first entry with a key, and
  \<open>create\<close>, which the code calls only when \<open>find\<close> has failed, appends an entry with that key or
  refuses. The extra argument \<open>'c\<close> is whatever a component initialises an entry from.
\<close>

locale slot_table =
  fixes key :: "'a \<Rightarrow> 'k"
    and cap :: nat
    and find :: "'k \<Rightarrow> 'a list \<Rightarrow> nat option"
    and create :: "'k \<Rightarrow> 'c \<Rightarrow> 'a list \<Rightarrow> ('a list \<times> nat) option"
  assumes find_first: "find k t = find_idx (\<lambda>e. key e = k) t"
    and create_appends: "create k c t = Some (t', i) \<Longrightarrow>
          length t < cap \<and> i = length t \<and> (\<exists>e. key e = k \<and> t' = t @ [e])"
begin

lemma find_SomeD:
  "find k t = Some i \<Longrightarrow> i < length t \<and> key (t ! i) = k"
  by (auto simp: find_first dest: find_idx_Some)

lemma find_None_iff: "find k t = None \<longleftrightarrow> k \<notin> key ` set t"
  by (auto simp: find_first find_idx_None)

lemma create_ok:
  assumes "table_ok key cap t" "find k t = None" "create k c t = Some (t', i)"
  shows "table_ok key cap t'"
  using assms create_appends[OF assms(3)] by (auto simp: table_ok_def find_None_iff)

lemma find_create:
  assumes "find k t = None" "create k c t = Some (t', i)"
  shows "find k t' = Some i" and "i < length t'" and "key (t' ! i) = k"
  using assms(1) create_appends[OF assms(2)] by (auto simp: find_first find_idx_append)

lemma find_create_other:
  assumes "create k c t = Some (t', i)" "k' \<noteq> k"
  shows "find k' t' = find k' t"
  using assms(2) create_appends[OF assms(1)]
  by (auto simp: find_first find_idx_append split: option.splits)

lemma update_keys:
  assumes "i < length t" "key e = key (t ! i)"
  shows "map key (t[i := e]) = map key t"
  using assms by (simp add: map_update list_update_same_conv)

lemma update_ok:
  assumes "table_ok key cap t" "key e = key (t ! i)"
  shows "table_ok key cap (t[i := e])"
proof (cases "i < length t")
  case True
  then show ?thesis using assms update_keys[OF True assms(2)] by (simp add: table_ok_def)
next
  case False
  then show ?thesis using assms by (simp add: list_update_beyond)
qed

lemma find_update:
  assumes "i < length t" "key e = key (t ! i)"
  shows "find k (t[i := e]) = find k t"
proof -
  have "map (\<lambda>e. key e = k) (t[i := e]) = map (\<lambda>e. key e = k) t"
    using assms by (simp add: map_update list_update_same_conv)
  then show ?thesis unfolding find_first by (rule find_idx_cong)
qed

end

subsection \<open>Handlers that meet a contract\<close>

text \<open>
  A handler maps the state it starts in to the state it leaves, or to \<open>None\<close> when it never returns.
  \<open>meets keeps ok s r\<close>: the result \<open>r\<close> of a handler started in \<open>s\<close> keeps what \<open>keeps\<close> says, and when the
  environment is \<open>ok\<close> there is a result. The locale asks \<open>keeps\<close> to be a preorder, which is what makes
  the contract of a handler follow from those of the calls in it, one call after the other.
\<close>

definition meets :: "('s \<Rightarrow> 's \<Rightarrow> bool) \<Rightarrow> bool \<Rightarrow> 's \<Rightarrow> 's option \<Rightarrow> bool" where
  "meets keeps ok s r \<longleftrightarrow> (\<forall>s'. r = Some s' \<longrightarrow> keeps s s') \<and> (ok \<longrightarrow> r \<noteq> None)"

locale state_contract =
  fixes keeps :: "'s \<Rightarrow> 's \<Rightarrow> bool"
  assumes refl: "keeps s s"
    and trans: "keeps s t \<Longrightarrow> keeps t u \<Longrightarrow> keeps s u"
begin

lemma meets_Some: "keeps s t \<Longrightarrow> meets keeps ok s (Some t)"
  by (simp add: meets_def)

lemma meets_from: "meets keeps ok t r \<Longrightarrow> keeps s t \<Longrightarrow> meets keeps ok s r"
  unfolding meets_def by (blast intro: trans)

lemma meets_bind:
  assumes "meets keeps ok s r" "\<And>t. keeps s t \<Longrightarrow> meets keeps ok s (f t)"
  shows "meets keeps ok s (Option.bind r f)"
  using assms by (cases r) (auto simp: meets_def)

lemma meets_if:
  "(b \<Longrightarrow> meets keeps ok s x) \<Longrightarrow> (\<not> b \<Longrightarrow> meets keeps ok s y) \<Longrightarrow> meets keeps ok s (if b then x else y)"
  by simp

lemma keeps_if:
  "(b \<Longrightarrow> keeps s t) \<Longrightarrow> (\<not> b \<Longrightarrow> keeps s u) \<Longrightarrow> keeps s (if b then t else u)"
  by simp

lemma keeps_fold: "(\<And>x t. x \<in> set xs \<Longrightarrow> keeps t (f x t)) \<Longrightarrow> keeps s (fold f xs s)"
proof (induction xs arbitrary: s)
  case (Cons x xs)
  have "keeps s (f x s)" by (rule Cons.prems) simp
  moreover have "keeps (f x s) (fold f xs (f x s))" by (rule Cons.IH) (simp add: Cons.prems)
  ultimately show ?case by (auto intro: trans)
qed (simp add: refl)

lemma invariant_star:
  assumes "\<And>s t. step s t \<Longrightarrow> keeps s t" "step\<^sup>*\<^sup>* s t"
  shows "keeps s t"
  using assms(2) by (induction rule: rtranclp_induct) (auto intro: refl trans assms(1))

end

end
