(* ===== verification/CText.thy ===== *)
theory CText
  imports Prelude
begin

section \<open>Text in and out: printf, sscanf, fgets\<close>

text \<open>
  The conversions of the C library that the sources use on text: \<open>%d\<close>, \<open>%u\<close> and \<open>%x\<close> of the
  printf family, \<open>atoi\<close>, the numeric and word conversions of \<open>sscanf\<close>, and \<open>fgets\<close>, which cuts a
  stream into pieces of at most \<open>n - 1\<close> bytes ending at a newline. \<open>atoi\<close> is glibc's: \<open>strtol\<close>
  clamps to a 64-bit long, and the result is truncated to a 32-bit int.
\<close>

subsection \<open>Printing numbers\<close>

definition digit_char :: "nat \<Rightarrow> char" where
  "digit_char d = (''0123456789abcdef'' ! d)"

fun show_base :: "nat \<Rightarrow> nat \<Rightarrow> string" where
  "show_base b n =
     (if b < 2 then [] else
      if n < b then [digit_char n] else show_base b (n div b) @ [digit_char (n mod b)])"

declare show_base.simps [simp del]

definition show_nat :: "nat \<Rightarrow> string" where
  "show_nat n = show_base 10 n"

definition show_hex :: "nat \<Rightarrow> string" where
  "show_hex n = show_base 16 n"

definition show_int :: "int \<Rightarrow> string" where
  "show_int i = (if i < 0 then CHR ''-'' # show_nat (nat (- i)) else show_nat (nat i))"

text \<open>\<open>%0<w>d\<close> and \<open>%0<w>x\<close>: padding with zeros on the left up to a width.\<close>

definition pad_zero :: "nat \<Rightarrow> string \<Rightarrow> string" where
  "pad_zero w s = replicate (w - length s) (CHR ''0'') @ s"

text \<open>\<open>%<w>d\<close>: padding with blanks on the left up to a width.\<close>

definition pad_left :: "nat \<Rightarrow> string \<Rightarrow> string" where
  "pad_left w s = replicate (w - length s) (CHR '' '') @ s"

definition hex2 :: "byte \<Rightarrow> string" where
  "hex2 b = pad_zero 2 (show_hex (unat b))"

subsection \<open>Reading numbers\<close>

definition digit_val :: "char \<Rightarrow> nat" where
  "digit_val c = chr_code c - 48"

definition isxdigit :: "char \<Rightarrow> bool" where
  "isxdigit c \<longleftrightarrow> isdigit c \<or> (let l = chr_code (tolower c) in 97 \<le> l \<and> l \<le> 102)"

definition xdigit_val :: "char \<Rightarrow> nat" where
  "xdigit_val c = (if isdigit c then digit_val c else chr_code (tolower c) - 87)"

definition dec_val :: "string \<Rightarrow> nat" where
  "dec_val ds = foldl (\<lambda>acc c. acc * 10 + digit_val c) 0 ds"

definition hex_val :: "string \<Rightarrow> nat" where
  "hex_val ds = foldl (\<lambda>acc c. acc * 16 + xdigit_val c) 0 ds"

definition skip_space :: "string \<Rightarrow> string" where
  "skip_space s = dropWhile isspace s"

text \<open>\<open>%d\<close>: white space, an optional sign, at least one digit; the rest of the input comes back.\<close>

definition scan_int :: "string \<Rightarrow> (int \<times> string) option" where
  "scan_int s =
     (let s1 = skip_space s;
          (neg, s2) = (case s1 of
             c # cs \<Rightarrow> if c = CHR ''-'' then (True, cs) else if c = CHR ''+'' then (False, cs)
                       else (False, s1)
           | [] \<Rightarrow> (False, []));
          ds = takeWhile isdigit s2
      in if ds = [] then None
         else Some (if neg then - int (dec_val ds) else int (dec_val ds), dropWhile isdigit s2))"

text \<open>\<open>%x\<close> on input whose numbers are plain hexadecimal digits, as procfs prints them.\<close>

definition scan_hex :: "string \<Rightarrow> (nat \<times> string) option" where
  "scan_hex s =
     (let s1 = skip_space s; ds = takeWhile isxdigit s1
      in if ds = [] then None else Some (hex_val ds, dropWhile isxdigit s1))"

text \<open>\<open>%<w>s\<close>: white space, then at most \<open>w\<close> bytes that are not white space, at least one.\<close>

definition scan_word :: "nat \<Rightarrow> string \<Rightarrow> (string \<times> string) option" where
  "scan_word w s =
     (let s1 = skip_space s; t = take w (takeWhile (\<lambda>c. \<not> isspace c) s1)
      in if t = [] then None else Some (t, drop (length t) s1))"

text \<open>A literal of the format string: it must match byte for byte.\<close>

definition scan_lit :: "string \<Rightarrow> string \<Rightarrow> string option" where
  "scan_lit lit s = (if prefix lit s then Some (drop (length lit) s) else None)"

definition c_int :: "int \<Rightarrow> int" where
  "c_int i = sint (word_of_int i :: 32 word)"

definition clamp_long :: "int \<Rightarrow> int" where
  "clamp_long i = max (- (2 ^ 63)) (min (2 ^ 63 - 1) i)"

definition atol :: "string \<Rightarrow> int" where
  "atol s = (case scan_int s of None \<Rightarrow> 0 | Some (i, _) \<Rightarrow> clamp_long i)"

definition atoi :: "string \<Rightarrow> int" where
  "atoi s = c_int (atol s)"

subsection \<open>Reading lines\<close>

definition newline :: char where
  "newline = CHR 0x0A"

text \<open>The C string that a buffer holds: everything before the first NUL.\<close>

definition c_str :: "string \<Rightarrow> string" where
  "c_str s = takeWhile (\<lambda>c. c \<noteq> CHR 0x00) s"

text \<open>One \<open>fgets\<close> into a buffer of \<open>k + 1\<close> bytes: what it stores and what is left of the stream.\<close>

fun fgets_one :: "nat \<Rightarrow> string \<Rightarrow> string \<times> string" where
  "fgets_one 0 s = ([], s)"
| "fgets_one (Suc k) [] = ([], [])"
| "fgets_one (Suc k) (c # s) =
     (if c = newline then ([c], s)
      else (let (l, r) = fgets_one k s in (c # l, r)))"

lemma fgets_one_append: "fgets_one k s = (l, r) \<Longrightarrow> l @ r = s"
  by (induction k s arbitrary: l r rule: fgets_one.induct) (auto split: if_splits prod.splits)

lemma fgets_one_rest: "fgets_one k s = (l, r) \<Longrightarrow> length r \<le> length s"
  by (drule fgets_one_append) auto

function fgets_raw :: "nat \<Rightarrow> string \<Rightarrow> string list" where
  "fgets_raw k s = (if s = [] \<or> k = 0 then [] else
     (let (l, r) = fgets_one k s in l # fgets_raw k r))"
  by pat_completeness auto
termination
proof (relation "measure (\<lambda>(k, s). length s)", goal_cases)
  case 1
  show ?case by simp
next
  case (2 k s x l r)
  then have eq: "fgets_one k s = (l, r)" and "k \<noteq> 0" "s \<noteq> []" by auto
  then obtain k' c s' where "k = Suc k'" "s = c # s'"
    by (metis not0_implies_Suc list.exhaust)
  with eq have "l \<noteq> []" by (auto split: if_splits prod.splits)
  with fgets_one_append[OF eq] show ?case by auto
qed

declare fgets_raw.simps [simp del]

text \<open>
  The strings a loop \<open>while (fgets(line, n, fp))\<close> sees in its buffer of \<open>n\<close> bytes. An embedded NUL
  ends the C string early.
\<close>

definition fgets_lines :: "nat \<Rightarrow> string \<Rightarrow> string list" where
  "fgets_lines n s = map c_str (fgets_raw (n - 1) s)"

lemma concat_fgets_raw: "0 < k \<Longrightarrow> concat (fgets_raw k s) = s"
proof (induction k s rule: fgets_raw.induct)
  case (1 k s)
  show ?case
  proof (cases "s = []")
    case True
    then show ?thesis by (simp add: fgets_raw.simps)
  next
    case False
    obtain l r where lr: "fgets_one k s = (l, r)" by fastforce
    with 1 False have "concat (fgets_raw k r) = r" by simp
    with lr False 1(2) show ?thesis
      by (subst fgets_raw.simps) (simp add: fgets_one_append)
  qed
qed

lemma fgets_one_length: "fgets_one k s = (l, r) \<Longrightarrow> length l \<le> k"
  by (induction k s arbitrary: l r rule: fgets_one.induct) (auto split: if_splits prod.splits)

lemma fgets_raw_bound: "l \<in> set (fgets_raw k s) \<Longrightarrow> length l \<le> k"
proof (induction k s rule: fgets_raw.induct)
  case (1 k s)
  obtain a r where ar: "fgets_one k s = (a, r)" by fastforce
  show ?case
  proof (cases "s = [] \<or> k = 0")
    case True
    with 1(2) show ?thesis by (simp add: fgets_raw.simps)
  next
    case False
    with 1(2) ar have "l = a \<or> l \<in> set (fgets_raw k r)" by (simp add: fgets_raw.simps[of k s])
    with 1(1)[OF False refl ar[symmetric]] ar show ?thesis by (auto dest: fgets_one_length)
  qed
qed

text \<open>No line that a loop over a buffer of \<open>n\<close> bytes sees overruns it.\<close>

lemma fgets_lines_bound: "0 < n \<Longrightarrow> l \<in> set (fgets_lines n s) \<Longrightarrow> length l < n"
  by (auto simp: fgets_lines_def c_str_def dest!: fgets_raw_bound
      intro: le_less_trans[OF length_takeWhile_le])

subsection \<open>Printing and reading back\<close>

lemma digit_char_isdigit: "d < 10 \<Longrightarrow> isdigit (digit_char d) \<and> digit_val (digit_char d) = d"
  by (auto simp: digit_char_def digit_val_def isdigit_def chr_code_def numeral_eq_Suc less_Suc_eq)

lemma show_nat_digits: "list_all isdigit (show_base 10 n) \<and> show_base 10 n \<noteq> []"
proof (induction "10 :: nat" n rule: show_base.induct)
  case (1 n)
  then show ?case by (subst (1 2) show_base.simps) (auto simp: digit_char_isdigit)
qed

lemma dec_val_snoc: "dec_val (ds @ [c]) = dec_val ds * 10 + digit_val c"
  by (simp add: dec_val_def)

lemma dec_val_show_nat: "dec_val (show_nat n) = n"
  unfolding show_nat_def
proof (induction "10 :: nat" n rule: show_base.induct)
  case (1 n)
  then show ?case
    by (subst show_base.simps) (auto simp: dec_val_snoc digit_char_isdigit dec_val_def[of "[_]"])
qed

lemma takeWhile_show_nat [simp]:
  "takeWhile isdigit (show_nat n) = show_nat n" "dropWhile isdigit (show_nat n) = []"
  using show_nat_digits[of n] by (auto simp: show_nat_def list_all_iff takeWhile_eq_all_conv dropWhile_eq_Nil_conv)

lemma isdigit_not_space: "isdigit c \<Longrightarrow> \<not> isspace c \<and> c \<noteq> CHR ''-'' \<and> c \<noteq> CHR ''+''"
  by (auto simp: isdigit_def isspace_def chr_code_def)

lemma show_nat_not_Nil [simp]: "show_nat n \<noteq> []"
  using show_nat_digits[of n] by (simp add: show_nat_def)

lemma scan_show_int: "scan_int (show_int i) = Some (i, [])"
proof -
  obtain c cs where c: "show_nat (nat \<bar>i\<bar>) = c # cs" "isdigit c"
    using show_nat_digits[of "nat \<bar>i\<bar>"] by (cases "show_nat (nat \<bar>i\<bar>)") (auto simp: show_nat_def)
  show ?thesis
  proof (cases "i < 0")
    case True
    with c show ?thesis
      by (simp add: scan_int_def show_int_def skip_space_def dec_val_show_nat Let_def flip: c(1))
  next
    case False
    then have "skip_space (show_nat (nat i)) = c # cs"
      using c by (simp add: skip_space_def isdigit_not_space)
    moreover have "takeWhile isdigit cs = cs" "dropWhile isdigit (c # cs) = []"
        "dec_val (c # cs) = nat i"
      using False c takeWhile_show_nat[of "nat i"] dec_val_show_nat[of "nat i"] by simp_all
    ultimately show ?thesis
      using False c isdigit_not_space[OF c(2)] by (simp add: scan_int_def show_int_def Let_def del: takeWhile_eq_all_conv)
  qed
qed

lemma c_int_id: "- (2 ^ 31) \<le> i \<Longrightarrow> i < 2 ^ 31 \<Longrightarrow> c_int i = i"
  by (simp add: c_int_def sint_sbintrunc' signed_take_bit_int_eq_self)

lemma c_int_range: "- (2 ^ 31) \<le> c_int i \<and> c_int i < 2 ^ 31"
  using sint_range_size[of "word_of_int i :: 32 word"] by (simp add: c_int_def word_size)

lemma atoi_show_int: "- (2 ^ 31) \<le> i \<Longrightarrow> i < 2 ^ 31 \<Longrightarrow> atoi (show_int i) = i"
  by (simp add: atoi_def atol_def scan_show_int clamp_long_def c_int_id)

lemma show_nat_inj: "show_nat m = show_nat n \<Longrightarrow> m = n"
  using dec_val_show_nat by metis

lemma show_base_length: "n < b ^ k \<Longrightarrow> 2 \<le> b \<Longrightarrow> 0 < k \<Longrightarrow> length (show_base b n) \<le> k"
proof (induction k arbitrary: n)
  case (Suc k)
  then have d: "n div b < b ^ k" by (simp add: less_mult_imp_div_less mult.commute)
  show ?case
  proof (cases "n < b")
    case True
    then show ?thesis using Suc.prems by (subst show_base.simps) simp
  next
    case False
    then have "0 < k" using Suc.prems by (cases k) auto
    with False d Suc(1)[OF d] Suc.prems show ?thesis by (subst show_base.simps) simp
  qed
qed simp

lemma show_nat_length: "n < 10 ^ 10 \<Longrightarrow> length (show_nat n) \<le> 10"
  unfolding show_nat_def by (rule show_base_length) simp_all

lemma show_byte_length: "n < 256 \<Longrightarrow> length (show_nat n) \<le> 3"
  unfolding show_nat_def by (rule show_base_length) simp_all

subsection \<open>Hexadecimal numbers and words of a line\<close>

lemma digit_char_isxdigit: "d < 16 \<Longrightarrow> isxdigit (digit_char d) \<and> xdigit_val (digit_char d) = d"
proof -
  have "list_all (\<lambda>d. isxdigit (digit_char d) \<and> xdigit_val (digit_char d) = d) [0..<16]"
    by code_simp
  then show "d < 16 \<Longrightarrow> isxdigit (digit_char d) \<and> xdigit_val (digit_char d) = d"
    by (simp add: list_all_iff)
qed

lemma show_hex_digits: "list_all isxdigit (show_hex n) \<and> show_hex n \<noteq> []"
  unfolding show_hex_def
proof (induction "16 :: nat" n rule: show_base.induct)
  case (1 n)
  then show ?case by (subst (1 2) show_base.simps) (auto simp: digit_char_isxdigit)
qed

lemma hex_val_show_hex: "hex_val (show_hex n) = n"
  unfolding show_hex_def
proof (induction "16 :: nat" n rule: show_base.induct)
  case (1 n)
  have snoc: "hex_val (ds @ [c]) = hex_val ds * 16 + xdigit_val c" for ds c by (simp add: hex_val_def)
  from 1 show ?case
    by (subst show_base.simps) (auto simp: snoc digit_char_isxdigit hex_val_def[of "[_]"])
qed

lemma show_hex_length: "n < 16 ^ k \<Longrightarrow> 0 < k \<Longrightarrow> length (show_hex n) \<le> k"
  unfolding show_hex_def by (rule show_base_length) simp_all

lemma isxdigit_not_space: "isxdigit c \<Longrightarrow> \<not> isspace c \<and> c \<noteq> CHR ''-''"
  by (auto simp: isxdigit_def isdigit_def isspace_def chr_code_def tolower_def split: if_splits)

lemma takeWhile_stop:
  "list_all P w \<Longrightarrow> r = [] \<or> \<not> P (hd r) \<Longrightarrow> takeWhile P (w @ r) = w \<and> dropWhile P (w @ r) = r"
  by (induction w) (auto; cases r; auto)+

lemma skip_space_word: "w \<noteq> [] \<Longrightarrow> list_all (\<lambda>c. \<not> isspace c) w \<Longrightarrow> skip_space (w @ r) = w @ r"
  by (cases w) (auto simp: skip_space_def)

lemma skip_space_blank [simp]: "isspace c \<Longrightarrow> skip_space (c # s) = skip_space s"
  by (simp add: skip_space_def)

text \<open>Zeros in front of a number change neither its digits' kind nor its value.\<close>

lemma length_pad_zero: "length (pad_zero w s) = max w (length s)"
  by (simp add: pad_zero_def)

lemma hex_val_pad: "hex_val (pad_zero w s) = hex_val s"
proof -
  have z: "xdigit_val (CHR ''0'') = 0" by (simp add: xdigit_val_def isdigit_def digit_val_def chr_code_def)
  have "foldl (\<lambda>acc c. acc * 16 + xdigit_val c) 0 (replicate k (CHR ''0'')) = 0" for k
    by (induction k) (simp_all add: z)
  then show ?thesis by (simp add: hex_val_def pad_zero_def)
qed

lemma pad_hex_digits: "list_all isxdigit (pad_zero w (show_hex n)) \<and> pad_zero w (show_hex n) \<noteq> []"
  using show_hex_digits[of n]
  by (auto simp: pad_zero_def list_all_iff isxdigit_def isdigit_def chr_code_def)

lemma scan_hex_pad:
  assumes "r = [] \<or> \<not> isxdigit (hd r)"
  shows "scan_hex (pad_zero w (show_hex n) @ r) = Some (n, r)"
proof -
  have x: "list_all isxdigit (pad_zero w (show_hex n))" "pad_zero w (show_hex n) \<noteq> []" using pad_hex_digits by auto
  then have "list_all (\<lambda>c. \<not> isspace c) (pad_zero w (show_hex n))"
    by (auto simp: list_all_iff isxdigit_not_space)
  with x takeWhile_stop[OF x(1) assms] show ?thesis
    by (simp add: scan_hex_def skip_space_word hex_val_pad hex_val_show_hex Let_def)
qed

text \<open>A word of a format string, with white space before it and white space or nothing behind it.\<close>

definition word_text :: "string \<Rightarrow> bool" where
  "word_text w \<longleftrightarrow> w \<noteq> [] \<and> list_all (\<lambda>c. \<not> isspace c) w"

lemma skip_space_word_text: "word_text v \<Longrightarrow> skip_space (v @ r) = v @ r"
  by (simp add: word_text_def skip_space_word)

lemma scan_word_text:
  assumes "word_text v" "length v \<le> k" "r = [] \<or> isspace (hd r)" "skip_space s = v @ r"
  shows "scan_word k s = Some (v, r)"
proof -
  have "takeWhile (\<lambda>c. \<not> isspace c) (v @ r) = v"
    using takeWhile_stop[of "\<lambda>c. \<not> isspace c" v r] assms by (auto simp: word_text_def)
  moreover have "0 < k" using assms(1,2) by (cases v) (auto simp: word_text_def)
  ultimately show ?thesis using assms by (simp add: scan_word_def word_text_def Let_def)
qed

lemma isspace_blank [simp]: "isspace (CHR '' '')" "isspace newline"
  by (simp_all add: isspace_def newline_def chr_code_def)

lemma skip_space_pad: "skip_space (replicate k (CHR '' '') @ s) = skip_space s"
  by (induction k) simp_all

end
