(* ===== verification/Shellcode.thy ===== *)
theory Shellcode
  imports CText
begin

unbundle bit_operations_syntax

section \<open>Shellcode heuristics (\<open>detect/shellcode.c\<close>)\<close>

text \<open>
  The pattern scanner that the memory scan runs over a suspicious mapping: NOP sleds, syscall
  instructions and shell strings for x86, ARM64, ARM32/Thumb and MIPS. A \<open>(buf, len)\<close> pair is the
  byte list of that length; the report is the record \<open>sh_shellcode_report_t\<close> with its findings
  array as the list of the entries in use. The first half translates the loops; the second shows
  that each search loop decides its mathematical meaning, and that the report is the one a table of
  (condition, points, message) rows gives: nothing is dropped for lack of room.
\<close>

definition SH_SHELLCODE_MAX_FINDINGS :: nat where
  "SH_SHELLCODE_MAX_FINDINGS = 32"

record sc_report =
  sc_score :: int
  arch_hint :: string
  findings :: "string list"

abbreviation finding_count :: "sc_report \<Rightarrow> nat" where
  "finding_count r \<equiv> length (findings r)"

definition add_finding :: "int \<Rightarrow> string \<Rightarrow> sc_report \<Rightarrow> sc_report" where
  "add_finding points msg r =
     (let r1 = (if finding_count r < SH_SHELLCODE_MAX_FINDINGS
                then r\<lparr>findings := findings r @ [cstr_copy 128 msg]\<rparr> else r);
          r2 = r1\<lparr>sc_score := sc_score r1 + points\<rparr>
      in if sc_score r2 > 100 then r2\<lparr>sc_score := 100\<rparr> else r2)"

subsection \<open>The search loops\<close>

fun run_byte_loop :: "byte \<Rightarrow> nat \<Rightarrow> nat \<Rightarrow> byte list \<Rightarrow> bool" where
  "run_byte_loop v needed run [] = False"
| "run_byte_loop v needed run (b # bs) =
     (if b = v
      then (if run + 1 \<ge> needed then True else run_byte_loop v needed (run + 1) bs)
      else run_byte_loop v needed 0 bs)"

definition has_run_byte :: "byte list \<Rightarrow> byte \<Rightarrow> nat \<Rightarrow> bool" where
  "has_run_byte buf v needed = run_byte_loop v needed 0 buf"

definition mem_eq_at :: "byte list \<Rightarrow> nat \<Rightarrow> byte list \<Rightarrow> bool" where
  "mem_eq_at buf i pat \<longleftrightarrow> take (length pat) (drop i buf) = pat"

definition has_pattern :: "byte list \<Rightarrow> byte list \<Rightarrow> bool" where
  "has_pattern buf pat =
     (if length pat = 0 \<or> length buf < length pat then False
      else list_ex (\<lambda>i. mem_eq_at buf i pat) [0..<length buf - length pat + 1])"

definition repeated_pattern :: "byte list \<Rightarrow> byte list \<Rightarrow> nat \<Rightarrow> bool" where
  "repeated_pattern buf pat repeat =
     (if length pat = 0 \<or> repeat = 0 \<or> length buf < length pat * repeat then False
      else list_ex (\<lambda>i. list_all (\<lambda>r. mem_eq_at buf (i + r * length pat) pat) [0..<repeat])
             [0..<length buf - length pat * repeat + 1])"

definition rd32_le :: "byte list \<Rightarrow> 32 word" where
  "rd32_le p = ucast (p ! 0) OR push_bit 8 (ucast (p ! 1)) OR push_bit 16 (ucast (p ! 2))
               OR push_bit 24 (ucast (p ! 3))"

definition rd32_be :: "byte list \<Rightarrow> 32 word" where
  "rd32_be p = push_bit 24 (ucast (p ! 0)) OR push_bit 16 (ucast (p ! 1))
               OR push_bit 8 (ucast (p ! 2)) OR ucast (p ! 3)"

definition mips_syscall_word :: "32 word \<Rightarrow> bool" where
  "mips_syscall_word w \<longleftrightarrow> w AND 63 = 12"

subsection \<open>The per-architecture scans\<close>

definition add_if :: "bool \<Rightarrow> int \<Rightarrow> string \<Rightarrow> sc_report \<Rightarrow> sc_report" where
  "add_if c points msg r = (if c then add_finding points msg r else r)"

text \<open>The byte string \<open>"/bin/sh"\<close> without its NUL.\<close>

definition binsh :: "byte list" where
  "binsh = [47, 98, 105, 110, 47, 115, 104]"

definition scan_x86 :: "byte list \<Rightarrow> sc_report \<Rightarrow> sc_report" where
  "scan_x86 buf r =
     (let r = add_if (has_run_byte buf 144 16) 25
                ''x86/x64 NOP sled: >=16 consecutive 0x90 bytes'' r;
          r = add_if (has_run_byte buf 144 32) 20
                ''x86/x64 long NOP sled: >=32 consecutive 0x90 bytes'' r;
          r = add_if (has_pattern buf [15, 5]) 25
                ''x86_64 syscall instruction pattern: 0f 05'' r;
          r = add_if (has_pattern buf [205, 128]) 25
                ''x86 int 0x80 syscall pattern: cd 80'' r;
          r = add_if (has_pattern buf binsh) 20 ''shell string present: /bin/sh'' r
      in add_if (has_pattern buf [72, 199, 192]) 10
           ''x64 syscall setup pattern: mov rax, imm32'' r)"

definition scan_arm64 :: "byte list \<Rightarrow> sc_report \<Rightarrow> sc_report" where
  "scan_arm64 buf r =
     (let nop_le = [31, 32, 3, 213]; nop_be = [213, 3, 32, 31];
          svc_le = [1, 0, 0, 212]; svc_be = [212, 0, 0, 1];
          r = add_if (repeated_pattern buf nop_le 8 \<or> repeated_pattern buf nop_be 8) 25
                ''ARM64 NOP sled: repeated NOP instructions'' r
      in add_if (has_pattern buf svc_le \<or> has_pattern buf svc_be) 25
           ''ARM64 syscall pattern: svc #0'' r)"

definition scan_arm32_thumb :: "byte list \<Rightarrow> sc_report \<Rightarrow> sc_report" where
  "scan_arm32_thumb buf r =
     (let arm_nop_le = [0, 240, 32, 227]; arm_nop_be = [227, 32, 240, 0];
          thumb_nop_le = [0, 191]; thumb_nop_be = [191, 0];
          arm_svc_le = [0, 0, 0, 239]; arm_svc_be = [239, 0, 0, 0];
          r = add_if (repeated_pattern buf arm_nop_le 8 \<or> repeated_pattern buf arm_nop_be 8) 20
                ''ARM NOP sled: repeated ARM NOP instructions'' r;
          r = add_if (repeated_pattern buf thumb_nop_le 12 \<or> repeated_pattern buf thumb_nop_be 12) 20
                ''Thumb NOP sled: repeated Thumb NOP instructions'' r;
          r = add_if (has_pattern buf arm_svc_le \<or> has_pattern buf arm_svc_be) 20
                ''ARM syscall pattern: svc/swi'' r
      in add_if (list_ex (\<lambda>i. buf ! i = 223) [0..<length buf - 1]) 10
           ''Thumb syscall-like pattern: svc immediate'' r)"

text \<open>
  One turn of the MIPS loop per aligned group of four bytes; the state is
  \<open>(zero_words, max_zero_words, saw_syscall)\<close>, and up to three trailing bytes are left alone.
\<close>

fun mips_loop :: "byte list \<Rightarrow> nat \<times> nat \<times> bool \<Rightarrow> nat \<times> nat \<times> bool" where
  "mips_loop (a # b # c # d # rest) (zero_words, max_zero_words, saw_syscall) =
     (let le = rd32_le [a, b, c, d]; be = rd32_be [a, b, c, d];
          zero_words' = (if le = 0 \<or> be = 0 then zero_words + 1 else 0);
          max' = (if (le = 0 \<or> be = 0) \<and> zero_words' > max_zero_words then zero_words'
                  else max_zero_words);
          saw' = (if mips_syscall_word le \<or> mips_syscall_word be then True else saw_syscall)
      in mips_loop rest (zero_words', max', saw'))"
| "mips_loop rest st = st"

definition scan_mips :: "byte list \<Rightarrow> sc_report \<Rightarrow> sc_report" where
  "scan_mips buf r =
     (case mips_loop buf (0, 0, False) of (zero_words, max_zero_words, saw_syscall) \<Rightarrow>
        let r = add_if (max_zero_words \<ge> 8) 20 ''MIPS NOP sled: repeated zero-word NOPs'' r
        in add_if saw_syscall 20 ''MIPS syscall instruction pattern'' r)"

text \<open>\<open>uname\<close> gives the machine name or fails; \<open>strncpy\<close> keeps 63 bytes of it.\<close>

definition sh_shellcode_scan :: "string option \<Rightarrow> byte list option \<Rightarrow> sc_report" where
  "sh_shellcode_scan machine buf =
     (let r = \<lparr>sc_score = 0,
               arch_hint = (case machine of Some m \<Rightarrow> cstr_copy 64 m | None \<Rightarrow> ''unknown''),
               findings = []\<rparr>
      in case buf of
           None \<Rightarrow> r
         | Some b \<Rightarrow>
             if length b = 0 then r
             else scan_mips b (scan_arm32_thumb b (scan_arm64 b (scan_x86 b r))))"

definition sh_shellcode_write_report :: "sc_report \<Rightarrow> string list" where
  "sh_shellcode_write_report r =
     (''shellcode_arch_hint='' @ arch_hint r @ '' shellcode_score='' @ show_int (sc_score r)
        @ '' shellcode_findings='' @ show_nat (finding_count r) @ [newline])
     # map (\<lambda>m. ''shellcode_indicator='' @ m @ [newline]) (findings r)"

subsection \<open>What the search loops decide\<close>

lemma prefix_replicate_less:
  "prefix (replicate n v) (replicate k v @ b # bs) \<Longrightarrow> b \<noteq> v \<Longrightarrow> n \<le> k"
proof (induction k arbitrary: n)
  case 0
  then show ?case by (cases n) auto
next
  case (Suc k)
  then show ?case by (cases n) auto
qed

lemma sublist_replicate_break:
  assumes "b \<noteq> v" "k < n"
  shows "sublist (replicate n v) (replicate k v @ b # bs) \<longleftrightarrow> sublist (replicate n v) bs"
  using assms(2)
proof (induction k)
  case 0
  then show ?case using assms(1) by (cases n) (auto simp: sublist_Cons_right)
next
  case (Suc k)
  have "\<not> prefix (replicate n v) (replicate (Suc k) v @ b # bs)"
    using prefix_replicate_less[OF _ assms(1)] Suc.prems by fastforce
  then show ?case using Suc by (simp add: sublist_Cons_right)
qed

text \<open>The counter is the length of the run of \<open>v\<close> that ends at the current position.\<close>

lemma run_byte_loop_sublist:
  "run < needed \<Longrightarrow>
   run_byte_loop v needed run bs \<longleftrightarrow> sublist (replicate needed v) (replicate run v @ bs)"
proof (induction v needed run bs rule: run_byte_loop.induct)
  case (1 v needed run)
  then show ?case using sublist_length_le[of "replicate needed v" "replicate run v"] by auto
next
  case (2 v needed run b bs)
  show ?case
  proof (cases "b = v")
    case True
    have app: "replicate run v @ v # bs = replicate (run + 1) v @ bs"
      by (simp add: replicate_app_Cons_same)
    show ?thesis
    proof (cases "run + 1 \<ge> needed")
      case ge: True
      with 2(3) have "needed = run + 1" by simp
      then have "sublist (replicate needed v) (replicate run v @ b # bs)"
        using True unfolding app[symmetric] by (metis app sublist_appendI append_Nil)
      then show ?thesis using True ge by simp
    next
      case False
      with 2(1)[OF True False] True show ?thesis unfolding True app by simp
    qed
  next
    case False
    with 2 show ?thesis by (simp add: sublist_replicate_break)
  qed
qed

lemma has_run_byte_sublist:
  "0 < needed \<Longrightarrow> has_run_byte buf v needed \<longleftrightarrow> sublist (replicate needed v) buf"
  using run_byte_loop_sublist[of 0 needed v buf] by (simp add: has_run_byte_def)

lemma sublist_mem_eq_at:
  "sublist pat buf \<longleftrightarrow> (\<exists>i. i + length pat \<le> length buf \<and> mem_eq_at buf i pat)"
proof
  assume "sublist pat buf"
  then obtain p s where "buf = p @ pat @ s" by (auto simp: sublist_def)
  then show "\<exists>i. i + length pat \<le> length buf \<and> mem_eq_at buf i pat"
    by (intro exI[of _ "length p"]) (simp add: mem_eq_at_def)
next
  assume "\<exists>i. i + length pat \<le> length buf \<and> mem_eq_at buf i pat"
  then obtain i where "take (length pat) (drop i buf) = pat" by (auto simp: mem_eq_at_def)
  then have "buf = take i buf @ pat @ drop (length pat) (drop i buf)"
    by (metis append_take_drop_id)
  then show "sublist pat buf" unfolding sublist_def by blast
qed

lemma has_pattern_sublist: "has_pattern buf pat \<longleftrightarrow> pat \<noteq> [] \<and> sublist pat buf"
  unfolding has_pattern_def list_ex_upt_le sublist_mem_eq_at
  by (auto simp: le_diff_conv2 not_less intro: exI)

lemma mem_eq_at_append:
  "mem_eq_at buf i (p @ q) \<longleftrightarrow> mem_eq_at buf i p \<and> mem_eq_at buf (i + length p) q"
proof (cases "length (take (length p) (drop i buf)) = length p")
  case True
  then show ?thesis by (simp add: mem_eq_at_def take_add add.commute)
next
  case False
  then have "length buf - i < length p" by (simp add: min_def split: if_splits)
  then have "length (take (length p + length q) (drop i buf)) < length (p @ q)" by simp
  with False show ?thesis unfolding mem_eq_at_def by (metis length_append less_irrefl)
qed

lemma mem_eq_at_repeat:
  assumes "i + length pat * n \<le> length buf"
  shows "mem_eq_at buf i (concat (replicate n pat)) \<longleftrightarrow>
         (\<forall>r<n. mem_eq_at buf (i + r * length pat) pat)"
  using assms
proof (induction n arbitrary: i)
  case 0
  then show ?case by (simp add: mem_eq_at_def)
next
  case (Suc n)
  have "mem_eq_at buf i (concat (replicate (Suc n) pat)) \<longleftrightarrow>
        mem_eq_at buf i pat \<and> (\<forall>r<n. mem_eq_at buf (i + length pat + r * length pat) pat)"
    using Suc by (simp add: mem_eq_at_append algebra_simps)
  then show ?case by (auto simp: less_Suc_eq_0_disj algebra_simps)
qed

lemma repeated_pattern_sublist:
  "repeated_pattern buf pat n \<longleftrightarrow> pat \<noteq> [] \<and> n \<noteq> 0 \<and> sublist (concat (replicate n pat)) buf"
proof -
  have len: "length (concat (replicate n pat)) = length pat * n"
    by (simp add: length_concat sum_list_replicate)
  have "list_ex (\<lambda>i. list_all (\<lambda>r. mem_eq_at buf (i + r * length pat) pat) [0..<n])
            [0..<length buf - length pat * n + 1]
        \<longleftrightarrow> sublist (concat (replicate n pat)) buf" if "length pat * n \<le> length buf"
    unfolding list_ex_upt_le list_all_upt_less sublist_mem_eq_at len using that
    by (metis mem_eq_at_repeat le_diff_conv2)
  moreover have "sublist (concat (replicate n pat)) buf \<Longrightarrow> length pat * n \<le> length buf"
    using sublist_length_le[of "concat (replicate n pat)" buf] by (simp only: len)
  ultimately show ?thesis by (auto simp: repeated_pattern_def not_less)
qed

subsection \<open>The MIPS loop\<close>

fun quads :: "byte list \<Rightarrow> byte list list" where
  "quads (a # b # c # d # rest) = [a, b, c, d] # quads rest"
| "quads _ = []"

lemma push_ucast_eq_0: "n \<le> 24 \<Longrightarrow> (push_bit n (ucast (a :: byte)) :: 32 word) = 0 \<longleftrightarrow> a = 0"
proof
  assume n: "n \<le> 24" and z: "(push_bit n (ucast a) :: 32 word) = 0"
  show "a = 0"
  proof (rule bit_word_eqI)
    fix k
    assume "k < LENGTH(8)"
    with n z have "\<not> bit (push_bit n (ucast a) :: 32 word) (n + k)" by simp
    with n \<open>k < LENGTH(8)\<close> show "bit a k = bit 0 k" by (simp add: bit_simps)
  qed
qed simp

lemma ucast_eq_0: "(ucast (a :: byte) :: 32 word) = 0 \<longleftrightarrow> a = 0"
  using push_ucast_eq_0[of 0 a] by simp

lemma rd32_eq_0:
  "rd32_le [a, b, c, d] = 0 \<longleftrightarrow> [a, b, c, d] = [0, 0, 0, 0]"
  "rd32_be [a, b, c, d] = 0 \<longleftrightarrow> [a, b, c, d] = [0, 0, 0, 0]"
  by (auto simp: rd32_le_def rd32_be_def or_eq_0_iff push_ucast_eq_0 ucast_eq_0)

text \<open>
  A MIPS \<open>syscall\<close> has function code 12 in its low six bits; the low byte is the first or the last of the group,
  by byte order. The scan looks at no other bit.
\<close>

definition quad_syscall :: "byte list \<Rightarrow> bool" where
  "quad_syscall q \<longleftrightarrow> unat (q ! 0) mod 64 = 12 \<or> unat (q ! 3) mod 64 = 12"

lemma low_byte_syscall:
  fixes a :: byte and w :: "32 word"
  assumes "take_bit 8 w = 0"
  shows "mips_syscall_word (w OR ucast a) \<longleftrightarrow> unat a mod 64 = 12"
proof -
  have m: "(63 :: 32 word) = mask 6" by (simp add: mask_eq_decr_exp)
  have "take_bit 6 w = 0" using assms take_bit_take_bit[of 6 8 w] by simp
  then have "(w OR ucast a) AND 63 = take_bit 6 (ucast a)"
    unfolding m take_bit_eq_mask[symmetric] by (simp add: take_bit_or)
  moreover have "unat (take_bit 6 (ucast a :: 32 word)) = unat a mod 64"
    using unsigned_take_bit_eq[of 6 "ucast a :: 32 word", where ?'a = nat]
    by (simp add: take_bit_eq_mod unsigned_ucast_eq mod_mod_cancel)
  moreover have "unat (12 :: 32 word) = 12" by simp
  ultimately show ?thesis unfolding mips_syscall_word_def by (metis word_unat_eq_iff)
qed

lemma syscall_low_bits:
  "mips_syscall_word (rd32_le q) \<longleftrightarrow> unat (q ! 0) mod 64 = 12"
  "mips_syscall_word (rd32_be q) \<longleftrightarrow> unat (q ! 3) mod 64 = 12"
proof -
  have "rd32_le q = (push_bit 8 (ucast (q ! 1)) OR push_bit 16 (ucast (q ! 2)) OR push_bit 24 (ucast (q ! 3)))
      OR ucast (q ! 0)"
    by (simp add: rd32_le_def or.assoc or.commute or.left_commute)
  then show "mips_syscall_word (rd32_le q) \<longleftrightarrow> unat (q ! 0) mod 64 = 12"
    by (simp only:) (rule low_byte_syscall, simp add: take_bit_or take_bit_push_bit)
  show "mips_syscall_word (rd32_be q) \<longleftrightarrow> unat (q ! 3) mod 64 = 12"
    unfolding rd32_be_def or.assoc[symmetric] by (rule low_byte_syscall) (simp add: take_bit_or take_bit_push_bit)
qed
lemma quad_syscall_word: "quad_syscall q \<longleftrightarrow> mips_syscall_word (rd32_le q) \<or> mips_syscall_word (rd32_be q)"
  by (simp add: quad_syscall_def syscall_low_bits)

text \<open>One turn of the loop in terms of the group it reads.\<close>

fun quad_step :: "byte list \<Rightarrow> nat \<times> nat \<times> bool \<Rightarrow> nat \<times> nat \<times> bool" where
  "quad_step q (z, m, s) =
     (if q = replicate 4 0 then (z + 1, max m (z + 1), s \<or> quad_syscall q)
      else (0, m, s \<or> quad_syscall q))"

lemma zero_quad: "replicate 4 0 = ([0, 0, 0, 0] :: byte list)"
  by (simp add: numeral_eq_Suc)

lemma mips_loop_step:
  "mips_loop (a # b # c # d # rest) st = mips_loop rest (quad_step [a, b, c, d] st)"
proof (cases st)
  case (fields z m s)
  have mx: "(if Suc z > m then Suc z else m) = max m (Suc z)" by (simp add: max_def)
  show ?thesis
  proof (cases "[a, b, c, d] = [0, 0, 0, 0]")
    case True
    then have "a = 0" "b = 0" "c = 0" "d = 0" by simp_all
    then show ?thesis
      by (auto simp: fields Let_def rd32_eq_0 quad_syscall_word zero_quad simp flip: mx)
  next
    case False
    then have "rd32_le [a, b, c, d] \<noteq> 0" "rd32_be [a, b, c, d] \<noteq> 0"
      by (simp_all only: rd32_eq_0 not_False_eq_True)
    with False show ?thesis
      by (auto simp: fields Let_def quad_syscall_word zero_quad)
  qed
qed

lemma mips_loop_quads: "mips_loop bs st = fold quad_step (quads bs) st"
proof (induction bs arbitrary: st rule: quads.induct)
  case (1 a b c d rest)
  then show ?case by (simp only: mips_loop_step quads.simps fold_simps)
qed simp_all

text \<open>The longest run of zero words so far covers every run that ends before the current one.\<close>

lemma quad_steps_runs:
  assumes "z \<le> m" "fold quad_step qs (z, m, s) = (z', m', s')"
  shows "(k \<le> m' \<longleftrightarrow> k \<le> m \<or> sublist (replicate k (replicate 4 0)) (replicate z (replicate 4 0) @ qs))
         \<and> (s' \<longleftrightarrow> s \<or> list_ex quad_syscall qs)"
  using assms
proof (induction qs arbitrary: z m s)
  case Nil
  then show ?case
    using sublist_length_le[of "replicate k (replicate 4 0 :: byte list)" "replicate z (replicate 4 0)"]
    by auto
next
  case (Cons q qs)
  let ?Z = "replicate 4 0 :: byte list"
  show ?case
  proof (cases "q = ?Z")
    case True
    have app: "replicate z ?Z @ q # qs = replicate (z + 1) ?Z @ qs"
      using True by (simp add: replicate_app_Cons_same)
    have "k \<le> max m (z + 1) \<longleftrightarrow> k \<le> m \<or> k = z + 1" using Cons.prems(1) by auto
    moreover have "sublist (replicate (z + 1) ?Z) (replicate (z + 1) ?Z @ qs)"
      by (rule prefix_imp_sublist) simp
    ultimately show ?thesis
      using Cons.IH[of "z + 1" "max m (z + 1)" "s \<or> quad_syscall q"] Cons.prems True
      unfolding app by auto
  next
    case False
    have "k \<le> m \<or> sublist (replicate k ?Z) (replicate z ?Z @ q # qs)
          \<longleftrightarrow> k \<le> m \<or> sublist (replicate k ?Z) qs"
      using Cons.prems(1) sublist_replicate_break[OF False, of z k qs] by (cases "z < k") auto
    then show ?thesis
      using Cons.IH[of 0 m "s \<or> quad_syscall q"] Cons.prems False by auto
  qed
qed

lemma mips_loop_spec:
  "8 \<le> fst (snd (mips_loop b (0, 0, False))) \<longleftrightarrow>
     sublist (replicate 8 (replicate 4 0)) (quads b)"
  "snd (snd (mips_loop b (0, 0, False))) \<longleftrightarrow> list_ex quad_syscall (quads b)"
proof -
  obtain z m s where "mips_loop b (0, 0, False) = (z, m, s)" by (metis prod_cases3)
  with quad_steps_runs[of 0 0 "quads b" False z m s 8]
  show "8 \<le> fst (snd (mips_loop b (0, 0, False))) \<longleftrightarrow>
          sublist (replicate 8 (replicate 4 0)) (quads b)"
    and "snd (snd (mips_loop b (0, 0, False))) \<longleftrightarrow> list_ex quad_syscall (quads b)"
    by (simp_all add: mips_loop_quads)
qed

lemma quads_zero: "quads (replicate (4 * n) 0) = replicate n (replicate 4 0)"
  by (induction n) (simp_all add: numeral_eq_Suc)

subsection \<open>The report\<close>

text \<open>
  The rows of the heuristic table, in the order the scans try them: whether the row applies, its
  points and its message.
\<close>

definition heuristics :: "byte list \<Rightarrow> (bool \<times> int \<times> string) list" where
  "heuristics b =
     [(sublist (replicate 16 144) b, 25, ''x86/x64 NOP sled: >=16 consecutive 0x90 bytes''),
      (sublist (replicate 32 144) b, 20, ''x86/x64 long NOP sled: >=32 consecutive 0x90 bytes''),
      (sublist [15, 5] b, 25, ''x86_64 syscall instruction pattern: 0f 05''),
      (sublist [205, 128] b, 25, ''x86 int 0x80 syscall pattern: cd 80''),
      (sublist binsh b, 20, ''shell string present: /bin/sh''),
      (sublist [72, 199, 192] b, 10, ''x64 syscall setup pattern: mov rax, imm32''),
      (sublist (concat (replicate 8 [31, 32, 3, 213])) b
         \<or> sublist (concat (replicate 8 [213, 3, 32, 31])) b, 25,
       ''ARM64 NOP sled: repeated NOP instructions''),
      (sublist [1, 0, 0, 212] b \<or> sublist [212, 0, 0, 1] b, 25, ''ARM64 syscall pattern: svc #0''),
      (sublist (concat (replicate 8 [0, 240, 32, 227])) b
         \<or> sublist (concat (replicate 8 [227, 32, 240, 0])) b, 20,
       ''ARM NOP sled: repeated ARM NOP instructions''),
      (sublist (concat (replicate 12 [0, 191])) b \<or> sublist (concat (replicate 12 [191, 0])) b, 20,
       ''Thumb NOP sled: repeated Thumb NOP instructions''),
      (sublist [0, 0, 0, 239] b \<or> sublist [239, 0, 0, 0] b, 20, ''ARM syscall pattern: svc/swi''),
      (223 \<in> set (butlast b), 10, ''Thumb syscall-like pattern: svc immediate''),
      (sublist (replicate 8 [0, 0, 0, 0]) (quads b), 20, ''MIPS NOP sled: repeated zero-word NOPs''),
      (\<exists>q\<in>set (quads b). quad_syscall q, 20, ''MIPS syscall instruction pattern'')]"

definition hits :: "byte list \<Rightarrow> (int \<times> string) list" where
  "hits b = map snd (filter fst (heuristics b))"

lemma add_finding_room:
  "finding_count r < 32 \<Longrightarrow> length msg < 128 \<Longrightarrow>
   add_finding p msg r = r\<lparr>findings := findings r @ [msg], sc_score := min 100 (sc_score r + p)\<rparr>"
  by (simp add: add_finding_def SH_SHELLCODE_MAX_FINDINGS_def min_def Let_def)

text \<open>\<open>add_row\<close> adds a row's finding; a whole table of them fits as long as the array has room.\<close>

definition add_row :: "bool \<times> int \<times> string \<Rightarrow> sc_report \<Rightarrow> sc_report" where
  "add_row row r = add_if (fst row) (fst (snd row)) (snd (snd row)) r"

lemma add_rows:
  assumes "finding_count r + length rows \<le> 32" "0 \<le> sc_score r" "sc_score r \<le> 100"
    "\<forall>row\<in>set rows. length (snd (snd row)) < 128 \<and> 0 \<le> fst (snd row)"
  shows "fold add_row rows r =
           r\<lparr>findings := findings r @ map (snd \<circ> snd) (filter fst rows),
             sc_score := min 100 (sc_score r + sum_list (map (fst \<circ> snd) (filter fst rows)))\<rparr>"
  using assms
proof (induction rows arbitrary: r)
  case Nil
  then show ?case by simp
next
  case (Cons row rows)
  have nn: "0 \<le> (\<Sum>a\<leftarrow>filter fst rows. fst (snd a))"
    using Cons.prems(4) by (intro sum_list_nonneg) auto
  show ?case
  proof (cases "fst row")
    case True
    have "add_row row r = r\<lparr>findings := findings r @ [snd (snd row)],
                            sc_score := min 100 (sc_score r + fst (snd row))\<rparr>"
      using Cons.prems True by (simp add: add_row_def add_if_def add_finding_room)
    moreover have "min 100 (min 100 (x + y) + z) = min 100 (x + (y + z))" if "0 \<le> z" for x y z :: int
      using that by simp
    ultimately show ?thesis using Cons.prems True nn by (simp add: Cons.IH)
  next
    case False
    then have "add_row row r = r" by (simp add: add_row_def add_if_def)
    then show ?thesis using Cons.prems False by (simp add: Cons.IH)
  qed
qed

lemma butlast_ex: "list_ex (\<lambda>i. b ! i = v) [0..<length b - 1] \<longleftrightarrow> v \<in> set (butlast b)"
  by (auto simp: list_ex_iff in_set_conv_nth nth_butlast)

lemma scans_rows:
  "scan_mips b (scan_arm32_thumb b (scan_arm64 b (scan_x86 b r))) = fold add_row (heuristics b) r"
  unfolding scan_arm32_thumb_def butlast_ex
  by (simp add: heuristics_def add_row_def scan_x86_def scan_arm64_def scan_mips_def Let_def
      has_run_byte_sublist has_pattern_sublist repeated_pattern_sublist binsh_def case_prod_beta
      mips_loop_spec zero_quad list_ex_iff)

lemma heuristics_sane:
  "length (heuristics b) = 14"
  "\<forall>row\<in>set (heuristics b). length (snd (snd row)) < 128 \<and> 0 < fst (snd row)"
  by (simp_all add: heuristics_def)

definition empty_report :: "string option \<Rightarrow> sc_report" where
  "empty_report machine =
     \<lparr>sc_score = 0, arch_hint = (case machine of Some m \<Rightarrow> cstr_copy 64 m | None \<Rightarrow> ''unknown''),
      findings = []\<rparr>"

lemma sh_shellcode_scan_hits:
  assumes "b \<noteq> []"
  shows "sh_shellcode_scan machine (Some b) =
           (empty_report machine)\<lparr>findings := map snd (hits b),
                                  sc_score := min 100 (sum_list (map fst (hits b)))\<rparr>"
  using assms add_rows[of "empty_report machine" "heuristics b"] heuristics_sane[of b]
  by (simp add: sh_shellcode_scan_def Let_def scans_rows hits_def empty_report_def comp_def
      less_imp_le)

subsection \<open>Properties\<close>

text \<open>
  The three search loops decide what they are for: a run of at least \<open>n\<close> equal bytes, a byte
  pattern, and a pattern repeated without a gap occur in the buffer exactly when the loops say so,
  with no read past its end.
\<close>

theorem search_loops_correct:
  "has_run_byte buf v (Suc n) = sublist (replicate (Suc n) v) buf \<and>
   has_pattern buf pat = (pat \<noteq> [] \<and> sublist pat buf) \<and>
   repeated_pattern buf pat k = (pat \<noteq> [] \<and> k \<noteq> 0 \<and> sublist (concat (replicate k pat)) buf)"
  by (simp only: has_run_byte_sublist[of "Suc n"] has_pattern_sublist repeated_pattern_sublist
      zero_less_Suc simp_thms)

text \<open>
  C19. The report of a scan is the heuristic table read off the buffer: the findings are the messages
  of the rows that apply, in table order and none dropped or cut, and the score is the sum of their
  points capped at 100.
\<close>

theorem shellcode_report_is_table:
  "sh_shellcode_scan machine (Some b) =
     (empty_report machine)\<lparr>findings := (if b = [] then [] else map snd (hits b)),
        sc_score := (if b = [] then 0 else min 100 (sum_list (map fst (hits b))))\<rparr>"
proof (cases "b = []")
  case True
  then show ?thesis by (simp add: sh_shellcode_scan_def empty_report_def)
next
  case False
  then show ?thesis by (simp add: sh_shellcode_scan_hits)
qed

lemma hits_sane: "length (hits b) \<le> 14" "\<forall>h\<in>set (hits b). 0 < fst h"
  using heuristics_sane[of b] length_filter_le[of fst "heuristics b"] by (auto simp: hits_def)

text \<open>
  C40. Every report is within its bounds: a score between 0 and 100, at most 14 of the 32 slots used,
  and a positive score exactly when there is a finding.
\<close>

theorem shellcode_report_bounds:
  "let r = sh_shellcode_scan machine buf
   in 0 \<le> sc_score r \<and> sc_score r \<le> 100 \<and> finding_count r \<le> 14
      \<and> (0 < sc_score r) = (findings r \<noteq> [])"
proof -
  have nn: "0 \<le> sum_list (map fst (hits b))" for b
    using hits_sane(2)[of b] by (intro sum_list_nonneg) auto
  have pos: "0 < sum_list (map fst (hits b)) \<longleftrightarrow> hits b \<noteq> []" for b
  proof (cases "hits b")
    case (Cons h hs)
    then have "0 < fst h" "0 \<le> sum_list (map fst hs)"
      using hits_sane(2)[of b] by (force intro!: sum_list_nonneg)+
    with Cons show ?thesis by simp
  qed simp
  show ?thesis
  proof (cases buf)
    case None
    then show ?thesis by (simp add: sh_shellcode_scan_def)
  next
    case (Some b)
    have "sh_shellcode_scan machine (Some []) = empty_report machine"
      by (simp add: sh_shellcode_scan_def empty_report_def)
    moreover have "sc_score (empty_report machine) = 0" "findings (empty_report machine) = []"
      by (simp_all add: empty_report_def)
    ultimately show ?thesis
      using Some nn[of b] pos[of b] hits_sane(1)[of b]
      by (cases "b = []") (simp_all add: sh_shellcode_scan_hits)
  qed
qed

lemma hits_row: "i < 14 \<Longrightarrow> fst (heuristics b ! i) \<Longrightarrow> snd (heuristics b ! i) \<in> set (hits b)"
  using heuristics_sane(1)[of b] nth_mem[of i "heuristics b"] by (auto simp: hits_def)

lemma mips_nop_row:
  "heuristics b ! 12 =
     (sublist (replicate 8 [0, 0, 0, 0]) (quads b), 20, ''MIPS NOP sled: repeated zero-word NOPs'')"
  by (simp only: heuristics_def nth_Cons_numeral nth_Cons_0 nth_Cons_Suc numeral_eq_Suc pred_numeral_simps
      BitM.simps arith_simps)

text \<open>
  A buffer of zeros is reported: any region whose bytes are all zero and that has at least 32 of
  them gets the finding for a MIPS NOP sled and at least 20 points, whatever the machine is.
\<close>

theorem zero_page_reported:
  assumes "8 \<le> n"
  shows "''MIPS NOP sled: repeated zero-word NOPs''
           \<in> set (findings (sh_shellcode_scan machine (Some (replicate (4 * n) 0))))
         \<and> 20 \<le> sc_score (sh_shellcode_scan machine (Some (replicate (4 * n) 0)))"
proof -
  let ?b = "replicate (4 * n) (0 :: byte)"
  obtain j where n: "n = 8 + j" using assms le_Suc_ex by blast
  have "sublist (replicate 8 (replicate 4 0)) (quads ?b)"
    unfolding quads_zero n replicate_add by (rule prefix_imp_sublist) simp
  then have h: "(20, ''MIPS NOP sled: repeated zero-word NOPs'') \<in> set (hits ?b)"
    using hits_row[of 12 ?b] by (simp only: mips_nop_row zero_quad) simp
  then have "20 \<le> sum_list (map fst (hits ?b))"
    using member_le_sum_list[of 20 "map fst (hits ?b)"] hits_sane(2)[of ?b] by force
  with h assms show ?thesis by (force simp: sh_shellcode_scan_hits)
qed

theorem zero_page_reported_witness:
  "''MIPS NOP sled: repeated zero-word NOPs''
     \<in> set (findings (sh_shellcode_scan (Some ''x86_64'') (Some (replicate (4 * 8) 0))))"
  using zero_page_reported[of 8 "Some ''x86_64''"] by simp

end
