(* ===== verification/Config.thy ===== *)
theory Config
  imports CText
begin

section \<open>Configuration and the limits of the build (\<open>app/main.c\<close>)\<close>

text \<open>
  The configuration record \<open>rw_config_t\<close> with the fields that the initialiser in \<open>main\<close> lists, that
  initialiser, and the sizes of arrays that the sources take from \<open>include/signalhunter/signalhunter.h\<close>.
  That header is not in the repository (\<open>.gitignore\<close> has a pattern \<open>signalhunter\<close> that matches its
  directory), so its macros and array sizes are a record \<open>limits\<close>, an argument of the definitions
  that use them; \<open>limits_ok\<close> says that every array has room for a byte. A pointer
  \<open>const rw_config_t*\<close> that may be NULL is a \<open>rw_config option\<close>.
\<close>

record rw_config =
  poll_seconds :: int
  enable_proc_events :: bool
  enable_fanotify :: bool
  enable_ebpf :: bool
  stop_suspicious :: bool
  verbose :: bool
  log_network :: bool
  log_raw :: bool
  log_synscan :: bool
  log_syscalls :: bool
  use_syslog :: bool
  case_threshold :: int
  injection_scan_seconds :: int
  log_dir :: "string option"
  log_max_bytes :: int
  log_archives :: int
  log_rate_seconds :: int
  enable_whitelist :: bool
  whitelist_path :: "string option"
  whitelist_score_percent :: int
  enable_dynamic_plugins :: bool
  plugin_dir :: "string option"
  module_config_path :: "string option"

definition default_config :: rw_config where
  "default_config = \<lparr>
     poll_seconds = 2,
     enable_proc_events = True,
     enable_fanotify = True,
     enable_ebpf = True,
     stop_suspicious = False,
     verbose = False,
     log_network = True,
     log_raw = True,
     log_synscan = False,
     log_syscalls = True,
     use_syslog = False,
     case_threshold = 60,
     injection_scan_seconds = 30,
     log_dir = Some ''logs'',
     log_max_bytes = 10 * 1024 * 1024,
     log_archives = 5,
     log_rate_seconds = 10,
     enable_whitelist = True,
     whitelist_path = Some ''config/whitelist.conf'',
     whitelist_score_percent = 25,
     enable_dynamic_plugins = True,
     plugin_dir = Some ''plugins'',
     module_config_path = Some ''config/modules.conf''\<rparr>"

text \<open>\<open>cfg && cfg->case_threshold > 0 ? cfg->case_threshold : dflt\<close>, the threshold in force.\<close>

definition threshold_or :: "int \<Rightarrow> rw_config option \<Rightarrow> int" where
  "threshold_or dflt cfg = (case cfg of
     Some c \<Rightarrow> if case_threshold c > 0 then case_threshold c else dflt
   | None \<Rightarrow> dflt)"

lemma threshold_or_pos: "0 < dflt \<Longrightarrow> 0 < threshold_or dflt cfg"
  by (auto simp: threshold_or_def split: option.splits)

record limits =
  max_path :: nat
  score_comm_len :: nat
  score_exe_len :: nat
  score_max_events :: nat
  ev_category_len :: nat
  ev_reason_len :: nat
  lineage_comm_len :: nat
  lineage_exe_len :: nat
  lineage_cmdline_len :: nat
  max_children :: nat
  max_tracks :: nat
  max_ip_str :: nat
  owner_exe_len :: nat
  conn_exe_len :: nat
  track_exe_len :: nat

definition limits_ok :: "limits \<Rightarrow> bool" where
  "limits_ok L \<longleftrightarrow> 0 < max_path L \<and> 0 < score_comm_len L \<and> 0 < score_exe_len L \<and>
     0 < score_max_events L \<and> 0 < ev_category_len L \<and> 0 < ev_reason_len L \<and>
     0 < lineage_comm_len L \<and> 0 < lineage_exe_len L \<and> 0 < lineage_cmdline_len L \<and>
     0 < max_children L \<and> 0 < max_ip_str L \<and> 0 < owner_exe_len L \<and> 0 < conn_exe_len L \<and>
     0 < track_exe_len L"

text \<open>Sizes for the witnesses, in the spirit of \<open>include/score.h\<close>.\<close>

definition small_limits :: limits where
  "small_limits = \<lparr>max_path = 512, score_comm_len = 64, score_exe_len = 512,
     score_max_events = 256, ev_category_len = 64, ev_reason_len = 256,
     lineage_comm_len = 64, lineage_exe_len = 512, lineage_cmdline_len = 512, max_children = 4,
     max_tracks = 64, max_ip_str = 64, owner_exe_len = 512, conn_exe_len = 512, track_exe_len = 512\<rparr>"

lemma small_limits_ok: "limits_ok small_limits"
  by (simp add: limits_ok_def small_limits_def)

end
