(* ===== verification/World.thy ===== *)
theory World
  imports Config
begin

section \<open>The operating system as the program sees it\<close>

text \<open>
  What the sources ask of the kernel, procfs and the C library's clock is a record \<open>os\<close> of
  functions: the answer of a call depends on when it is made (\<open>clk\<close>, a counter that every call
  advances) and on its arguments, and nothing else is assumed of it. Two reads of \<open>/proc/7/status\<close>
  may therefore differ, a process may be gone between two calls, the clock may jump.

  Files that the program writes (its log directory) are state: \<open>files\<close> maps a path to what has been
  written, starting from whatever is there; \<open>sent\<close> lists the signals it sends. The record \<open>world\<close> is extended by every stateful
  component with its static variables, so an operation of a component applies as it is to the
  state of the whole program. Console output (\<open>printf\<close>) is left out.
\<close>

datatype pread_result = PBytes "byte list" | PIntr | PErr

record os =
  env_time :: "nat \<Rightarrow> time"
  env_read :: "nat \<Rightarrow> string \<Rightarrow> string option"
  env_link :: "nat \<Rightarrow> string \<Rightarrow> string option"
  env_dir :: "nat \<Rightarrow> string \<Rightarrow> string list option"
  env_mkdir :: "nat \<Rightarrow> string \<Rightarrow> bool"
  env_open :: "nat \<Rightarrow> string \<Rightarrow> bool"
  env_ftell :: "nat \<Rightarrow> string \<Rightarrow> int"
  env_pread :: "nat \<Rightarrow> string \<Rightarrow> nat \<Rightarrow> nat \<Rightarrow> pread_result"
  env_kill :: "nat \<Rightarrow> pid \<Rightarrow> int \<Rightarrow> bool"
  env_strftime :: "string \<Rightarrow> time \<Rightarrow> string"
  env_strerror :: "nat \<Rightarrow> string"
  env_getenv :: "string \<Rightarrow> string option"
  env_uname :: "string option"
  env_io_error :: "nat \<Rightarrow> string \<Rightarrow> nat option"
  env_rename :: "nat \<Rightarrow> string \<Rightarrow> string \<Rightarrow> bool"
  env_unlink :: "nat \<Rightarrow> string \<Rightarrow> bool"
  env_errno :: "nat \<Rightarrow> int"
  env_malloc :: "nat \<Rightarrow> nat \<Rightarrow> bool"

record world =
  clk :: nat
  files :: "string \<Rightarrow> string option"
  sent :: "(pid \<times> int) list"

definition tick :: "'a world_scheme \<Rightarrow> 'a world_scheme" where
  "tick s = s\<lparr>clk := Suc (clk s)\<rparr>"

subsection \<open>Calls\<close>

definition sys_time :: "os \<Rightarrow> 'a world_scheme \<Rightarrow> time \<times> 'a world_scheme" where
  "sys_time w s = (env_time w (clk s), tick s)"

text \<open>A whole file: one the program has written, or one of procfs.\<close>

definition sys_read :: "os \<Rightarrow> string \<Rightarrow> 'a world_scheme \<Rightarrow> string option \<times> 'a world_scheme" where
  "sys_read w path s =
     ((case files s path of Some t \<Rightarrow> Some t | None \<Rightarrow> env_read w (clk s) path), tick s)"

definition sys_opendir :: "os \<Rightarrow> string \<Rightarrow> 'a world_scheme \<Rightarrow> string list option \<times> 'a world_scheme" where
  "sys_opendir w path s = (env_dir w (clk s) path, tick s)"

definition sys_mkdir :: "os \<Rightarrow> string \<Rightarrow> 'a world_scheme \<Rightarrow> bool \<times> 'a world_scheme" where
  "sys_mkdir w path s = (env_mkdir w (clk s) path, tick s)"

text \<open>A signal that is sent is recorded; whether it was delivered is the result.\<close>

definition sys_kill :: "os \<Rightarrow> pid \<Rightarrow> int \<Rightarrow> 'a world_scheme \<Rightarrow> bool \<times> 'a world_scheme" where
  "sys_kill w pid sig s = (env_kill w (clk s) pid sig, tick s\<lparr>sent := sent s @ [(pid, sig)]\<rparr>)"

text \<open>\<open>readlink(path, out, n - 1)\<close> with the NUL that \<open>rw_read_link_path\<close> of \<open>core/util.c\<close> adds.\<close>

definition rw_read_link_path ::
  "os \<Rightarrow> string \<Rightarrow> nat \<Rightarrow> 'a world_scheme \<Rightarrow> string option \<times> 'a world_scheme" where
  "rw_read_link_path w path out_len s =
     (map_option (take (out_len - 1)) (env_link w (clk s) path), tick s)"

subsection \<open>Files of the program\<close>

definition file_text :: "string \<Rightarrow> 'a world_scheme \<Rightarrow> string" where
  "file_text path s = (case files s path of Some t \<Rightarrow> t | None \<Rightarrow> [])"

definition put_file :: "string \<Rightarrow> string \<Rightarrow> 'a world_scheme \<Rightarrow> 'a world_scheme" where
  "put_file path t s = s\<lparr>files := (files s)(path \<mapsto> t)\<rparr>"

text \<open>\<open>fopen\<close> with mode w truncates, with mode a creates what is missing.\<close>

definition sys_fopen_w :: "os \<Rightarrow> string \<Rightarrow> 'a world_scheme \<Rightarrow> bool \<times> 'a world_scheme" where
  "sys_fopen_w w path s =
     (if env_open w (clk s) path then (True, put_file path [] (tick s)) else (False, tick s))"

definition sys_fopen_a :: "os \<Rightarrow> string \<Rightarrow> 'a world_scheme \<Rightarrow> bool \<times> 'a world_scheme" where
  "sys_fopen_a w path s =
     (if env_open w (clk s) path then (True, put_file path (file_text path s) (tick s))
      else (False, tick s))"

definition fprintf_to :: "string \<Rightarrow> string \<Rightarrow> 'a world_scheme \<Rightarrow> 'a world_scheme" where
  "fprintf_to path t s = put_file path (file_text path s @ t) s"

text \<open>The kernel may refuse either call; the sources ignore the result.\<close>

definition sys_unlink :: "os \<Rightarrow> string \<Rightarrow> 'a world_scheme \<Rightarrow> 'a world_scheme" where
  "sys_unlink w path s =
     tick (if env_unlink w (clk s) path then s\<lparr>files := (files s)(path := None)\<rparr> else s)"

definition sys_rename :: "os \<Rightarrow> string \<Rightarrow> string \<Rightarrow> 'a world_scheme \<Rightarrow> 'a world_scheme" where
  "sys_rename w a b s =
     tick (if files s a = None \<or> \<not> env_rename w (clk s) a b then s
           else s\<lparr>files := (files s)(b := files s a, a := None)\<rparr>)"

subsection \<open>Paths and stamps\<close>

definition proc_path :: "pid \<Rightarrow> string \<Rightarrow> string" where
  "proc_path pid name = cstr_copy 128 (''/proc/'' @ show_int pid @ ''/'' @ name)"

text \<open>
  The test after every \<open>snprintf\<close> of a path: \<open>n < 0 || (size_t)n >= sizeof(path)\<close> refuses a path
  that was cut.
\<close>

definition path_in :: "nat \<Rightarrow> string \<Rightarrow> string \<Rightarrow> string option" where
  "path_in cap dir name =
     (let p = dir @ ''/'' @ name in if length p \<ge> cap then None else Some p)"

lemma path_in_Some: "path_in cap dir name = Some p \<longleftrightarrow> p = dir @ ''/'' @ name \<and> length p < cap"
  by (auto simp: path_in_def Let_def)

text \<open>\<open>rw_read_exe_path\<close> of \<open>core/util.c\<close>.\<close>

definition rw_read_exe_path :: "os \<Rightarrow> pid \<Rightarrow> nat \<Rightarrow> 'a world_scheme \<Rightarrow> string \<times> 'a world_scheme" where
  "rw_read_exe_path w pid out_len s =
     (let (r, s') = rw_read_link_path w (proc_path pid ''exe'') out_len s
      in (case r of Some p \<Rightarrow> p | None \<Rightarrow> cstr_copy out_len ''<unknown>'', s'))"

text \<open>
  A stamp of the current time: \<open>timestamp_now\<close> of \<open>core/util.c\<close> and \<open>case_timestamp\<close> of
  \<open>case/case.c\<close>; the buffers of 64 bytes hold every format the sources use.
\<close>

definition case_timestamp :: "os \<Rightarrow> string \<Rightarrow> 'a world_scheme \<Rightarrow> string \<times> 'a world_scheme" where
  "case_timestamp w fmt s = (let (now, s') = sys_time w s in (env_strftime w fmt now, s'))"

definition human_fmt :: string where
  "human_fmt = ''%Y-%m-%d %H:%M:%S''"

text \<open>A concrete environment for witnesses: nothing in procfs, a clock that runs, every file opens.\<close>

definition idle_os :: os where
  "idle_os = \<lparr>env_time = (\<lambda>t. 1000 + int t), env_read = (\<lambda>_ _. None), env_link = (\<lambda>_ _. None),
     env_dir = (\<lambda>_ _. None), env_mkdir = (\<lambda>_ _. True), env_open = (\<lambda>_ _. True),
     env_ftell = (\<lambda>_ _. 0), env_pread = (\<lambda>_ _ _ _. PErr), env_kill = (\<lambda>_ _ _. True),
     env_strftime = (\<lambda>_ _. ''T''), env_strerror = (\<lambda>_. ''E''), env_getenv = (\<lambda>_. None),
     env_uname = None, env_io_error = (\<lambda>_ _. None),
     env_rename = (\<lambda>_ _ _. True), env_unlink = (\<lambda>_ _. True),
     env_errno = (\<lambda>_. 1), env_malloc = (\<lambda>_ _. True)\<rparr>"

subsection \<open>What a call can change\<close>

named_theorems world_simps \<open>calls of the operating system as updates of clock and files\<close>

lemma tick_world [world_simps]:
  "clk (tick s) = Suc (clk s)" "files (tick s) = files s" "sent (tick s) = sent s" "world.more (tick s) = world.more s"
  by (simp_all add: tick_def)

text \<open>
  \<open>world_only s s'\<close>: the two states differ in the clock and the files alone, so the static
  variables of every component are untouched.
\<close>

definition world_only :: "'a world_scheme \<Rightarrow> 'a world_scheme \<Rightarrow> bool" where
  "world_only s s' \<longleftrightarrow> world.more s' = world.more s"

named_theorems world_only_intros \<open>operations that only touch clock and files\<close>

lemma world_only_refl [simp, world_only_intros]: "world_only s s"
  by (simp add: world_only_def)

lemma world_only_trans: "world_only s t \<Longrightarrow> world_only t u \<Longrightarrow> world_only s u"
  by (simp add: world_only_def)

lemma world_only_calls [world_only_intros]:
  "world_only s (tick s)"
  "world_only s (snd (sys_time w s))"
  "world_only s (snd (sys_read w path s))"
  "world_only s (snd (sys_opendir w path s))"
  "world_only s (snd (sys_mkdir w path s))"
  "world_only s (snd (sys_kill w pid sig s))"
  "world_only s (snd (rw_read_link_path w path n s))"
  "world_only s (put_file path t s)"
  "world_only s (snd (sys_fopen_w w path s))"
  "world_only s (snd (sys_fopen_a w path s))"
  "world_only s (fprintf_to path t s)"
  "world_only s (sys_unlink w path s)"
  "world_only s (sys_rename w path path' s)"
  "world_only s (snd (rw_read_exe_path w pid n s))"
  "world_only s (snd (case_timestamp w fmt s))"
  by (simp_all add: world_only_def tick_def sys_time_def sys_read_def sys_opendir_def sys_mkdir_def
      sys_kill_def rw_read_link_path_def put_file_def sys_fopen_w_def sys_fopen_a_def fprintf_to_def
      sys_unlink_def sys_rename_def rw_read_exe_path_def case_timestamp_def Let_def split_beta)

end
