(* ===== verification/Logger.thy ===== *)
theory Logger
  imports World
begin

unbundle bit_operations_syntax

section \<open>The logger (\<open>core/util.c\<close>)\<close>

text \<open>
  Log sinks with size-based rotation, and the suppression of repeated lines. The six static sinks
  are a function from their names, the static table of 512 slots a list. Every line goes through
  \<open>vlog_to\<close>: the slot of its hash decides whether it is a repeat within the rate window, then it is
  written to its own sink and to the main one.
\<close>

datatype log_id = LogMain | LogAlerts | LogNetwork | LogInjection | LogEvents | LogScores

record log_sink =
  sk_open :: bool
  sk_path :: string
  sk_level :: string
  sk_pri :: int

record dedup_slot =
  sl_hash :: "64 word"
  sl_last :: time
  sl_suppressed :: "32 word"

record logger = world +
  sinks :: "log_id \<Rightarrow> log_sink"
  dedup :: "dedup_slot list"
  use_syslog_now :: bool
  max_bytes :: int
  archives :: int
  rate_seconds :: int
  syslog_out :: "(int \<times> string) list"

definition RW_DEDUP_SLOTS :: nat where
  "RW_DEDUP_SLOTS = 512"

definition LOG_WARNING :: int where
  "LOG_WARNING = 4"

definition LOG_INFO :: int where
  "LOG_INFO = 6"

definition logger_start :: "os \<Rightarrow> (string \<Rightarrow> string option) \<Rightarrow> logger" where
  "logger_start w disk =
     \<lparr>clk = 0, files = disk, sent = [],
      sinks = (\<lambda>_. \<lparr>sk_open = False, sk_path = [], sk_level = [], sk_pri = 0\<rparr>),
      dedup = replicate RW_DEDUP_SLOTS \<lparr>sl_hash = 0, sl_last = 0, sl_suppressed = 0\<rparr>,
      use_syslog_now = False, max_bytes = 10 * 1024 * 1024, archives = 5, rate_seconds = 10,
      syslog_out = []\<rparr>"

subsection \<open>Hashing and suppression\<close>

fun fnv1a_loop :: "string \<Rightarrow> 64 word \<Rightarrow> 64 word" where
  "fnv1a_loop [] h = h"
| "fnv1a_loop (c # s) h = fnv1a_loop s ((h XOR word_of_nat (chr_code c)) * 1099511628211)"

definition fnv1a :: "string \<Rightarrow> 64 word" where
  "fnv1a s = fnv1a_loop s 1469598103934665603"

definition dedup_key :: "string \<Rightarrow> string \<Rightarrow> string" where
  "dedup_key level msg = cstr_copy 4608 (level @ '':'' @ msg)"

definition dedup_index :: "string \<Rightarrow> nat" where
  "dedup_index key = unat (fnv1a key mod word_of_nat RW_DEDUP_SLOTS)"

text \<open>The result is whether to write, with the number of repeats that the line has to report.\<close>

definition should_emit_line ::
  "os \<Rightarrow> string \<Rightarrow> string \<Rightarrow> 'a logger_scheme \<Rightarrow> (bool \<times> 32 word) \<times> 'a logger_scheme" where
  "should_emit_line w level msg s =
     (if rate_seconds s = 0 then ((True, 0), s)
      else (let h = fnv1a (dedup_key level msg);
                idx = dedup_index (dedup_key level msg);
                (now, s1) = sys_time w s;
                slot = dedup s1 ! idx
            in if sl_hash slot = h \<and> now - sl_last slot < rate_seconds s1
               then ((False, 0),
                     s1\<lparr>dedup := (dedup s1)[idx := slot\<lparr>sl_suppressed := sl_suppressed slot + 1\<rparr>]\<rparr>)
               else ((True, if sl_hash slot = h \<and> sl_suppressed slot > 0 then sl_suppressed slot else 0),
                     s1\<lparr>dedup := (dedup s1)[idx := \<lparr>sl_hash = h, sl_last = now, sl_suppressed = 0\<rparr>]\<rparr>)))"

subsection \<open>Sinks and rotation\<close>

definition archive_name :: "nat \<Rightarrow> string \<Rightarrow> nat \<Rightarrow> string" where
  "archive_name cap path i = cstr_copy (cap * 2) (path @ ''.'' @ show_nat i)"

text \<open>The loop \<open>for (i = g_log_archives - 1; i >= 1; i--)\<close>.\<close>

fun rotate_shift :: "os \<Rightarrow> nat \<Rightarrow> string \<Rightarrow> nat \<Rightarrow> 'a world_scheme \<Rightarrow> 'a world_scheme" where
  "rotate_shift w cap path 0 s = s"
| "rotate_shift w cap path (Suc i) s =
     rotate_shift w cap path i
       (sys_rename w (archive_name cap path (Suc i)) (archive_name cap path (Suc (Suc i))) s)"

definition set_open :: "log_id \<Rightarrow> bool \<Rightarrow> 'a logger_scheme \<Rightarrow> 'a logger_scheme" where
  "set_open lid b s = s\<lparr>sinks := (sinks s)(lid := sinks s lid\<lparr>sk_open := b\<rparr>)\<rparr>"

definition rotate_if_needed :: "limits \<Rightarrow> os \<Rightarrow> log_id \<Rightarrow> 'a logger_scheme \<Rightarrow> 'a logger_scheme" where
  "rotate_if_needed L w lid s =
     (if \<not> sk_open (sinks s lid) \<or> max_bytes s \<le> 0 then s
      else (let path = sk_path (sinks s lid); pos = env_ftell w (clk s) path; s1 = tick s
            in if 0 \<le> pos \<and> pos < max_bytes s1 then s1
               else (let s2 = set_open lid False s1
                     in if archives s2 < 1
                        then (let (ok, s3) = sys_fopen_w w path s2 in set_open lid ok s3)
                        else (let s3 = sys_unlink w (archive_name (max_path L) path (nat (archives s2))) s2;
                                  s4 = rotate_shift w (max_path L) path (nat (archives s2 - 1)) s3;
                                  s5 = sys_rename w path (archive_name (max_path L) path 1) s4;
                                  (ok, s6) = sys_fopen_a w path s5
                              in set_open lid ok s6))))"

definition write_line ::
  "limits \<Rightarrow> os \<Rightarrow> log_id \<Rightarrow> string \<Rightarrow> string \<Rightarrow> 32 word \<Rightarrow> 'a logger_scheme \<Rightarrow> 'a logger_scheme" where
  "write_line L w lid level msg suppressed s =
     (if \<not> sk_open (sinks s lid) then s
      else (let s1 = rotate_if_needed L w lid s
            in if \<not> sk_open (sinks s1 lid) then s1
               else (let (ts, s2) = case_timestamp w human_fmt s1
                     in fprintf_to (sk_path (sinks s2 lid))
                          (''['' @ ts @ ''] ['' @ level @ ''] '' @ msg
                           @ (if suppressed > 0
                              then '' suppressed_repeats='' @ show_nat (unat suppressed) else [])
                           @ [newline]) s2)))"

definition vlog_to ::
  "limits \<Rightarrow> os \<Rightarrow> log_id \<Rightarrow> string \<Rightarrow> int \<Rightarrow> string \<Rightarrow> 'a logger_scheme \<Rightarrow> 'a logger_scheme" where
  "vlog_to L w lid level syslog_pri text s =
     (let msg = cstr_copy 4096 text;
          ((emit, suppressed), s1) = should_emit_line w level msg s
      in if \<not> emit then s1
         else (let s2 = write_line L w lid level msg suppressed s1;
                   s3 = (if lid \<noteq> LogMain then write_line L w LogMain level msg 0 s2 else s2)
               in if use_syslog_now s3 then s3\<lparr>syslog_out := syslog_out s3 @ [(syslog_pri, msg)]\<rparr>
                  else s3))"

definition rw_log_info :: "limits \<Rightarrow> os \<Rightarrow> string \<Rightarrow> 'a logger_scheme \<Rightarrow> 'a logger_scheme" where
  "rw_log_info L w text s = vlog_to L w LogMain ''INFO'' LOG_INFO text s"

definition rw_log_alert :: "limits \<Rightarrow> os \<Rightarrow> string \<Rightarrow> 'a logger_scheme \<Rightarrow> 'a logger_scheme" where
  "rw_log_alert L w text s = vlog_to L w LogAlerts ''ALERT'' LOG_WARNING text s"

definition rw_log_network :: "limits \<Rightarrow> os \<Rightarrow> string \<Rightarrow> 'a logger_scheme \<Rightarrow> 'a logger_scheme" where
  "rw_log_network L w text s = vlog_to L w LogNetwork ''NET'' LOG_INFO text s"

definition rw_log_injection :: "limits \<Rightarrow> os \<Rightarrow> string \<Rightarrow> 'a logger_scheme \<Rightarrow> 'a logger_scheme" where
  "rw_log_injection L w text s = vlog_to L w LogInjection ''INJECTION'' LOG_WARNING text s"

definition rw_log_event :: "limits \<Rightarrow> os \<Rightarrow> string \<Rightarrow> 'a logger_scheme \<Rightarrow> 'a logger_scheme" where
  "rw_log_event L w text s = vlog_to L w LogEvents ''EVENT'' LOG_INFO text s"

definition rw_log_score :: "limits \<Rightarrow> os \<Rightarrow> string \<Rightarrow> 'a logger_scheme \<Rightarrow> 'a logger_scheme" where
  "rw_log_score L w text s = vlog_to L w LogScores ''SCORE'' LOG_INFO text s"

subsection \<open>Opening and closing\<close>

definition open_log_file ::
  "limits \<Rightarrow> os \<Rightarrow> log_id \<Rightarrow> string \<Rightarrow> string \<Rightarrow> string \<Rightarrow> int \<Rightarrow> 'a logger_scheme \<Rightarrow> int \<times> 'a logger_scheme"
  where
  "open_log_file L w lid dir name level pri s =
     (let full = dir @ ''/'' @ name;
          s1 = s\<lparr>sinks := (sinks s)(lid := sinks s lid\<lparr>sk_path := cstr_copy (max_path L) full\<rparr>)\<rparr>
      in if length full \<ge> max_path L then (-1, s1)
         else (let (ok, s2) = sys_fopen_a w full s1
               in (if ok then 0 else -1,
                   s2\<lparr>sinks := (sinks s2)(lid := sinks s2 lid\<lparr>sk_open := ok, sk_level := level, sk_pri := pri\<rparr>)\<rparr>)))"

definition log_files :: "(log_id \<times> string \<times> string \<times> int) list" where
  "log_files =
     [(LogMain, ''signalhunter.log'', ''INFO'', LOG_INFO),
      (LogAlerts, ''alerts.log'', ''ALERT'', LOG_WARNING),
      (LogNetwork, ''network.log'', ''NET'', LOG_INFO),
      (LogInjection, ''injection.log'', ''INJECTION'', LOG_WARNING),
      (LogEvents, ''events.log'', ''EVENT'', LOG_INFO),
      (LogScores, ''scores.log'', ''SCORE'', LOG_INFO)]"

text \<open>The six calls of \<open>open_log_file\<close>, the first failure ends the initialisation.\<close>

fun open_log_files ::
  "limits \<Rightarrow> os \<Rightarrow> string \<Rightarrow> (log_id \<times> string \<times> string \<times> int) list \<Rightarrow> 'a logger_scheme
     \<Rightarrow> int \<times> 'a logger_scheme" where
  "open_log_files L w dir [] s = (0, s)"
| "open_log_files L w dir ((lid, name, level, pri) # rest) s =
     (let (rc, s1) = open_log_file L w lid dir name level pri s
      in if rc \<noteq> 0 then (-1, s1) else open_log_files L w dir rest s1)"

definition env_or :: "(string \<Rightarrow> int) \<Rightarrow> string option \<Rightarrow> int \<Rightarrow> int \<Rightarrow> int" where
  "env_or parse v old dflt =
     (let x = (if nonempty_str v then parse (the v) else old) in if x < 0 then dflt else x)"

definition rw_log_init ::
  "limits \<Rightarrow> os \<Rightarrow> string option \<Rightarrow> bool \<Rightarrow> 'a logger_scheme \<Rightarrow> int \<times> 'a logger_scheme" where
  "rw_log_init L w ldir syslog_on s =
     (let dir = str_or ldir ''logs'';
          (ok, s1) = sys_mkdir w dir s
      in if \<not> ok then (-1, s1)
         else (let s2 = (case path_in (max_path L) dir ''cases'' of
                           Some d \<Rightarrow> snd (sys_mkdir w d s1) | None \<Rightarrow> s1);
                   (rc, s3) = open_log_files L w dir log_files s2
               in if rc \<noteq> 0 then (-1, s3)
                  else (let s4 = s3\<lparr>max_bytes := env_or atol (env_getenv w ''RW_LOG_MAX_BYTES'')
                                                  (max_bytes s3) (10 * 1024 * 1024),
                                    archives := env_or atoi (env_getenv w ''RW_LOG_ARCHIVES'')
                                                  (archives s3) 5,
                                    rate_seconds := env_or atoi (env_getenv w ''RW_LOG_RATE_SECONDS'')
                                                  (rate_seconds s3) 10,
                                    use_syslog_now := syslog_on\<rparr>
                        in (0, rw_log_info L w
                                 (''logger initialized dir='' @ dir @ '' syslog=''
                                  @ (if syslog_on then ''yes'' else ''no'')
                                  @ '' max_bytes='' @ show_int (max_bytes s4)
                                  @ '' archives='' @ show_int (archives s4)
                                  @ '' rate_seconds='' @ show_int (rate_seconds s4)) s4))))"

definition rw_log_close :: "'a logger_scheme \<Rightarrow> 'a logger_scheme" where
  "rw_log_close s = s\<lparr>sinks := (\<lambda>lid. sinks s lid\<lparr>sk_open := False\<rparr>)\<rparr>"


subsection \<open>The hash is not the published FNV-1a\<close>

text \<open>The 64-bit FNV-1a of the standard: the same loop from the offset basis of the publication.\<close>

definition fnv1a_published :: "string \<Rightarrow> 64 word" where
  "fnv1a_published s = fnv1a_loop s 14695981039346656037"

lemma fnv_prime_inverse: "1099511628211 * (14886173955864302971 :: 64 word) = 1"
  by simp

lemma fnv_step_inj:
  fixes g h :: "64 word"
  assumes "(g XOR c) * 1099511628211 = (h XOR c) * 1099511628211"
  shows "g = h"
proof -
  have "(g XOR c) * (1099511628211 * 14886173955864302971)
      = (h XOR c) * (1099511628211 * (14886173955864302971 :: 64 word))"
    unfolding mult.assoc[symmetric] assms ..
  then have "g XOR c = h XOR c" unfolding fnv_prime_inverse by simp
  then have "(g XOR c) XOR c = (h XOR c) XOR c" by simp
  then show ?thesis by (simp add: xor.assoc)
qed

lemma fnv1a_loop_inj: "fnv1a_loop s g = fnv1a_loop s h \<Longrightarrow> g = h"
  by (induction s arbitrary: g h) (auto dest: fnv_step_inj)

text \<open>The offset basis in the code, 1469598103934665603, lacks the last digit of FNV-1a's
  14695981039346656037, and since every step of the hash is a bijection of the 64-bit words no
  string at all has the published digest.\<close>

theorem fnv1a_never_published: "fnv1a s \<noteq> fnv1a_published s"
  using fnv1a_loop_inj[of s 1469598103934665603 14695981039346656037]
  by (auto simp: fnv1a_def fnv1a_published_def)

subsection \<open>Suppression loses no repeat\<close>

lemma dedup_index_less: "dedup_index key < RW_DEDUP_SLOTS"
  by (simp add: dedup_index_def RW_DEDUP_SLOTS_def unat_mod)

definition logger_ok :: "'a logger_scheme \<Rightarrow> bool" where
  "logger_ok s \<longleftrightarrow> length (dedup s) = RW_DEDUP_SLOTS"

abbreviation msg_slot :: "string \<Rightarrow> string \<Rightarrow> 'a logger_scheme \<Rightarrow> dedup_slot" where
  "msg_slot level text s \<equiv> dedup s ! dedup_index (dedup_key level (cstr_copy 4096 text))"

abbreviation msg_hash :: "string \<Rightarrow> string \<Rightarrow> 64 word" where
  "msg_hash level text \<equiv> fnv1a (dedup_key level (cstr_copy 4096 text))"

text \<open>A call of \<open>vlog_to\<close> within the window of the line's slot.\<close>

lemma vlog_to_repeat:
  assumes "logger_ok s" "rate_seconds s \<noteq> 0" "sl_hash (msg_slot level text s) = msg_hash level text"
    "env_time w (clk s) - sl_last (msg_slot level text s) < rate_seconds s"
  shows "vlog_to L w lid level pri text s =
     s\<lparr>clk := Suc (clk s),
       dedup := (dedup s)[dedup_index (dedup_key level (cstr_copy 4096 text)) :=
                  msg_slot level text s\<lparr>sl_suppressed := sl_suppressed (msg_slot level text s) + 1\<rparr>]\<rparr>"
  using assms by (simp add: vlog_to_def should_emit_line_def sys_time_def tick_def Let_def)

lemma vlog_to_repeats:
  assumes "logger_ok s" "rate_seconds s \<noteq> 0"
    "msg_slot level text s = \<lparr>sl_hash = msg_hash level text, sl_last = t0, sl_suppressed = k\<rparr>"
    "\<And>i. i < n \<Longrightarrow> env_time w (clk s + i) - t0 < rate_seconds s"
  shows "(vlog_to L w lid level pri text ^^ n) s =
     s\<lparr>clk := clk s + n,
       dedup := (dedup s)[dedup_index (dedup_key level (cstr_copy 4096 text)) :=
          \<lparr>sl_hash = msg_hash level text, sl_last = t0, sl_suppressed = k + of_nat n\<rparr>]\<rparr>"
  using assms(4)
proof (induction n)
  case 0
  show ?case using assms(1,3) by (simp flip: assms(3))
next
  case (Suc n)
  let ?i = "dedup_index (dedup_key level (cstr_copy 4096 text))"
  let ?sn = "(vlog_to L w lid level pri text ^^ n) s"
  have eq: "?sn = s\<lparr>clk := clk s + n, dedup := (dedup s)[?i :=
      \<lparr>sl_hash = msg_hash level text, sl_last = t0, sl_suppressed = k + of_nat n\<rparr>]\<rparr>"
    using Suc by simp
  have i: "?i < length (dedup s)" using assms(1) dedup_index_less by (simp add: logger_ok_def)
  have "vlog_to L w lid level pri text ?sn =
     ?sn\<lparr>clk := Suc (clk ?sn), dedup := (dedup ?sn)[?i :=
       msg_slot level text ?sn\<lparr>sl_suppressed := sl_suppressed (msg_slot level text ?sn) + 1\<rparr>]\<rparr>"
    using assms(1,2) i Suc(2)[of n] by (intro vlog_to_repeat) (simp_all add: eq logger_ok_def)
  also have "\<dots> = s\<lparr>clk := clk s + Suc n, dedup := (dedup s)[?i :=
      \<lparr>sl_hash = msg_hash level text, sl_last = t0, sl_suppressed = k + of_nat (Suc n)\<rparr>]\<rparr>"
    using i by (simp add: eq ac_simps)
  finally show ?case by simp
qed

text \<open>What one emitted line looks like in its file.\<close>

definition log_line :: "string \<Rightarrow> string \<Rightarrow> string \<Rightarrow> nat \<Rightarrow> string" where
  "log_line ts level msg n = ''['' @ ts @ ''] ['' @ level @ ''] '' @ msg
     @ (if n > 0 then '' suppressed_repeats='' @ show_nat n else []) @ [newline]"

lemma write_line_plain:
  assumes "sk_open (sinks s lid)" "env_ftell w (clk s) (sk_path (sinks s lid)) < max_bytes s"
    "0 \<le> env_ftell w (clk s) (sk_path (sinks s lid))"
  shows "write_line L w lid level msg n s =
     fprintf_to (sk_path (sinks s lid))
       (log_line (env_strftime w human_fmt (env_time w (clk s + 1))) level msg (unat n))
       (s\<lparr>clk := clk s + 2\<rparr>)"
  using assms
  by (simp add: write_line_def rotate_if_needed_def Let_def case_timestamp_def sys_time_def tick_def
      log_line_def word_gt_0 unat_gt_0)

lemma fprintf_to_files:
  "files (fprintf_to p t s) = (files s)(p \<mapsto> file_text p s @ t)"
  by (simp add: fprintf_to_def put_file_def)

text \<open>C20. Repeats are counted, not lost: after a line has been written at time \<open>t0\<close>, any number
  \<open>n < 2^32\<close> of further calls with the same text within the rate window write nothing at all, and
  the first call after the window writes exactly one line to the main log, which reports
  \<open>suppressed_repeats=n\<close>.\<close>

theorem log_repeats_counted:
  assumes "logger_ok s" "0 < rate_seconds s" "0 < n" "n < 2 ^ 32"
    "msg_slot ''INFO'' text s = \<lparr>sl_hash = msg_hash ''INFO'' text, sl_last = t0, sl_suppressed = 0\<rparr>"
    "\<And>i. i < n \<Longrightarrow> env_time w (clk s + i) - t0 < rate_seconds s"
    "rate_seconds s \<le> env_time w (clk s + n) - t0"
    "sk_open (sinks s LogMain)" "0 \<le> env_ftell w (clk s + n + 1) (sk_path (sinks s LogMain))"
    "env_ftell w (clk s + n + 1) (sk_path (sinks s LogMain)) < max_bytes s"
  shows "files ((rw_log_info L w text ^^ n) s) = files s
     \<and> files ((rw_log_info L w text ^^ Suc n) s) = (files s)(sk_path (sinks s LogMain) \<mapsto>
          file_text (sk_path (sinks s LogMain)) s
          @ log_line (env_strftime w human_fmt (env_time w (clk s + n + 2))) ''INFO''
              (cstr_copy 4096 text) n)"
proof -
  let ?i = "dedup_index (dedup_key ''INFO'' (cstr_copy 4096 text))"
  let ?sn = "s\<lparr>clk := clk s + n, dedup := (dedup s)[?i :=
      \<lparr>sl_hash = msg_hash ''INFO'' text, sl_last = t0, sl_suppressed = of_nat n\<rparr>]\<rparr>"
  have f: "rw_log_info L w text = vlog_to L w LogMain ''INFO'' LOG_INFO text"
    by (simp add: rw_log_info_def fun_eq_iff)
  have sn: "(rw_log_info L w text ^^ n) s = ?sn"
    unfolding f using vlog_to_repeats[of s "''INFO''" "text" t0 0 n w] assms by simp
  have i: "?i < length (dedup s)" using assms(1) dedup_index_less by (simp add: logger_ok_def)
  have u: "unat (of_nat n :: 32 word) = n" using assms(4) by (simp add: unat_of_nat take_bit_nat_eq_self)
  then have nz: "(of_nat n :: 32 word) > 0" using assms(3) by (metis unat_gt_0 word_gt_0 neq0_conv)
  define s1 where "s1 = ?sn\<lparr>clk := clk s + n + 1, dedup := (dedup ?sn)[?i :=
      \<lparr>sl_hash = msg_hash ''INFO'' text, sl_last = env_time w (clk s + n), sl_suppressed = 0\<rparr>]\<rparr>"
  have emit: "should_emit_line w ''INFO'' (cstr_copy 4096 text) ?sn = ((True, of_nat n), s1)"
    using assms(2,7) i nz by (simp add: should_emit_line_def sys_time_def tick_def Let_def s1_def)
  have wl: "write_line L w LogMain ''INFO'' (cstr_copy 4096 text) (of_nat n) s1 =
     fprintf_to (sk_path (sinks s LogMain))
       (log_line (env_strftime w human_fmt (env_time w (clk s + n + 2))) ''INFO''
          (cstr_copy 4096 text) n) (s1\<lparr>clk := clk s + n + 3\<rparr>)"
    using assms(8-10) by (subst write_line_plain) (simp_all add: s1_def u numeral_3_eq_3)
  have "files (rw_log_info L w text ?sn) = (files s)(sk_path (sinks s LogMain) \<mapsto>
      file_text (sk_path (sinks s LogMain)) s
      @ log_line (env_strftime w human_fmt (env_time w (clk s + n + 2))) ''INFO'' (cstr_copy 4096 text) n)"
    unfolding rw_log_info_def vlog_to_def Let_def emit split_conv wl
    by (simp add: fprintf_to_files s1_def file_text_def)
  with sn show ?thesis by simp
qed

lemma log_repeats_counted_witness:
  "let w = idle_os\<lparr>env_time := (\<lambda>t. if t = 0 then 5 else 100)\<rparr>;
       s = (logger_start w (\<lambda>_. None))\<lparr>
             sinks := (\<lambda>_. \<lparr>sk_open = True, sk_path = ''m'', sk_level = ''INFO'', sk_pri = 6\<rparr>),
             dedup := replicate RW_DEDUP_SLOTS
                        \<lparr>sl_hash = msg_hash ''INFO'' ''hi'', sl_last = 0, sl_suppressed = 0\<rparr>\<rparr>
   in files ((rw_log_info small_limits w ''hi'' ^^ 2) s) ''m''
        = Some (''[T] [INFO] hi suppressed_repeats=1'' @ [newline])"
proof -
  define w where "w = idle_os\<lparr>env_time := (\<lambda>t. if t = 0 then 5 else 100)\<rparr>"
  define s where "s = (logger_start w (\<lambda>_. None))\<lparr>
             sinks := (\<lambda>_. \<lparr>sk_open = True, sk_path = ''m'', sk_level = ''INFO'', sk_pri = 6\<rparr>),
             dedup := replicate RW_DEDUP_SLOTS
                        \<lparr>sl_hash = msg_hash ''INFO'' ''hi'', sl_last = 0, sl_suppressed = 0\<rparr>\<rparr>"
  have "files ((rw_log_info small_limits w ''hi'' ^^ Suc 1) s) ''m'' =
      Some (log_line (env_strftime w human_fmt (env_time w (clk s + 1 + 2))) ''INFO'' (cstr_copy 4096 ''hi'') 1)"
    using log_repeats_counted[of s 1 "''hi''" 0 w small_limits] dedup_index_less
    by (simp add: s_def w_def logger_ok_def logger_start_def idle_os_def file_text_def)
  moreover have "env_strftime w f t = ''T''" for f t by (simp add: w_def idle_os_def)
  moreover have "show_nat 1 = ''1''" by (simp add: show_nat_def show_base.simps digit_char_def)
  ultimately have "files ((rw_log_info small_limits w ''hi'' ^^ 2) s) ''m''
        = Some (''[T] [INFO] hi suppressed_repeats=1'' @ [newline])"
    by (simp only: numeral_2_eq_2 One_nat_def log_line_def) simp
  then show ?thesis unfolding Let_def w_def[symmetric] s_def[symmetric] .
qed


subsection \<open>Rotation\<close>

lemma sys_rename_files:
  "files (sys_rename w a b s) q =
     (if files s a = None \<or> \<not> env_rename w (clk s) a b then files s q else if q = a then None else if q = b then files s a
      else files s q)"
  by (simp add: sys_rename_def tick_def)

lemma rotate_shift_files:
  assumes "\<And>t a b. env_rename w t a b"
    "inj_on (archive_name cap path) {1..Suc i}" "files s (archive_name cap path (Suc i)) = None"
  shows "files (rotate_shift w cap path i s) (archive_name cap path 1) = None
     \<and> (\<forall>k\<in>{1..i}. files (rotate_shift w cap path i s) (archive_name cap path (Suc k))
                      = files s (archive_name cap path k))
     \<and> (\<forall>q. q \<notin> archive_name cap path ` {1..Suc i} \<longrightarrow> files (rotate_shift w cap path i s) q = files s q)"
  using assms(2,3)
proof (induction i arbitrary: s)
  case 0
  then show ?case by simp
next
  case (Suc i)
  let ?n = "archive_name cap path"
  let ?s = "sys_rename w (?n (Suc i)) (?n (Suc (Suc i))) s"
  have inj: "inj_on ?n {1..Suc i}" using Suc(2) by (rule inj_on_subset) auto
  have ne: "?n (Suc i) \<noteq> ?n (Suc (Suc i))" using inj_onD[OF Suc(2)] by fastforce
  then have top: "files ?s (?n (Suc i)) = None" "files ?s (?n (Suc (Suc i))) = files s (?n (Suc i))"
    using Suc(3) by (auto simp: sys_rename_files assms(1))
  have low: "files ?s (?n k) = files s (?n k)" if "k \<in> {1..i}" for k
    using that inj_onD[OF Suc(2), of k "Suc i"] inj_onD[OF Suc(2), of k "Suc (Suc i)"]
    by (auto simp: sys_rename_files assms(1))
  have out: "?n (Suc (Suc i)) \<notin> ?n ` {1..Suc i}" using inj_onD[OF Suc(2)] by fastforce
  note IH = Suc(1)[OF inj top(1)]
  show ?case
  proof (intro conjI ballI allI impI)
    show "files (rotate_shift w cap path (Suc i) s) (?n 1) = None" using IH by simp
    fix k assume k: "k \<in> {1..Suc i}"
    show "files (rotate_shift w cap path (Suc i) s) (?n (Suc k)) = files s (?n k)"
    proof (cases "k = Suc i")
      case True
      with IH out top(2) show ?thesis by simp
    next
      case False
      with k have "k \<in> {1..i}" by auto
      with IH low show ?thesis by simp
    qed
  next
    fix q assume q: "q \<notin> ?n ` {1..Suc (Suc i)}"
    then have "q \<notin> ?n ` {1..Suc i}" "q \<noteq> ?n (Suc i)" "q \<noteq> ?n (Suc (Suc i))" by auto
    with IH show "files (rotate_shift w cap path (Suc i) s) q = files s q"
      by (simp add: sys_rename_files)
  qed
qed

text \<open>
  What happens where the kernel refuses every rename: the log stays as it is behind its reopened sink, so the
  line that is due is appended beyond the limit, and nothing tells of it.
\<close>

lemma refused_rename: "(\<And>t a b. \<not> env_rename w t a b) \<Longrightarrow> sys_rename w a b s = tick s"
  by (simp add: sys_rename_def)

lemma refused_shift: "(\<And>t a b. \<not> env_rename w t a b) \<Longrightarrow> files (rotate_shift w cap path i s) = files s"
  by (induction i arbitrary: s) (simp_all add: refused_rename tick_def)

lemma refused_renames_keep_log:
  assumes "sk_open (sinks s lid)" "\<And>t. env_open w t (sk_path (sinks s lid))" "1 \<le> archives s"
    "\<And>t a b. \<not> env_rename w t a b" "\<And>t a. \<not> env_unlink w t a"
  shows "file_text (sk_path (sinks s lid)) (rotate_if_needed L w lid s) = file_text (sk_path (sinks s lid)) s
     \<and> sk_open (sinks (rotate_if_needed L w lid s) lid)"
  using assms
  by (auto simp: rotate_if_needed_def Let_def refused_rename refused_shift sys_unlink_def sys_fopen_a_def set_open_def
      put_file_def file_text_def tick_def)

lemma archive_name_full:
  assumes "length path < cap" "11 \<le> cap" "i < 10 ^ 10"
  shows "archive_name cap path i = path @ ''.'' @ show_nat i"
  using assms show_nat_length[OF assms(3)] by (simp add: archive_name_def)

lemma archive_name_inj:
  assumes "length path < cap" "11 \<le> cap" "m \<le> 10 ^ 9"
  shows "inj_on (archive_name cap path) {1..m}" and "path \<notin> archive_name cap path ` {1..m}"
  using assms by (auto simp: inj_on_def archive_name_full dest: show_nat_inj)

text \<open>C21. Rotation: when the log has reached its limit, \<open>n\<close> archives are configured and the kernel refuses
  neither \<open>rename\<close> nor \<open>unlink\<close> (their results are ignored, see \<open>refused_renames_keep_log\<close>), every
  archive moves up by one place, the oldest one (\<open>.n\<close>) is gone, the log itself becomes archive
  \<open>.1\<close>, the log is open again and empty, and no other file is touched. So at most \<open>n\<close> archives
  exist and no line of the newest \<open>n\<close> files is lost.\<close>

theorem log_rotation_shifts:
  assumes "sk_open (sinks s lid)" "0 < max_bytes s"
    "\<not> (0 \<le> env_ftell w (clk s) (sk_path (sinks s lid))
        \<and> env_ftell w (clk s) (sk_path (sinks s lid)) < max_bytes s)"
    "1 \<le> archives s" "archives s \<le> 10 ^ 9" "sk_path (sinks s lid) = path"
    "length path < max_path L" "11 \<le> max_path L" "\<And>t. env_open w t path"
    "\<And>t a b. env_rename w t a b" "\<And>t a. env_unlink w t a"
  defines "name \<equiv> archive_name (max_path L) path" and "n \<equiv> nat (archives s)"
    and "s' \<equiv> rotate_if_needed L w lid s"
  shows "files s' path = Some [] \<and> sk_open (sinks s' lid)
     \<and> files s' (name 1) = files s path
     \<and> (\<forall>k\<in>{1..<n}. files s' (name (Suc k)) = files s (name k))
     \<and> (\<forall>q. q \<noteq> path \<and> q \<notin> name ` {1..n} \<longrightarrow> files s' q = files s q)"
proof -
  obtain i where n: "n = Suc i" using assms(4) by (cases n) (auto simp: n_def)
  have i: "nat (archives s - 1) = i" using n by (simp add: n_def)
  have "n \<le> 10 ^ 9" using assms(5) by (simp add: n_def)
  then have inj: "inj_on name {1..Suc i}" and notin: "path \<notin> name ` {1..Suc i}"
    using archive_name_inj[OF assms(7,8), of n] by (simp_all add: name_def n)
  define s2 where "s2 = set_open lid False (tick s)"
  define s3 where "s3 = sys_unlink w (name n) s2"
  define s4 where "s4 = rotate_shift w (max_path L) path i s3"
  define s5 where "s5 = sys_rename w path (name 1) s4"
  have f2: "files s2 = files s" "archives s2 = archives s"
    by (simp_all add: s2_def set_open_def tick_def)
  have mb: "max_bytes (tick s) = max_bytes s" by (simp add: tick_def)
  have s': "s' = set_open lid True (put_file path (file_text path s5) (tick s5))"
    using assms(1-4,6,9) n i
    by (auto simp add: s'_def rotate_if_needed_def Let_def sys_fopen_a_def s2_def s3_def s4_def s5_def
        name_def n_def f2[unfolded s2_def] mb)
  have f3: "files s3 q = (if q = name n then None else files s q)" for q
    by (simp add: s3_def sys_unlink_def tick_def f2 assms(11))
  have sh: "files s4 (name 1) = None" "\<And>k. k \<in> {1..i} \<Longrightarrow> files s4 (name (Suc k)) = files s3 (name k)"
      "\<And>q. q \<notin> name ` {1..Suc i} \<Longrightarrow> files s4 q = files s3 q"
    using rotate_shift_files[OF assms(10) inj[unfolded name_def], of s3] f3 unfolding s4_def name_def n by auto
  have p4: "files s4 path = files s path" using sh(3)[OF notin] notin f3 n by auto
  have ne: "path \<noteq> name 1" "\<And>k. k \<in> {1..i} \<Longrightarrow> name (Suc k) \<noteq> name 1 \<and> name (Suc k) \<noteq> path"
      "\<And>k. k \<in> {1..i} \<Longrightarrow> name k \<noteq> name n"
    using notin inj_onD[OF inj] unfolding n by (auto, (fastforce simp: image_iff)+)
  have p5: "file_text path s5 = []" "files s5 (name 1) = files s path"
    using p4 sh(1) ne(1) by (auto simp: s5_def sys_rename_files file_text_def assms(10))
  have rest: "files s5 q = files s4 q" if "q \<noteq> path" "q \<noteq> name 1" for q
    using that by (simp add: s5_def sys_rename_files)
  have f': "files s' q = (if q = path then Some [] else files s5 q)" for q
    by (simp add: s' set_open_def put_file_def tick_def p5(1))
  show ?thesis
  proof (intro conjI ballI allI impI)
    show "sk_open (sinks s' lid)" by (simp add: s' set_open_def)
    show "files s' path = Some []" "files s' (name 1) = files s path"
      using p5(2) ne(1) by (auto simp: f')
    show "files s' (name (Suc k)) = files s (name k)" if "k \<in> {1..<n}" for k
      using that ne(2,3)[of k] sh(2)[of k] rest f3 by (auto simp: f' n)
    show "files s' q = files s q" if "q \<noteq> path \<and> q \<notin> name ` {1..n}" for q
    proof -
      have "q \<noteq> name 1" "q \<noteq> name n" using that n by auto
      with that sh(3)[of q] rest[of q] f3[of q] show ?thesis by (simp add: f' n)
    qed
  qed
qed

lemma log_rotation_shifts_witness:
  "let s = (logger_start idle_os [''m'' \<mapsto> ''new'', ''m.1'' \<mapsto> ''old''])\<lparr>
             sinks := (\<lambda>_. \<lparr>sk_open = True, sk_path = ''m'', sk_level = ''INFO'', sk_pri = 6\<rparr>),
             archives := 2\<rparr>;
       s' = rotate_if_needed small_limits (idle_os\<lparr>env_ftell := \<lambda>_ _. 10485760\<rparr>) LogMain s
   in map (files s') [''m'', ''m.1'', ''m.2''] = [Some [], Some ''new'', Some ''old'']"
proof -
  define w where "w = idle_os\<lparr>env_ftell := \<lambda>_ _. 10485760\<rparr>"
  define s where "s = (logger_start idle_os [''m'' \<mapsto> ''new'', ''m.1'' \<mapsto> ''old''])\<lparr>
             sinks := (\<lambda>_. \<lparr>sk_open = True, sk_path = ''m'', sk_level = ''INFO'', sk_pri = 6\<rparr>),
             archives := 2\<rparr>"
  have nm: "archive_name 512 ''m'' 1 = ''m.1''" "archive_name 512 ''m'' (Suc 1) = ''m.2''"
    by (simp_all add: archive_name_def show_nat_def show_base.simps digit_char_def)
  have ml: "max_path small_limits = 512" by (simp add: small_limits_def)
  have "files (rotate_if_needed small_limits w LogMain s) ''m'' = Some []
     \<and> files (rotate_if_needed small_limits w LogMain s) ''m.1'' = Some ''new''
     \<and> files (rotate_if_needed small_limits w LogMain s) ''m.2'' = Some ''old''"
proof -
    note P = log_rotation_shifts[of s LogMain w "''m''" small_limits]
    have "files (rotate_if_needed small_limits w LogMain s) ''m'' = Some []
       \<and> files (rotate_if_needed small_limits w LogMain s) (archive_name 512 ''m'' 1) = files s ''m''
       \<and> files (rotate_if_needed small_limits w LogMain s) (archive_name 512 ''m'' (Suc 1))
            = files s (archive_name 512 ''m'' 1)"
      using P unfolding ml by (simp add: s_def w_def logger_start_def idle_os_def)
    then show ?thesis unfolding nm by (simp add: s_def logger_start_def)
  qed
  then show ?thesis unfolding Let_def w_def[symmetric] s_def[symmetric] by simp
qed

subsection \<open>What logging can change\<close>

text \<open>
  \<open>logger_only s s'\<close>: the two states differ in the clock, the files and the logger's own variables
  at most.
\<close>

definition logger_only :: "'a logger_scheme \<Rightarrow> 'a logger_scheme \<Rightarrow> bool" where
  "logger_only s s' \<longleftrightarrow> logger.more s' = logger.more s"

named_theorems logger_only_intros \<open>operations that only touch clock, files and logger\<close>

lemma logger_only_refl [simp, logger_only_intros]: "logger_only s s"
  by (simp add: logger_only_def)

lemma logger_only_trans: "logger_only s t \<Longrightarrow> logger_only t u \<Longrightarrow> logger_only s u"
  by (simp add: logger_only_def)

lemma world_only_logger: "world_only s s' \<Longrightarrow> logger_only s s'"
  by (cases s; cases s') (simp add: world_only_def logger_only_def)

lemmas logger_only_calls [logger_only_intros] = world_only_calls [THEN world_only_logger]

lemma logger_only_sinks [logger_only_intros]:
  "logger_only s (set_open lid b s)" "logger_only s (s\<lparr>sinks := x\<rparr>)" "logger_only s (s\<lparr>dedup := y\<rparr>)"
  "logger_only s (s\<lparr>syslog_out := z\<rparr>)"
  by (simp_all add: logger_only_def set_open_def)

lemma logger_only_more: "logger_only s s' \<longleftrightarrow> logger.more s' = logger.more s"
  by (simp add: logger_only_def)

lemma rotate_shift_only: "logger_only s (rotate_shift w cap path i s)"
proof (induction i arbitrary: s)
  case (Suc i)
  have "logger_only s (sys_rename w (archive_name cap path (Suc i)) (archive_name cap path (Suc (Suc i))) s)"
    by (intro logger_only_intros)
  from logger_only_trans[OF this Suc] show ?case by simp
qed simp

lemmas logger_more_calls = logger_only_calls[unfolded logger_only_more]
  logger_only_sinks[unfolded logger_only_more] rotate_shift_only[unfolded logger_only_more]

lemma rotate_if_needed_only: "logger_only s (rotate_if_needed L w lid s)"
  unfolding logger_only_more rotate_if_needed_def Let_def
  by (simp add: split_beta logger_more_calls)

lemma write_line_only: "logger_only s (write_line L w lid level msg n s)"
  unfolding logger_only_more write_line_def Let_def
  by (simp add: split_beta logger_more_calls rotate_if_needed_only[unfolded logger_only_more])

lemma should_emit_line_only: "logger_only s (snd (should_emit_line w level msg s))"
  unfolding logger_only_more should_emit_line_def Let_def
  by (simp add: split_beta logger_more_calls)

lemma vlog_to_only: "logger_only s (vlog_to L w lid level pri txt s)"
  unfolding logger_only_more vlog_to_def Let_def
  by (simp add: split_beta logger_more_calls write_line_only[unfolded logger_only_more]
      should_emit_line_only[unfolded logger_only_more])

lemma rw_log_only [logger_only_intros]:
  "logger_only s (rw_log_info L w txt s)"
  "logger_only s (rw_log_alert L w txt s)"
  "logger_only s (rw_log_network L w txt s)"
  "logger_only s (rw_log_injection L w txt s)"
  "logger_only s (rw_log_event L w txt s)"
  "logger_only s (rw_log_score L w txt s)"
  by (simp_all add: rw_log_info_def rw_log_alert_def rw_log_network_def rw_log_injection_def
      rw_log_event_def rw_log_score_def vlog_to_only)

end
