(* ===== verification/Lineage.thy ===== *)
theory Lineage
  imports Logger
begin

section \<open>Process lineage (\<open>core/lineage.c\<close>)\<close>

text \<open>
  The table of observed processes with their parents and children, filled from procfs and from
  fork, exec and exit notifications, and the questions the case writer asks it: which processes
  belong to the family of a case. The static array \<open>g_nodes\<close> with \<open>g_node_count\<close> is the list
  \<open>nodes\<close>; a \<open>rw_lineage_node_t*\<close> is an index into it, which stays valid because the table only
  grows.
\<close>

definition RW_LINEAGE_MAX_NODES :: nat where
  "RW_LINEAGE_MAX_NODES = 8192"

definition RW_LINEAGE_MAX_DEPTH :: nat where
  "RW_LINEAGE_MAX_DEPTH = 64"

record lin_node =
  ln_pid :: pid
  ln_ppid :: pid
  ln_comm :: string
  ln_exe :: string
  ln_cmdline :: string
  ln_first_seen :: time
  ln_last_seen :: time
  ln_exec_seen :: time
  ln_exit_seen :: time
  ln_exited :: int
  ln_exit_code :: int
  ln_children :: "pid list"

record lineage = logger +
  nodes :: "lin_node list"

subsection \<open>The table\<close>

definition find_node :: "pid \<Rightarrow> lin_node list \<Rightarrow> nat option" where
  "find_node pid ns = find_idx (\<lambda>n. ln_pid n = pid) ns"

definition new_node :: "limits \<Rightarrow> pid \<Rightarrow> time \<Rightarrow> lin_node" where
  "new_node L pid now =
     \<lparr>ln_pid = pid, ln_ppid = 0,
      ln_comm = cstr_copy (lineage_comm_len L) ''<unknown>'',
      ln_exe = cstr_copy (lineage_exe_len L) ''<unknown>'',
      ln_cmdline = cstr_copy (lineage_cmdline_len L) ''<unknown>'',
      ln_first_seen = now, ln_last_seen = now, ln_exec_seen = 0, ln_exit_seen = 0,
      ln_exited = 0, ln_exit_code = 0, ln_children = []\<rparr>"

text \<open>\<open>create_node\<close> on the table alone, with the time that its call of \<open>time\<close> returns.\<close>

definition append_node :: "pid \<Rightarrow> limits \<times> time \<Rightarrow> lin_node list \<Rightarrow> (lin_node list \<times> nat) option" where
  "append_node pid c ns =
     (if pid \<le> 0 \<or> length ns \<ge> RW_LINEAGE_MAX_NODES then None
      else Some (ns @ [new_node (fst c) pid (snd c)], length ns))"

definition create_node :: "limits \<Rightarrow> os \<Rightarrow> pid \<Rightarrow> 'a lineage_scheme \<Rightarrow> nat option \<times> 'a lineage_scheme" where
  "create_node L w pid s =
     (if pid \<le> 0 \<or> length (nodes s) \<ge> RW_LINEAGE_MAX_NODES then (None, s)
      else (let (now, s1) = sys_time w s
            in case append_node pid (L, now) (nodes s1) of
                 None \<Rightarrow> (None, s1)
               | Some (ns, i) \<Rightarrow> (Some i, s1\<lparr>nodes := ns\<rparr>)))"

definition get_or_create_node ::
  "limits \<Rightarrow> os \<Rightarrow> pid \<Rightarrow> 'a lineage_scheme \<Rightarrow> nat option \<times> 'a lineage_scheme" where
  "get_or_create_node L w pid s =
     (case find_node pid (nodes s) of Some i \<Rightarrow> (Some i, s) | None \<Rightarrow> create_node L w pid s)"

text \<open>An assignment through a node pointer.\<close>

definition upd_node :: "nat \<Rightarrow> (lin_node \<Rightarrow> lin_node) \<Rightarrow> 'a lineage_scheme \<Rightarrow> 'a lineage_scheme" where
  "upd_node i f s = s\<lparr>nodes := (nodes s)[i := f (nodes s ! i)]\<rparr>"

definition push_child :: "limits \<Rightarrow> pid \<Rightarrow> lin_node \<Rightarrow> lin_node" where
  "push_child L child n =
     (if child \<in> set (ln_children n) then n
      else if length (ln_children n) < max_children L
      then n\<lparr>ln_children := ln_children n @ [child]\<rparr> else n)"

definition add_child :: "limits \<Rightarrow> os \<Rightarrow> pid \<Rightarrow> pid \<Rightarrow> 'a lineage_scheme \<Rightarrow> 'a lineage_scheme" where
  "add_child L w parent child s =
     (if parent \<le> 0 \<or> child \<le> 0 \<or> parent = child then s
      else (case get_or_create_node L w parent s of
              (None, s1) \<Rightarrow> s1
            | (Some i, s1) \<Rightarrow> upd_node i (push_child L child) s1))"

subsection \<open>Reading procfs\<close>

text \<open>
  One line of \<open>/proc/<pid>/status\<close>; the accumulator is the parent, the name and whether anything
  was read.
\<close>

definition status_line :: "string \<Rightarrow> pid \<times> string \<times> bool \<Rightarrow> pid \<times> string \<times> bool" where
  "status_line line acc = (case acc of (ppid, comm, any) \<Rightarrow>
     if take 5 line = ''Name:'' then
       (case scan_word 63 (drop 5 line) of
          Some (nm, _) \<Rightarrow> (ppid, cstr_copy 64 nm, True)
        | None \<Rightarrow> acc)
     else if take 5 line = ''PPid:'' then
       (case scan_int (drop 5 line) of
          Some (i, _) \<Rightarrow> (c_int (clamp_long i), comm, True)
        | None \<Rightarrow> acc)
     else acc)"

definition parse_status :: "string \<Rightarrow> (pid \<times> string) option" where
  "parse_status txt =
     (case fold status_line (fgets_lines 512 txt) (0, [], False) of
        (ppid, comm, any) \<Rightarrow> if any then Some (ppid, comm) else None)"

definition read_proc_status ::
  "os \<Rightarrow> pid \<Rightarrow> 'a world_scheme \<Rightarrow> (pid \<times> string) option \<times> 'a world_scheme" where
  "read_proc_status w pid s =
     (let (r, s1) = sys_read w (proc_path pid ''status'') s
      in (case r of None \<Rightarrow> None | Some txt \<Rightarrow> parse_status txt, s1))"

definition read_proc_cmdline :: "os \<Rightarrow> pid \<Rightarrow> nat \<Rightarrow> 'a world_scheme \<Rightarrow> string \<times> 'a world_scheme" where
  "read_proc_cmdline w pid out_len s =
     (let (r, s1) = sys_read w (proc_path pid ''cmdline'') s
      in (case r of
            None \<Rightarrow> cstr_copy out_len ''<unavailable>''
          | Some txt \<Rightarrow>
              let got = take (out_len - 1) txt
              in if got = [] then cstr_copy out_len ''<empty>''
                 else map (\<lambda>c. if c = CHR 0x00 then CHR '' '' else c) got, s1))"

definition rw_lineage_init :: "'a lineage_scheme \<Rightarrow> 'a lineage_scheme" where
  "rw_lineage_init s = s\<lparr>nodes := []\<rparr>"

text \<open>The parts of \<open>rw_lineage_observe_pid\<close> for the node at index \<open>i\<close>.\<close>

definition observe_status :: "limits \<Rightarrow> os \<Rightarrow> pid \<Rightarrow> nat \<Rightarrow> 'a lineage_scheme \<Rightarrow> 'a lineage_scheme" where
  "observe_status L w pid i s =
     (let (st, s1) = read_proc_status w pid s
      in case st of
           None \<Rightarrow> s1
         | Some (ppid, comm) \<Rightarrow>
             let s2 = (if comm \<noteq> []
                       then upd_node i (\<lambda>n. n\<lparr>ln_comm := cstr_copy (lineage_comm_len L) comm\<rparr>) s1
                       else s1)
             in if 0 < ppid
                then add_child L w ppid pid (upd_node i (\<lambda>n. n\<lparr>ln_ppid := ppid\<rparr>) s2)
                else s2)"

definition observe_exe :: "limits \<Rightarrow> os \<Rightarrow> pid \<Rightarrow> nat \<Rightarrow> 'a lineage_scheme \<Rightarrow> 'a lineage_scheme" where
  "observe_exe L w pid i s =
     (let (exe, s1) = rw_read_exe_path w pid (max_path L) s
      in if exe \<noteq> [] \<and> exe \<noteq> ''<unknown>''
         then upd_node i (\<lambda>n. n\<lparr>ln_exe := cstr_copy (lineage_exe_len L) exe\<rparr>) s1 else s1)"

definition observe_cmdline :: "limits \<Rightarrow> os \<Rightarrow> pid \<Rightarrow> nat \<Rightarrow> 'a lineage_scheme \<Rightarrow> 'a lineage_scheme" where
  "observe_cmdline L w pid i s =
     (let (cl, s1) = read_proc_cmdline w pid (lineage_cmdline_len L) s
      in if cl \<noteq> []
         then upd_node i (\<lambda>n. n\<lparr>ln_cmdline := cstr_copy (lineage_cmdline_len L) cl\<rparr>) s1 else s1)"

definition touch_node :: "os \<Rightarrow> nat \<Rightarrow> 'a lineage_scheme \<Rightarrow> 'a lineage_scheme" where
  "touch_node w i s = (let (now, s1) = sys_time w s in upd_node i (\<lambda>n. n\<lparr>ln_last_seen := now\<rparr>) s1)"

definition rw_lineage_observe_pid :: "limits \<Rightarrow> os \<Rightarrow> pid \<Rightarrow> 'a lineage_scheme \<Rightarrow> 'a lineage_scheme" where
  "rw_lineage_observe_pid L w pid s =
     (if pid \<le> 0 then s
      else case get_or_create_node L w pid s of
             (None, s1) \<Rightarrow> s1
           | (Some i, s1) \<Rightarrow>
               touch_node w i (observe_cmdline L w pid i (observe_exe L w pid i (observe_status L w pid i s1))))"

fun observe_names :: "limits \<Rightarrow> os \<Rightarrow> string list \<Rightarrow> 'a lineage_scheme \<Rightarrow> 'a lineage_scheme" where
  "observe_names L w [] s = s"
| "observe_names L w (d # ds) s =
     observe_names L w ds
       (if \<not> rw_is_numeric (Some d) then s else rw_lineage_observe_pid L w (atoi d) s)"

definition rw_lineage_refresh_procfs :: "limits \<Rightarrow> os \<Rightarrow> 'a lineage_scheme \<Rightarrow> 'a lineage_scheme" where
  "rw_lineage_refresh_procfs L w s =
     (let (r, s1) = sys_opendir w ''/proc'' s
      in case r of None \<Rightarrow> s1 | Some names \<Rightarrow> observe_names L w names s1)"

subsection \<open>Notifications\<close>

definition rw_lineage_record_fork :: "limits \<Rightarrow> os \<Rightarrow> pid \<Rightarrow> pid \<Rightarrow> 'a lineage_scheme \<Rightarrow> 'a lineage_scheme" where
  "rw_lineage_record_fork L w parent child s =
     (case get_or_create_node L w child s of
        (None, s1) \<Rightarrow> s1
      | (Some i, s1) \<Rightarrow>
          let s2 = touch_node w i (upd_node i (\<lambda>n. n\<lparr>ln_ppid := parent\<rparr>) s1);
              s3 = add_child L w parent child s2;
              s4 = rw_lineage_observe_pid L w parent s3
          in rw_lineage_observe_pid L w child s4)"

definition rw_lineage_record_exec :: "limits \<Rightarrow> os \<Rightarrow> pid \<Rightarrow> 'a lineage_scheme \<Rightarrow> 'a lineage_scheme" where
  "rw_lineage_record_exec L w pid s =
     (case get_or_create_node L w pid s of
        (None, s1) \<Rightarrow> s1
      | (Some i, s1) \<Rightarrow>
          let (now, s2) = sys_time w s1
          in rw_lineage_observe_pid L w pid (upd_node i (\<lambda>n. n\<lparr>ln_exec_seen := now\<rparr>) s2))"

definition rw_lineage_record_exit :: "limits \<Rightarrow> os \<Rightarrow> pid \<Rightarrow> int \<Rightarrow> 'a lineage_scheme \<Rightarrow> 'a lineage_scheme" where
  "rw_lineage_record_exit L w pid exit_code s =
     (case get_or_create_node L w pid s of
        (None, s1) \<Rightarrow> s1
      | (Some i, s1) \<Rightarrow>
          let (now, s2) = sys_time w s1
          in upd_node i (\<lambda>n. n\<lparr>ln_exited := 1, ln_exit_code := exit_code, ln_exit_seen := now,
                                ln_last_seen := now\<rparr>) s2)"

subsection \<open>Families\<close>

definition rw_lineage_get :: "pid \<Rightarrow> lin_node list \<Rightarrow> lin_node option" where
  "rw_lineage_get pid ns = map_option (\<lambda>i. ns ! i) (find_node pid ns)"

text \<open>The loops \<open>while (cur && guard++ < 64)\<close>: the first argument is what the guard has left.\<close>

fun ancestor_loop :: "nat \<Rightarrow> pid \<Rightarrow> lin_node list \<Rightarrow> lin_node option \<Rightarrow> bool" where
  "ancestor_loop 0 a ns cur = False"
| "ancestor_loop (Suc g) a ns None = False"
| "ancestor_loop (Suc g) a ns (Some n) =
     (if ln_pid n = a then True
      else if ln_ppid n \<le> 0 then False
      else ancestor_loop g a ns (rw_lineage_get (ln_ppid n) ns))"

definition is_ancestor_of :: "pid \<Rightarrow> pid \<Rightarrow> lin_node list \<Rightarrow> bool" where
  "is_ancestor_of a pid ns = ancestor_loop RW_LINEAGE_MAX_DEPTH a ns (rw_lineage_get pid ns)"

fun root_loop :: "nat \<Rightarrow> pid \<Rightarrow> lin_node list \<Rightarrow> lin_node option \<Rightarrow> pid" where
  "root_loop 0 root ns cur = root"
| "root_loop (Suc g) root ns None = root"
| "root_loop (Suc g) root ns (Some n) =
     (if ln_ppid n \<le> 1 then root
      else case rw_lineage_get (ln_ppid n) ns of
             None \<Rightarrow> root
           | Some p \<Rightarrow> root_loop g (ln_pid p) ns (Some p))"

definition case_root_for_pid :: "pid \<Rightarrow> lin_node list \<Rightarrow> pid" where
  "case_root_for_pid pid ns = root_loop RW_LINEAGE_MAX_DEPTH pid ns (rw_lineage_get pid ns)"

definition rw_lineage_is_related :: "pid \<Rightarrow> pid \<Rightarrow> lin_node list \<Rightarrow> bool" where
  "rw_lineage_is_related case_pid pid ns =
     (if case_pid \<le> 0 \<or> pid \<le> 0 then False
      else if case_pid = pid then True
      else (let root = case_root_for_pid case_pid ns
            in root = pid \<or> is_ancestor_of pid case_pid ns \<or> is_ancestor_of root pid ns))"

subsection \<open>Reports\<close>

definition indent :: "nat \<Rightarrow> string" where
  "indent d = concat (replicate d ''    '')"

definition tab :: string where
  "tab = [CHR 0x09]"

definition node_line :: "lin_node \<Rightarrow> string" where
  "node_line n =
     show_int (ln_pid n) @ tab @ show_int (ln_ppid n) @ tab @ ln_comm n @ tab @ ln_exe n @ tab
     @ ln_cmdline n @ tab @ show_int (ln_first_seen n) @ tab @ show_int (ln_last_seen n) @ tab
     @ show_int (ln_exec_seen n) @ tab @ show_int (ln_exited n) @ tab @ show_int (ln_exit_code n)
     @ [newline]"

definition manifest_header :: string where
  "manifest_header =
     ''pid'' @ tab @ ''ppid'' @ tab @ ''comm'' @ tab @ ''exe'' @ tab @ ''cmdline'' @ tab
     @ ''first_seen'' @ tab @ ''last_seen'' @ tab @ ''exec_seen'' @ tab @ ''exited'' @ tab
     @ ''exit_code'' @ [newline]"

definition node_text :: "lin_node \<Rightarrow> string" where
  "node_text n = ''pid='' @ show_int (ln_pid n) @ '' ppid='' @ show_int (ln_ppid n)
     @ '' comm='' @ ln_comm n @ '' exe='' @ ln_exe n
     @ (if ln_exited n \<noteq> 0 then '' [exited]'' else []) @ [newline]"

function ancestor_tree :: "lin_node list \<Rightarrow> pid \<Rightarrow> nat \<Rightarrow> string" where
  "ancestor_tree ns pid depth =
     (if depth > RW_LINEAGE_MAX_DEPTH then []
      else case rw_lineage_get pid ns of
             None \<Rightarrow> indent depth @ show_int pid @ '' <unknown>'' @ [newline]
           | Some n \<Rightarrow>
               (if ln_ppid n > 0 then ancestor_tree ns (ln_ppid n) (depth + 1) else [])
               @ indent depth @ node_text n)"
  by pat_completeness auto
termination by (relation "measure (\<lambda>(_, _, d). 65 - d)") (auto simp: RW_LINEAGE_MAX_DEPTH_def)

text \<open>The mark of a child is the UTF-8 text of two box-drawing characters.\<close>

definition branch_mark :: string where
  "branch_mark = [CHR 0xE2, CHR 0x94, CHR 0x94, CHR 0xE2, CHR 0x94, CHR 0x80, CHR 0xE2, CHR 0x94, CHR 0x80]"

function family_tree :: "lin_node list \<Rightarrow> pid \<Rightarrow> nat \<Rightarrow> string" where
  "family_tree ns pid depth =
     (case rw_lineage_get pid ns of
        None \<Rightarrow> []
      | Some n \<Rightarrow>
          if depth > RW_LINEAGE_MAX_DEPTH then []
          else indent depth @ (if depth = 0 then [] else branch_mark) @ '' '' @ node_text n
               @ concat (map (\<lambda>c. family_tree ns c (depth + 1)) (ln_children n)))"
  by pat_completeness auto
termination by (relation "measure (\<lambda>(_, _, d). 65 - d)") (auto simp: RW_LINEAGE_MAX_DEPTH_def)

declare ancestor_tree.simps [simp del] family_tree.simps [simp del]

text \<open>The rows of \<open>lineage.tsv\<close> and \<open>tree_manifest.tsv\<close>.\<close>

definition related_rows :: "pid \<Rightarrow> lin_node list \<Rightarrow> string" where
  "related_rows pid ns =
     concat (map node_line (filter (\<lambda>n. rw_lineage_is_related pid (ln_pid n) ns) ns))"

definition write_if_open :: "os \<Rightarrow> string \<Rightarrow> string \<Rightarrow> 'a world_scheme \<Rightarrow> 'a world_scheme" where
  "write_if_open w path txt s =
     (let (ok, s1) = sys_fopen_w w path s in if ok then fprintf_to path txt s1 else s1)"

definition process_tree_text :: "pid \<Rightarrow> pid \<Rightarrow> lin_node list \<Rightarrow> string" where
  "process_tree_text pid root ns =
     ''Process tree for case pid '' @ show_int pid @ [newline]
     @ ''============================='' @ [newline, newline]
     @ ''Case root pid: '' @ show_int root @ [newline]
     @ ''Suspicious pid: '' @ show_int pid @ [newline, newline]
     @ ''Family tree observed by SignalHunter:'' @ [newline]
     @ family_tree ns root 0
     @ [newline] @ ''Ancestor chain for suspicious pid:'' @ [newline]
     @ ancestor_tree ns pid 0"

definition rw_lineage_write_case ::
  "limits \<Rightarrow> os \<Rightarrow> pid \<Rightarrow> string option \<Rightarrow> 'a lineage_scheme \<Rightarrow> int \<times> 'a lineage_scheme" where
  "rw_lineage_write_case L w pid case_dir s =
     (if pid \<le> 0 \<or> \<not> nonempty_str case_dir then (-1, s)
      else (let dir = the case_dir;
                s1 = rw_lineage_observe_pid L w pid (rw_lineage_refresh_procfs L w s);
                root = case_root_for_pid pid (nodes s1)
            in case path_in (max_path L) dir ''lineage.tsv'' of
                 None \<Rightarrow> (-1, s1)
               | Some p1 \<Rightarrow>
                   (let s2 = write_if_open w p1 (manifest_header @ related_rows pid (nodes s1)) s1
                    in case path_in (max_path L) dir ''tree_manifest.tsv'' of
                         None \<Rightarrow> (-1, s2)
                       | Some p2 \<Rightarrow>
                           (let s3 = write_if_open w p2 (manifest_header @ related_rows pid (nodes s2)) s2
                            in case path_in (max_path L) dir ''process_tree.txt'' of
                                 None \<Rightarrow> (-1, s3)
                               | Some p3 \<Rightarrow>
                                   (0, write_if_open w p3 (process_tree_text pid root (nodes s3)) s3)))))"


subsection \<open>The table as a slot table\<close>

interpretation lin: slot_table ln_pid RW_LINEAGE_MAX_NODES find_node append_node
  by unfold_locales (auto simp: find_node_def append_node_def new_node_def split: if_splits)

text \<open>A node that the program can have built: strings within their arrays, children distinct,
  real and never the node itself.\<close>

definition node_ok :: "limits \<Rightarrow> lin_node \<Rightarrow> bool" where
  "node_ok L n \<longleftrightarrow> 0 < ln_pid n
     \<and> length (ln_comm n) < lineage_comm_len L \<and> length (ln_exe n) < lineage_exe_len L
     \<and> length (ln_cmdline n) < lineage_cmdline_len L
     \<and> distinct (ln_children n) \<and> length (ln_children n) \<le> max_children L
     \<and> (\<forall>c\<in>set (ln_children n). 0 < c \<and> c \<noteq> ln_pid n)"

definition lin_ok :: "limits \<Rightarrow> lin_node list \<Rightarrow> bool" where
  "lin_ok L ns \<longleftrightarrow> table_ok ln_pid RW_LINEAGE_MAX_NODES ns \<and> list_all (node_ok L) ns"

lemma lin_ok_Nil [simp]: "lin_ok L []"
  by (simp add: lin_ok_def)

lemma new_node_ok: "limits_ok L \<Longrightarrow> 0 < pid \<Longrightarrow> node_ok L (new_node L pid now)"
  by (simp add: node_ok_def new_node_def limits_ok_def cstr_copy_length)

lemma append_node_ok:
  assumes "limits_ok L" "lin_ok L ns" "find_node pid ns = None" "append_node pid (L, t) ns = Some (ns', i)"
  shows "lin_ok L ns'"
  using assms(2-4) lin.create_ok[OF _ assms(3,4)] new_node_ok[OF assms(1), of pid t]
  by (auto simp: lin_ok_def append_node_def split: if_splits)

lemma world_only_nodes: "world_only s s' \<Longrightarrow> nodes s' = nodes s"
  by (cases s; cases s') (simp add: world_only_def)

lemmas nodes_calls [simp] = world_only_calls [THEN world_only_nodes]

lemma nodes_upd [simp]: "nodes (upd_node i f s) = (nodes s)[i := f (nodes s ! i)]"
  by (simp add: upd_node_def)

lemma upd_node_ok:
  assumes "lin_ok L (nodes s)"
    "i < length (nodes s) \<Longrightarrow> node_ok L (f (nodes s ! i)) \<and> ln_pid (f (nodes s ! i)) = ln_pid (nodes s ! i)"
  shows "lin_ok L (nodes (upd_node i f s))"
proof (cases "i < length (nodes s)")
  case True
  with assms have "table_ok ln_pid RW_LINEAGE_MAX_NODES ((nodes s)[i := f (nodes s ! i)])"
    by (intro lin.update_ok) (auto simp: lin_ok_def)
  moreover have "list_all (node_ok L) ((nodes s)[i := f (nodes s ! i)])"
    using assms(1) assms(2)[OF True] unfolding lin_ok_def list_all_iff
    by (auto dest: set_update_subset_insert[THEN subsetD])
  ultimately show ?thesis by (simp add: lin_ok_def)
next
  case False
  with assms show ?thesis by (simp add: list_update_beyond)
qed

lemma lin_ok_nth: "lin_ok L ns \<Longrightarrow> i < length ns \<Longrightarrow> node_ok L (ns ! i)"
  by (simp add: lin_ok_def list_all_length)

text \<open>
  Every operation keeps the table well formed, keeps the pids it holds at their places (so a
  pointer stays valid), and never unmarks an exited process. The three facts travel together.
\<close>

definition lin_grows :: "limits \<Rightarrow> 'a lineage_scheme \<Rightarrow> 'b lineage_scheme \<Rightarrow> bool" where
  "lin_grows L s s' \<longleftrightarrow> (lin_ok L (nodes s) \<longrightarrow> lin_ok L (nodes s'))
     \<and> length (nodes s) \<le> length (nodes s')
     \<and> (\<forall>i<length (nodes s). ln_pid (nodes s' ! i) = ln_pid (nodes s ! i)
          \<and> (ln_exited (nodes s ! i) = 1 \<longrightarrow> ln_exited (nodes s' ! i) = 1))"

lemma lin_grows_refl [simp]: "lin_grows L s s"
  by (simp add: lin_grows_def)

lemma lin_grows_eq: "nodes s' = nodes s \<Longrightarrow> lin_grows L s s'"
  by (simp add: lin_grows_def)

lemma lin_grows_trans:
  assumes "lin_grows L s t" "lin_grows L t u"
  shows "lin_grows L s u"
  using assms unfolding lin_grows_def by (auto dest: order_less_le_trans)

lemma lin_grows_upd_at:
  assumes "i < length (nodes s) \<Longrightarrow> node_ok L (nodes s ! i) \<Longrightarrow> node_ok L (f (nodes s ! i))"
    "ln_pid (f (nodes s ! i)) = ln_pid (nodes s ! i)"
    "ln_exited (nodes s ! i) = 1 \<Longrightarrow> ln_exited (f (nodes s ! i)) = 1"
  shows "lin_grows L s (upd_node i f s)"
proof -
  have "lin_ok L (nodes s) \<Longrightarrow> lin_ok L (nodes (upd_node i f s))"
    using assms by (intro upd_node_ok) (auto dest: lin_ok_nth)
  moreover have "nodes (upd_node i f s) ! j = (if j = i then f (nodes s ! i) else nodes s ! j)"
    if "j < length (nodes s)" for j
    using that by simp
  ultimately show ?thesis using assms(2,3) by (auto simp del: nodes_upd simp: lin_grows_def) (simp_all)
qed

lemma lin_grows_upd:
  assumes "\<And>n. node_ok L n \<Longrightarrow> node_ok L (f n)" "\<And>n. ln_pid (f n) = ln_pid n"
    "\<And>n. ln_exited n = 1 \<Longrightarrow> ln_exited (f n) = 1"
  shows "lin_grows L s (upd_node i f s)"
  using assms by (intro lin_grows_upd_at) auto

lemma get_or_create_node_grows:
  assumes "limits_ok L"
  shows "lin_grows L s (snd (get_or_create_node L w pid s))"
proof (cases "find_node pid (nodes s)")
  case None
  show ?thesis
  proof (cases "append_node pid (L, env_time w (clk s)) (nodes s)")
    case (Some r)
    then obtain ns i where r: "append_node pid (L, env_time w (clk s)) (nodes s) = Some (ns, i)"
      by (cases r) auto
    then obtain n where "ns = nodes s @ [n]" "\<not> (pid \<le> 0 \<or> length (nodes s) \<ge> RW_LINEAGE_MAX_NODES)"
      by (auto simp: append_node_def split: if_splits)
    then show ?thesis using None r append_node_ok[OF assms _ None r]
      by (auto simp: lin_grows_def get_or_create_node_def create_node_def sys_time_def nth_append)
  qed (auto simp: get_or_create_node_def create_node_def sys_time_def None append_node_def
        intro: lin_grows_eq)
qed (simp add: get_or_create_node_def)

lemma get_or_create_node_Some:
  assumes "get_or_create_node L w pid s = (Some i, s')"
  shows "i < length (nodes s') \<and> ln_pid (nodes s' ! i) = pid \<and> 0 \<le> i \<and>
    (find_node pid (nodes s) = Some i \<and> s' = s
     \<or> find_node pid (nodes s) = None \<and> i = length (nodes s) \<and> 0 < pid
       \<and> nodes s' = nodes s @ [new_node L pid (env_time w (clk s))])"
  using assms lin.find_SomeD[of pid "nodes s"]
  by (auto simp: get_or_create_node_def create_node_def sys_time_def append_node_def new_node_def
      split: option.splits if_splits)

lemma push_child_ok:
  "node_ok L n \<Longrightarrow> 0 < c \<Longrightarrow> c \<noteq> ln_pid n \<Longrightarrow> node_ok L (push_child L c n)"
  by (auto simp: node_ok_def push_child_def)

lemma add_child_grows:
  assumes "limits_ok L"
  shows "lin_grows L s (add_child L w p c s)"
proof (cases "p \<le> 0 \<or> c \<le> 0 \<or> p = c")
  case False
  obtain r s1 where r: "get_or_create_node L w p s = (r, s1)" by fastforce
  have g: "lin_grows L s s1" using get_or_create_node_grows[OF assms, of s w p] r by simp
  show ?thesis
  proof (cases r)
    case None
    with r g False show ?thesis by (simp add: add_child_def)
  next
    case (Some i)
    from get_or_create_node_Some[OF r[unfolded Some]]
    have i: "i < length (nodes s1)" "ln_pid (nodes s1 ! i) = p" by auto
    have "lin_grows L s1 (upd_node i (push_child L c) s1)"
      using i False push_child_ok[of L "nodes s1 ! i" c]
      by (intro lin_grows_upd_at) (auto simp: push_child_def)
    with lin_grows_trans[OF g] r Some False show ?thesis by (simp add: add_child_def)
  qed
qed (simp add: add_child_def)


named_theorems lin_grows_intros \<open>operations that keep the lineage table growing\<close>

lemma lin_grows_world: "lin_grows L s t \<Longrightarrow> world_only t u \<Longrightarrow> lin_grows L s u"
  by (erule lin_grows_trans) (simp add: lin_grows_eq world_only_nodes)

lemma world_only_reads:
  "world_only s (snd (read_proc_status w pid s))" "world_only s (snd (read_proc_cmdline w pid n s))"
  using world_only_calls(3) by (simp_all add: read_proc_status_def read_proc_cmdline_def split_beta Let_def)

lemmas lin_grows_calls [lin_grows_intros] =
  world_only_calls [THEN lin_grows_world [rotated]] world_only_reads [THEN lin_grows_world [rotated]]

lemma lin_grows_if [lin_grows_intros]:
  "(b \<Longrightarrow> lin_grows L s t) \<Longrightarrow> (\<not> b \<Longrightarrow> lin_grows L s u) \<Longrightarrow> lin_grows L s (if b then t else u)"
  by simp

lemma lin_grows_upd_then [lin_grows_intros]:
  assumes "lin_grows L s t" "\<And>n. node_ok L n \<Longrightarrow> node_ok L (f n)" "\<And>n. ln_pid (f n) = ln_pid n"
    "\<And>n. ln_exited n = 1 \<Longrightarrow> ln_exited (f n) = 1"
  shows "lin_grows L s (upd_node i f t)"
  using lin_grows_trans[OF assms(1) lin_grows_upd] assms(2-) by blast

lemma node_ok_fields [simp]:
  "node_ok L (n\<lparr>ln_ppid := p\<rparr>) = node_ok L n"
  "node_ok L (n\<lparr>ln_first_seen := a\<rparr>) = node_ok L n"
  "node_ok L (n\<lparr>ln_last_seen := b\<rparr>) = node_ok L n"
  "node_ok L (n\<lparr>ln_exec_seen := c\<rparr>) = node_ok L n"
  "node_ok L (n\<lparr>ln_exit_seen := d\<rparr>) = node_ok L n"
  "node_ok L (n\<lparr>ln_exited := e\<rparr>) = node_ok L n"
  "node_ok L (n\<lparr>ln_exit_code := f\<rparr>) = node_ok L n"
  by (simp_all add: node_ok_def)

lemma node_ok_strings:
  assumes "limits_ok L" "node_ok L n"
  shows "node_ok L (n\<lparr>ln_comm := cstr_copy (lineage_comm_len L) a\<rparr>)"
    "node_ok L (n\<lparr>ln_exe := cstr_copy (lineage_exe_len L) b\<rparr>)"
    "node_ok L (n\<lparr>ln_cmdline := cstr_copy (lineage_cmdline_len L) c\<rparr>)"
  using assms by (simp_all add: node_ok_def limits_ok_def cstr_copy_length)

lemma add_child_then [lin_grows_intros]:
  "limits_ok L \<Longrightarrow> lin_grows L s t \<Longrightarrow> lin_grows L s (add_child L w p c t)"
  by (blast intro: lin_grows_trans add_child_grows)

lemma observe_status_grows [lin_grows_intros]:
  assumes "limits_ok L" "lin_grows L s t"
  shows "lin_grows L s (observe_status L w pid i t)"
proof -
  obtain st s1 where st: "read_proc_status w pid t = (st, s1)" by fastforce
  then have g: "lin_grows L s s1"
    using lin_grows_calls(16)[OF assms(2), of w pid] by simp
  show ?thesis
  proof (cases st)
    case None
    with g st show ?thesis by (simp add: observe_status_def)
  next
    case (Some r)
    obtain ppid comm where r: "r = (ppid, comm)" by (cases r)
    show ?thesis unfolding observe_status_def st Some r Let_def prod.case option.case
      by (intro lin_grows_intros g assms node_ok_strings) simp_all
  qed
qed

lemma observe_fields_grow [lin_grows_intros]:
  assumes "limits_ok L" "lin_grows L s t"
  shows "lin_grows L s (observe_exe L w pid i t)" "lin_grows L s (observe_cmdline L w pid i t)"
  unfolding observe_exe_def observe_cmdline_def Let_def split_beta
  by (intro lin_grows_intros assms node_ok_strings; simp)+

lemma touch_node_grows [lin_grows_intros]:
  "lin_grows L s t \<Longrightarrow> lin_grows L s (touch_node w i t)"
  unfolding touch_node_def Let_def split_beta by (intro lin_grows_intros) simp_all

lemma get_or_create_then:
  assumes "limits_ok L" "get_or_create_node L w pid t = (r, u)" "lin_grows L s t"
  shows "lin_grows L s u"
  using lin_grows_trans[OF assms(3) get_or_create_node_grows[OF assms(1), of t w pid]] assms(2) by simp

lemma observe_grows [lin_grows_intros]:
  assumes "limits_ok L" "lin_grows L s t"
  shows "lin_grows L s (rw_lineage_observe_pid L w pid t)"
proof -
  obtain r u where r: "get_or_create_node L w pid t = (r, u)" by fastforce
  have g: "lin_grows L s u" by (rule get_or_create_then[OF assms(1) r assms(2)])
  show ?thesis unfolding rw_lineage_observe_pid_def r prod.case
    by (cases r; simp only: option.case; intro lin_grows_intros g assms)
qed

lemma observe_names_grows: "limits_ok L \<Longrightarrow> lin_grows L s t \<Longrightarrow> lin_grows L s (observe_names L w ds t)"
  by (induction ds arbitrary: t) (auto intro: observe_grows)

lemma refresh_grows [lin_grows_intros]:
  assumes "limits_ok L" "lin_grows L s t"
  shows "lin_grows L s (rw_lineage_refresh_procfs L w t)"
  using assms observe_names_grows[of L s "snd (sys_opendir w ''/proc'' t)"]
    lin_grows_calls(4)[OF assms(2), of w "''/proc''"]
  by (auto simp: rw_lineage_refresh_procfs_def split_beta split: option.split)

lemma record_fork_grows [lin_grows_intros]:
  assumes "limits_ok L" "lin_grows L s t"
  shows "lin_grows L s (rw_lineage_record_fork L w parent child t)"
proof -
  obtain r u where r: "get_or_create_node L w child t = (r, u)" by fastforce
  have g: "lin_grows L s u" by (rule get_or_create_then[OF assms(1) r assms(2)])
  show ?thesis unfolding rw_lineage_record_fork_def r prod.case Let_def
    by (cases r; simp only: option.case fst_conv snd_conv; intro lin_grows_intros g assms; simp)
qed

lemma record_exec_grows [lin_grows_intros]:
  assumes "limits_ok L" "lin_grows L s t"
  shows "lin_grows L s (rw_lineage_record_exec L w pid t)"
proof -
  obtain r u where r: "get_or_create_node L w pid t = (r, u)" by fastforce
  have g: "lin_grows L s u" by (rule get_or_create_then[OF assms(1) r assms(2)])
  show ?thesis unfolding rw_lineage_record_exec_def r prod.case Let_def split_beta
    by (cases r; simp only: option.case fst_conv snd_conv; intro lin_grows_intros g assms; simp)
qed

lemma record_exit_grows [lin_grows_intros]:
  assumes "limits_ok L" "lin_grows L s t"
  shows "lin_grows L s (rw_lineage_record_exit L w pid code t)"
proof -
  obtain r u where r: "get_or_create_node L w pid t = (r, u)" by fastforce
  have g: "lin_grows L s u" by (rule get_or_create_then[OF assms(1) r assms(2)])
  show ?thesis unfolding rw_lineage_record_exit_def r prod.case Let_def split_beta
    by (cases r; simp only: option.case fst_conv snd_conv; intro lin_grows_intros g assms; simp)
qed


lemma world_only_write_if_open: "world_only s (write_if_open w p txt s)"
proof -
  obtain ok s1 where o: "sys_fopen_w w p s = (ok, s1)" by fastforce
  then have "world_only s s1" using world_only_calls(9)[of s w p] by simp
  then show ?thesis
    using world_only_trans[OF _ world_only_calls(11)] by (auto simp: write_if_open_def o)
qed

lemmas write_if_open_grows [lin_grows_intros] = world_only_write_if_open [THEN lin_grows_world [rotated]]

lemma write_case_grows:
  assumes "limits_ok L"
  shows "lin_grows L s (snd (rw_lineage_write_case L w pid dir s))"
proof (cases "pid \<le> 0 \<or> \<not> nonempty_str dir")
  case False
  have g: "lin_grows L s (rw_lineage_observe_pid L w pid (rw_lineage_refresh_procfs L w s))"
    by (intro lin_grows_intros assms lin_grows_refl)
  show ?thesis using False unfolding rw_lineage_write_case_def Let_def
    by (simp add: g write_if_open_grows split: option.split)
qed (simp add: rw_lineage_write_case_def)

subsection \<open>What the operations leave alone\<close>

text \<open>
  \<open>lin_only s s'\<close>: nothing but the clock, the files, the logger and the process table can differ, so
  the components that extend this state keep their variables.
\<close>

definition lin_only :: "'a lineage_scheme \<Rightarrow> 'a lineage_scheme \<Rightarrow> bool" where
  "lin_only s s' \<longleftrightarrow> lineage.more s' = lineage.more s"

named_theorems lin_only_intros \<open>operations of the lineage table as frames\<close>

lemma lin_only_refl [simp]: "lin_only s s"
  by (simp add: lin_only_def)

lemma lin_only_trans: "lin_only s t \<Longrightarrow> lin_only t u \<Longrightarrow> lin_only s u"
  by (simp add: lin_only_def)

lemma logger_only_lin: "logger_only s s' \<Longrightarrow> lin_only s s'"
  by (cases s; cases s') (simp add: logger_only_def lin_only_def)

lemma world_only_lin: "world_only s s' \<Longrightarrow> lin_only s s'"
  by (intro logger_only_lin world_only_logger)

lemma lin_only_world: "lin_only s t \<Longrightarrow> world_only t u \<Longrightarrow> lin_only s u"
  by (erule lin_only_trans) (rule world_only_lin)

lemmas lin_only_calls [lin_only_intros] =
  world_only_calls [THEN lin_only_world [rotated]] world_only_reads [THEN lin_only_world [rotated]]
  world_only_write_if_open [THEN lin_only_world [rotated]]

lemma lin_only_upd [lin_only_intros]: "lin_only s t \<Longrightarrow> lin_only s (upd_node i f t)"
  by (simp add: lin_only_def upd_node_def)

lemma lin_only_if [lin_only_intros]:
  "(b \<Longrightarrow> lin_only s t) \<Longrightarrow> (\<not> b \<Longrightarrow> lin_only s u) \<Longrightarrow> lin_only s (if b then t else u)"
  by simp

lemma get_or_create_only:
  assumes "get_or_create_node L w pid t = (r, u)" "lin_only s t"
  shows "lin_only s u"
  using assms by (auto simp: get_or_create_node_def create_node_def sys_time_def tick_def lin_only_def
      split: option.splits if_splits)

lemma add_child_only [lin_only_intros]:
  assumes "lin_only s t"
  shows "lin_only s (add_child L w p c t)"
proof -
  obtain r u where r: "get_or_create_node L w p t = (r, u)" by fastforce
  note g = get_or_create_only[OF r assms]
  show ?thesis unfolding add_child_def r prod.case
    by (cases r; simp only: option.case; intro lin_only_intros g assms)
qed

lemma observe_parts_only [lin_only_intros]:
  assumes "lin_only s t"
  shows "lin_only s (observe_status L w pid i t)" "lin_only s (observe_exe L w pid i t)"
    "lin_only s (observe_cmdline L w pid i t)" "lin_only s (touch_node w i t)"
proof -
  obtain st s1 where st: "read_proc_status w pid t = (st, s1)" by fastforce
  then have g: "lin_only s s1" using lin_only_calls(16)[OF assms, of w pid] by simp
  show "lin_only s (observe_status L w pid i t)"
  proof (cases st)
    case None
    with g st show ?thesis by (simp add: observe_status_def)
  next
    case (Some r)
    obtain ppid comm where r: "r = (ppid, comm)" by (cases r)
    show ?thesis unfolding observe_status_def st Some r Let_def prod.case option.case
      by (intro lin_only_intros g)
  qed
  show "lin_only s (observe_exe L w pid i t)" "lin_only s (observe_cmdline L w pid i t)"
    "lin_only s (touch_node w i t)"
    unfolding observe_exe_def observe_cmdline_def touch_node_def Let_def split_beta
    by (intro lin_only_intros assms)+
qed

lemma observe_only [lin_only_intros]:
  assumes "lin_only s t"
  shows "lin_only s (rw_lineage_observe_pid L w pid t)"
proof -
  obtain r u where r: "get_or_create_node L w pid t = (r, u)" by fastforce
  note g = get_or_create_only[OF r assms]
  show ?thesis unfolding rw_lineage_observe_pid_def r prod.case
    by (cases r; simp only: option.case; intro lin_only_intros g assms)
qed

lemma observe_names_only: "lin_only s t \<Longrightarrow> lin_only s (observe_names L w ds t)"
  by (induction ds arbitrary: t) (auto intro: observe_only)

lemma refresh_only [lin_only_intros]:
  assumes "lin_only s t"
  shows "lin_only s (rw_lineage_refresh_procfs L w t)"
  using observe_names_only[of s "snd (sys_opendir w ''/proc'' t)"] lin_only_calls(4)[OF assms, of w "''/proc''"]
  by (auto simp: rw_lineage_refresh_procfs_def split_beta split: option.split)

lemma record_only [lin_only_intros]:
  assumes "lin_only s t"
  shows "lin_only s (rw_lineage_record_fork L w p c t)" "lin_only s (rw_lineage_record_exec L w pid t)"
    "lin_only s (rw_lineage_record_exit L w pid code t)"
proof -
  obtain r u where r: "get_or_create_node L w c t = (r, u)" by fastforce
  note g = get_or_create_only[OF r assms]
  show "lin_only s (rw_lineage_record_fork L w p c t)"
    unfolding rw_lineage_record_fork_def r prod.case Let_def
    by (cases r; simp only: option.case; intro lin_only_intros g)
  obtain r' u' where r': "get_or_create_node L w pid t = (r', u')" by fastforce
  note g' = get_or_create_only[OF r' assms]
  show "lin_only s (rw_lineage_record_exec L w pid t)"
    unfolding rw_lineage_record_exec_def r' prod.case Let_def split_beta
    by (cases r'; simp only: option.case fst_conv snd_conv; intro lin_only_intros g')
  show "lin_only s (rw_lineage_record_exit L w pid code t)"
    unfolding rw_lineage_record_exit_def r' prod.case Let_def split_beta
    by (cases r'; simp only: option.case fst_conv snd_conv; intro lin_only_intros g')
qed

lemma write_case_only [lin_only_intros]:
  assumes "lin_only s t"
  shows "lin_only s (snd (rw_lineage_write_case L w pid dir t))"
proof -
  have g: "lin_only s (rw_lineage_observe_pid L w pid (rw_lineage_refresh_procfs L w t))"
    by (intro lin_only_intros assms)
  note o = lin_only_calls(18)
  show ?thesis unfolding rw_lineage_write_case_def Let_def
    by (simp add: assms g o split: option.split)
qed

subsection \<open>Everything the program does to the table\<close>

inductive lin_step :: "limits \<Rightarrow> 'a lineage_scheme \<Rightarrow> 'a lineage_scheme \<Rightarrow> bool" for L :: limits where
  lin_observe: "lin_step L s (rw_lineage_observe_pid L w pid s)"
| lin_refresh: "lin_step L s (rw_lineage_refresh_procfs L w s)"
| lin_fork: "lin_step L s (rw_lineage_record_fork L w parent child s)"
| lin_exec: "lin_step L s (rw_lineage_record_exec L w pid s)"
| lin_exit: "lin_step L s (rw_lineage_record_exit L w pid code s)"
| lin_case: "lin_step L s (snd (rw_lineage_write_case L w pid dir s))"
| lin_other: "nodes s' = nodes s \<Longrightarrow> lin_step L s s'"

lemma lin_step_grows: "limits_ok L \<Longrightarrow> lin_step L s s' \<Longrightarrow> lin_grows L s s'"
  by (erule lin_step.cases; simp only:;
      (intro lin_grows_intros lin_grows_refl | rule write_case_grows | rule lin_grows_eq); assumption)

lemma lin_steps_grow: "limits_ok L \<Longrightarrow> (lin_step L)\<^sup>*\<^sup>* s s' \<Longrightarrow> lin_grows L s s'"
  by (rotate_tac, induction rule: rtranclp_induct) (auto intro: lin_grows_trans lin_step_grows)

text \<open>In every state that any sequence of observations, fork, exec and exit notifications and case
  reports can reach from an empty table, whatever procfs answers: no pid has two nodes, the
  table is within its array of 8192, and in every node the strings fit their arrays and the
  children are distinct, real and never the node itself.\<close>

theorem lineage_table_ok:
  assumes "limits_ok L" "nodes s = []" "(lin_step L)\<^sup>*\<^sup>* s s'"
  shows "lin_ok L (nodes s')"
  using lin_steps_grow[OF assms(1,3)] assms(2) by (simp add: lin_grows_def)

lemma lineage_get_index:
  "rw_lineage_get pid ns = Some n \<longleftrightarrow> (\<exists>i. find_node pid ns = Some i \<and> n = ns ! i)"
  by (auto simp: rw_lineage_get_def)

lemma lineage_get_at:
  assumes "lin_ok L ns" "i < length ns"
  shows "rw_lineage_get (ln_pid (ns ! i)) ns = Some (ns ! i)"
proof -
  have "find_node (ln_pid (ns ! i)) ns \<noteq> None"
    using assms(2) lin.find_None_iff by (auto simp: nth_mem)
  then obtain j where j: "find_node (ln_pid (ns ! i)) ns = Some j" by auto
  with lin.find_SomeD[OF j] table_ok_unique[of ln_pid _ ns i j] assms have "i = j"
    by (auto simp: lin_ok_def)
  with j show ?thesis by (simp add: rw_lineage_get_def)
qed

text \<open>The exit mark is never taken back: once a pid is recorded as exited, no later operation,
  not even the fork or exec notification of a new process that the kernel has given the same pid,
  clears it. A reused pid is reported as \<open>[exited]\<close> with the old exit code.\<close>

theorem lineage_exit_sticky:
  assumes "limits_ok L" "lin_ok L (nodes s)" "rw_lineage_get pid (nodes s) = Some n" "ln_exited n = 1"
    "(lin_step L)\<^sup>*\<^sup>* s s'"
  shows "\<exists>n'. rw_lineage_get pid (nodes s') = Some n' \<and> ln_pid n' = pid \<and> ln_exited n' = 1"
proof -
  from assms(3) obtain i where i: "find_node pid (nodes s) = Some i" "n = nodes s ! i"
    by (auto simp: lineage_get_index)
  note l = lin.find_SomeD[OF i(1)]
  have g: "lin_grows L s s'" by (rule lin_steps_grow[OF assms(1,5)])
  with l i assms(2,4) have "i < length (nodes s')" "ln_pid (nodes s' ! i) = pid"
      "ln_exited (nodes s' ! i) = 1" "lin_ok L (nodes s')"
    by (auto simp: lin_grows_def)
  with lineage_get_at[of L "nodes s'" i] show ?thesis by auto
qed

subsection \<open>Families as a closure of the parent relation\<close>

definition lin_parent :: "lin_node list \<Rightarrow> pid \<Rightarrow> pid \<Rightarrow> bool" where
  "lin_parent ns p q \<longleftrightarrow> (\<exists>n. rw_lineage_get p ns = Some n \<and> ln_ppid n = q)
     \<and> 0 < q \<and> rw_lineage_get q ns \<noteq> None"

text \<open>The links that lead to the root of a case stop below init.\<close>

definition lin_up :: "lin_node list \<Rightarrow> pid \<Rightarrow> pid \<Rightarrow> bool" where
  "lin_up ns p q \<longleftrightarrow> lin_parent ns p q \<and> 1 < q"

lemma lineage_get_pid: "rw_lineage_get p ns = Some n \<Longrightarrow> ln_pid n = p"
  using lin.find_SomeD by (auto simp: lineage_get_index)

lemma ex_chain_Suc:
  fixes R :: "'a \<Rightarrow> 'a \<Rightarrow> bool"
  shows "(\<exists>k<Suc g. (R ^^ k) p a) \<longleftrightarrow> p = a \<or> (\<exists>q. R p q \<and> (\<exists>k<g. (R ^^ k) q a))"
proof
  assume "\<exists>k<Suc g. (R ^^ k) p a"
  then obtain k where k: "k < Suc g" "(R ^^ k) p a" by blast
  show "p = a \<or> (\<exists>q. R p q \<and> (\<exists>k<g. (R ^^ k) q a))"
  proof (cases k)
    case 0
    with k show ?thesis by simp
  next
    case (Suc j)
    with k relpowp_Suc_D2[of j R p a] show ?thesis by auto
  qed
next
  assume "p = a \<or> (\<exists>q. R p q \<and> (\<exists>k<g. (R ^^ k) q a))"
  then show "\<exists>k<Suc g. (R ^^ k) p a"
  proof
    assume "p = a"
    then show ?thesis by (intro exI[of _ 0]) simp
  next
    assume "\<exists>q. R p q \<and> (\<exists>k<g. (R ^^ k) q a)"
    then show ?thesis by (metis Suc_mono relpowp_Suc_I2)
  qed
qed

lemma ancestor_loop_chain:
  "ancestor_loop g a ns (rw_lineage_get p ns) \<longleftrightarrow>
     rw_lineage_get p ns \<noteq> None \<and> (\<exists>k<g. (lin_parent ns ^^ k) p a)"
proof (induction g arbitrary: p)
  case (Suc g)
  show ?case
  proof (cases "rw_lineage_get p ns")
    case (Some n)
    have pn: "ln_pid n = p" by (rule lineage_get_pid[OF Some])
    have par: "lin_parent ns p q \<longleftrightarrow> q = ln_ppid n \<and> 0 < q \<and> rw_lineage_get q ns \<noteq> None" for q
      using Some by (auto simp: lin_parent_def)
    show ?thesis unfolding ex_chain_Suc par using Some pn Suc[of "ln_ppid n"] by auto
  qed simp
qed simp

lemma root_loop_chain:
  assumes "rw_lineage_get p ns \<noteq> None"
  shows "\<exists>k\<le>g. (lin_up ns ^^ k) p (root_loop g p ns (rw_lineage_get p ns))
     \<and> (k < g \<longrightarrow> \<not> (\<exists>q. lin_up ns (root_loop g p ns (rw_lineage_get p ns)) q))"
  using assms
proof (induction g arbitrary: p)
  case (Suc g)
  then obtain n where n: "rw_lineage_get p ns = Some n" by auto
  have up: "lin_up ns p q \<longleftrightarrow> q = ln_ppid n \<and> 1 < q \<and> rw_lineage_get q ns \<noteq> None" for q
    using n by (auto simp: lin_up_def lin_parent_def)
  show ?case
  proof (cases "ln_ppid n \<le> 1 \<or> rw_lineage_get (ln_ppid n) ns = None")
    case True
    then have "root_loop (Suc g) p ns (rw_lineage_get p ns) = p" using n by (auto split: option.split)
    moreover have "\<not> (\<exists>q. lin_up ns p q)" using True unfolding up by auto
    ultimately show ?thesis by (intro exI[of _ 0]) simp
  next
    case False
    then obtain m where m: "rw_lineage_get (ln_ppid n) ns = Some m" "1 < ln_ppid n" by auto
    then have r: "root_loop (Suc g) p ns (rw_lineage_get p ns)
        = root_loop g (ln_ppid n) ns (rw_lineage_get (ln_ppid n) ns)"
      using n lineage_get_pid[OF m(1)] by simp
    from Suc(1)[of "ln_ppid n"] m obtain k where
      k: "k \<le> g" "(lin_up ns ^^ k) (ln_ppid n) (root_loop g (ln_ppid n) ns (rw_lineage_get (ln_ppid n) ns))"
        "k < g \<longrightarrow> \<not> (\<exists>q. lin_up ns (root_loop g (ln_ppid n) ns (rw_lineage_get (ln_ppid n) ns)) q)"
      by auto
    have "lin_up ns p (ln_ppid n)" using up m by simp
    from relpowp_Suc_I2[OF this k(2)] k(1,3) show ?thesis unfolding r
      by (intro exI[of _ "Suc k"]) auto
  qed
qed (auto intro!: exI[of _ 0])

lemma relpowp_split:
  fixes R :: "'a \<Rightarrow> 'a \<Rightarrow> bool"
  shows "(R ^^ (m + n)) x z \<Longrightarrow> \<exists>y. (R ^^ m) x y"
  by (auto simp: relpowp_add)

lemma short_chains:
  fixes R :: "'a \<Rightarrow> 'a \<Rightarrow> bool"
  assumes "\<And>x y. \<not> (R ^^ 64) x y"
  shows "R\<^sup>*\<^sup>* p q \<longleftrightarrow> (\<exists>k<64. (R ^^ k) p q)"
proof
  assume "R\<^sup>*\<^sup>* p q"
  then obtain k where k: "(R ^^ k) p q" by (auto simp: rtranclp_power)
  have "k < 64"
  proof (rule ccontr)
    assume "\<not> k < 64"
    then have "(R ^^ (64 + (k - 64))) p q" using k by simp
    from relpowp_split[OF this] assms show False by blast
  qed
  with k show "\<exists>k<64. (R ^^ k) p q" by blast
qed (auto simp: rtranclp_power)

lemma lin_up_parent: "(lin_up ns ^^ k) p q \<Longrightarrow> (lin_parent ns ^^ k) p q"
  by (erule relpowp_mono[rotated]) (auto simp: lin_up_def)

lemma lin_up_functional:
  assumes "lin_up ns p q" "lin_up ns p r" shows "q = r"
  using assms by (auto simp: lin_up_def lin_parent_def)

lemma lin_top_unique:
  assumes "(lin_up ns)\<^sup>*\<^sup>* c r" "\<not> (\<exists>q. lin_up ns r q)" "(lin_up ns)\<^sup>*\<^sup>* c r'" "\<not> (\<exists>q. lin_up ns r' q)"
  shows "r = r'"
  using assms
proof (induction rule: converse_rtranclp_induct)
  case base
  then show ?case by (auto elim: converse_rtranclpE)
next
  case (step c d)
  from step(5) have "(lin_up ns)\<^sup>*\<^sup>* d r'"
  proof (rule converse_rtranclpE)
    assume "c = r'"
    with step(1,6) show ?thesis by blast
  next
    fix e assume "lin_up ns c e" "(lin_up ns)\<^sup>*\<^sup>* e r'"
    with lin_up_functional[OF step(1)] show ?thesis by simp
  qed
  with step(3)[OF step(4) _ step(6)] show ?case by simp
qed

text \<open>C13. What "related" means: as long as no chain of recorded parents has 64 links, a process
  belongs to the family of a case exactly when it is an ancestor of the suspicious process or a
  descendant of the case's root, the topmost recorded ancestor below init (both including the
  process itself).\<close>

theorem lineage_related_family:
  assumes "\<And>x y. \<not> (lin_parent ns ^^ 64) x y"
  shows "rw_lineage_is_related c p ns \<longleftrightarrow> 0 < c \<and> 0 < p \<and>
     ((lin_parent ns)\<^sup>*\<^sup>* c p
      \<or> (\<exists>r. (lin_up ns)\<^sup>*\<^sup>* c r \<and> \<not> (\<exists>q. lin_up ns r q) \<and> (lin_parent ns)\<^sup>*\<^sup>* p r))"
proof -
  define root where "root = case_root_for_pid c ns"
  have short_up: "\<not> (lin_up ns ^^ 64) x y" for x y using lin_up_parent assms by blast
  have top: "(lin_up ns)\<^sup>*\<^sup>* c root \<and> \<not> (\<exists>q. lin_up ns root q)"
  proof (cases "rw_lineage_get c ns")
    case None
    then have "root = c" by (simp add: root_def case_root_for_pid_def RW_LINEAGE_MAX_DEPTH_def
          numeral_eq_Suc)
    with None show ?thesis by (auto simp: lin_up_def lin_parent_def)
  next
    case (Some n)
    then obtain k where "k \<le> 64" "(lin_up ns ^^ k) c root"
        "k < 64 \<longrightarrow> \<not> (\<exists>q. lin_up ns root q)"
      using root_loop_chain[of c ns 64]
      by (auto simp: root_def case_root_for_pid_def RW_LINEAGE_MAX_DEPTH_def)
    with short_up show ?thesis by (metis le_neq_implies_less rtranclp_power)
  qed
  have anc: "is_ancestor_of a q ns \<longleftrightarrow> rw_lineage_get q ns \<noteq> None \<and> (lin_parent ns)\<^sup>*\<^sup>* q a" for a q
    by (simp add: is_ancestor_of_def ancestor_loop_chain RW_LINEAGE_MAX_DEPTH_def short_chains[OF assms])
  have unk: "(lin_parent ns)\<^sup>*\<^sup>* q a \<Longrightarrow> rw_lineage_get q ns = None \<Longrightarrow> a = q" for q a
    by (erule converse_rtranclpE) (auto simp: lin_parent_def)
  have uniq: "(\<exists>r. (lin_up ns)\<^sup>*\<^sup>* c r \<and> \<not> (\<exists>q. lin_up ns r q) \<and> (lin_parent ns)\<^sup>*\<^sup>* p r)
      \<longleftrightarrow> (lin_parent ns)\<^sup>*\<^sup>* p root"
    using top lin_top_unique by blast
  show ?thesis unfolding uniq rw_lineage_is_related_def Let_def root_def[symmetric] anc
    using unk by auto
qed


text \<open>Concrete instances.\<close>

definition lineage_start :: "os \<Rightarrow> lineage" where
  "lineage_start w = logger.extend (logger_start w (\<lambda>_. None)) \<lparr>nodes = []\<rparr>"

lemma lineage_start_nodes: "nodes (lineage_start w) = []"
  by (simp add: lineage_start_def logger.defs)

lemma lineage_table_ok_witness:
  "lin_ok small_limits (nodes (rw_lineage_record_fork small_limits idle_os 10 11 (lineage_start idle_os)))"
proof -
  have "(lin_step small_limits)\<^sup>*\<^sup>* (lineage_start idle_os)
      (rw_lineage_record_fork small_limits idle_os 10 11 (lineage_start idle_os))"
    by (rule r_into_rtranclp) (rule lin_fork)
  from lineage_table_ok[OF small_limits_ok lineage_start_nodes this] show ?thesis .
qed

lemma lineage_exit_sticky_witness:
  "let s = rw_lineage_record_exit small_limits idle_os 11 0 (lineage_start idle_os);
       s' = rw_lineage_record_fork small_limits idle_os 10 11 s
   in \<exists>n. rw_lineage_get 11 (nodes s') = Some n \<and> ln_pid n = 11 \<and> ln_exited n = 1"
proof -
  define s where "s = rw_lineage_record_exit small_limits idle_os 11 0 (lineage_start idle_os)"
  have "lin_grows small_limits (lineage_start idle_os) s"
    unfolding s_def by (intro lin_grows_intros lin_grows_refl small_limits_ok)
  then have ok: "lin_ok small_limits (nodes s)" by (simp add: lin_grows_def lineage_start_nodes)
  have "\<exists>n. nodes s = [n] \<and> ln_pid n = 11 \<and> ln_exited n = 1"
    by (simp add: s_def rw_lineage_record_exit_def get_or_create_node_def create_node_def
        append_node_def find_node_def lineage_start_nodes new_node_def sys_time_def tick_def
        RW_LINEAGE_MAX_NODES_def lineage_start_def logger.defs)
  then obtain n where n: "rw_lineage_get 11 (nodes s) = Some n" "ln_exited n = 1"
    by (auto simp: rw_lineage_get_def find_node_def)
  have "(lin_step small_limits)\<^sup>*\<^sup>* s (rw_lineage_record_fork small_limits idle_os 10 11 s)"
    by (rule r_into_rtranclp) (rule lin_fork)
  from lineage_exit_sticky[OF small_limits_ok ok n this] show ?thesis
    by (simp add: s_def[symmetric] Let_def)
qed

definition sample_node :: "pid \<Rightarrow> pid \<Rightarrow> lin_node" where
  "sample_node p q = (new_node small_limits p 0)\<lparr>ln_ppid := q\<rparr>"

lemma sample_node_simps [simp]: "ln_pid (sample_node p q) = p" "ln_ppid (sample_node p q) = q"
  by (simp_all add: sample_node_def new_node_def)

lemma lineage_related_family_witness:
  "let ns = [sample_node 1 0, sample_node 10 1, sample_node 20 10, sample_node 21 10, sample_node 30 1]
   in rw_lineage_is_related 20 21 ns \<and> \<not> rw_lineage_is_related 20 30 ns"
proof -
  define ns where "ns = [sample_node 1 0, sample_node 10 1, sample_node 20 10, sample_node 21 10,
    sample_node 30 1]"
  have get: "rw_lineage_get p ns =
      (if p = 1 then Some (sample_node 1 0) else if p = 10 then Some (sample_node 10 1)
       else if p = 20 then Some (sample_node 20 10) else if p = 21 then Some (sample_node 21 10)
       else if p = 30 then Some (sample_node 30 1) else None)" for p
    by (simp add: ns_def rw_lineage_get_def find_node_def)
  have par: "lin_parent ns p q \<longleftrightarrow> (p, q) \<in> {(10, 1), (20, 10), (21, 10), (30, 1)}" for p q
    by (auto simp: lin_parent_def get)
  have up: "lin_up ns p q \<longleftrightarrow> (p, q) \<in> {(20, 10), (21, 10)}" for p q
    by (auto simp: lin_up_def par)
  have down: "(lin_parent ns ^^ k) p q \<Longrightarrow> k \<noteq> 0 \<Longrightarrow> 0 < q \<and> q + int k \<le> p \<and> p \<le> 30" for k p q
  proof (induction k arbitrary: p)
    case (Suc k)
    then obtain r where r: "lin_parent ns p r" "(lin_parent ns ^^ k) r q" by (blast dest: relpowp_Suc_D2)
    with Suc(1)[OF r(2)] show ?case by (cases "k = 0") (auto simp: par)
  qed simp
  have short: "\<not> (lin_parent ns ^^ 64) x y" for x y using down[of 64 x y] by auto
  note rel = lineage_related_family[of ns, OF short]
  have "(lin_parent ns)\<^sup>*\<^sup>* 21 10" "(lin_up ns)\<^sup>*\<^sup>* 20 10" "\<not> (\<exists>q. lin_up ns 10 q)"
    by (auto simp: par up intro!: r_into_rtranclp)
  then have "rw_lineage_is_related 20 21 ns" unfolding rel by auto
  moreover have "\<not> rw_lineage_is_related 20 30 ns"
  proof -
    have "(lin_parent ns)\<^sup>*\<^sup>* 20 r \<Longrightarrow> r = 20 \<or> r = 10 \<or> r = 1" for r
      by (induction rule: rtranclp_induct) (auto simp: par)
    then have r20: "\<not> (lin_parent ns)\<^sup>*\<^sup>* 20 30" by fastforce
    have "(lin_up ns)\<^sup>*\<^sup>* 20 r \<Longrightarrow> r = 20 \<or> r = 10" for r
      by (induction rule: rtranclp_induct) (auto simp: up)
    moreover have "(lin_parent ns)\<^sup>*\<^sup>* 30 r \<Longrightarrow> r = 30 \<or> r = 1" for r
      by (induction rule: rtranclp_induct) (auto simp: par)
    ultimately show ?thesis unfolding rel using r20 by fastforce
  qed
  ultimately show ?thesis by (simp add: ns_def Let_def)
qed

end
