(* ===== verification/Event.thy ===== *)
theory Event
  imports Lineage
begin

section \<open>Event log (\<open>core/event.c\<close>)\<close>

text \<open>
  The ring of the last 16384 events and the timeline of a case that is written from it. The static
  array with its counter and cursor is the record \<open>ev_ring\<close>; the interface \<open>bounded_log\<close> says what
  such a log promises, independently of how it stores its entries.
\<close>

definition RW_MAX_EVENTS :: nat where
  "RW_MAX_EVENTS = 16384"

record ev_rec =
  er_ts :: time
  er_pid :: pid
  er_category :: string
  er_detail :: string

record ev_ring =
  slots :: "ev_rec list"
  count :: nat
  next_slot :: nat

record eventlog = lineage +
  evs :: ev_ring

subsection \<open>The interface: a log that keeps the newest entries\<close>

definition last_n :: "nat \<Rightarrow> 'e list \<Rightarrow> 'e list" where
  "last_n n xs = drop (length xs - n) xs"

lemma last_n_append: "last_n n (last_n n xs @ ys) = last_n n (xs @ ys)"
  by (cases "length xs \<le> n") (simp_all add: last_n_def add.commute)

lemma last_n_all: "length xs \<le> n \<Longrightarrow> last_n n xs = xs"
  by (simp add: last_n_def)

lemma last_n_length [simp]: "length (last_n n xs) = min n (length xs)"
  by (simp add: last_n_def min_def)

lemma map_last_n: "map f (last_n n xs) = last_n n (map f xs)"
  by (simp add: last_n_def drop_map)

locale bounded_log =
  fixes cap :: nat
    and log_ok :: "'s \<Rightarrow> bool"
    and contents :: "'s \<Rightarrow> 'e list"
    and add :: "'e \<Rightarrow> 's \<Rightarrow> 's"
  assumes add_keeps: "log_ok s \<Longrightarrow> log_ok (add e s)"
    and add_contents: "log_ok s \<Longrightarrow> contents (add e s) = last_n cap (contents s @ [e])"
    and within: "log_ok s \<Longrightarrow> length (contents s) \<le> cap"
begin

lemma fold_add:
  assumes "log_ok s"
  shows "log_ok (fold add es s) \<and> contents (fold add es s) = last_n cap (contents s @ es)"
  using assms
proof (induction es arbitrary: s)
  case Nil
  then show ?case by (simp add: last_n_all within)
next
  case (Cons e es)
  from Cons(1)[OF add_keeps[OF Cons(2)], of e] show ?case
    by (simp add: add_contents[OF Cons(2)] last_n_append)
qed

lemma newest_kept:
  assumes "log_ok s" "length es \<le> cap"
  shows "\<exists>old. contents (fold add es s) = old @ es"
  using fold_add[OF assms(1), of es] assms(2) by (auto simp: last_n_def)

end

subsection \<open>Adding\<close>

definition ring_init :: ev_ring where
  "ring_init = \<lparr>slots = replicate RW_MAX_EVENTS \<lparr>er_ts = 0, er_pid = 0, er_category = [], er_detail = []\<rparr>,
     count = 0, next_slot = 0\<rparr>"

definition ring_add :: "ev_rec \<Rightarrow> ev_ring \<Rightarrow> ev_ring" where
  "ring_add e r =
     r\<lparr>slots := (slots r)[next_slot r := e],
       next_slot := (next_slot r + 1) mod RW_MAX_EVENTS,
       count := (if count r < RW_MAX_EVENTS then count r + 1 else count r)\<rparr>"

definition rw_event_init :: "'a eventlog_scheme \<Rightarrow> 'a eventlog_scheme" where
  "rw_event_init s = s\<lparr>evs := ring_init\<rparr>"

definition mk_event :: "time \<Rightarrow> pid \<Rightarrow> string option \<Rightarrow> string option \<Rightarrow> ev_rec" where
  "mk_event now pid category detail =
     \<lparr>er_ts = now, er_pid = pid, er_category = cstr_copy 64 (str_or category ''event''),
      er_detail = cstr_copy 512 (str_or detail ''<none>'')\<rparr>"

definition rw_event_add ::
  "os \<Rightarrow> pid \<Rightarrow> string option \<Rightarrow> string option \<Rightarrow> 'a eventlog_scheme \<Rightarrow> 'a eventlog_scheme" where
  "rw_event_add w pid category detail s =
     (if pid \<le> 0 then s
      else (let (now, s1) = sys_time w s
            in s1\<lparr>evs := ring_add (mk_event now pid category detail) (evs s1)\<rparr>))"

text \<open>\<open>rw_event_addf\<close>: the formatted text goes through a buffer of 512 bytes first.\<close>

definition rw_event_addf ::
  "os \<Rightarrow> pid \<Rightarrow> string option \<Rightarrow> string \<Rightarrow> 'a eventlog_scheme \<Rightarrow> 'a eventlog_scheme" where
  "rw_event_addf w pid category txt s = rw_event_add w pid category (Some (cstr_copy 512 txt)) s"

subsection \<open>The timeline of a case\<close>

definition timeline_events :: "ev_ring \<Rightarrow> ev_rec list" where
  "timeline_events r =
     (let start = (if count r = RW_MAX_EVENTS then next_slot r else 0)
      in map (\<lambda>i. slots r ! ((start + i) mod RW_MAX_EVENTS)) [0..<count r])"

definition timeline_line :: "os \<Rightarrow> ev_rec \<Rightarrow> string" where
  "timeline_line w e = env_strftime w human_fmt (er_ts e) @ tab @ show_int (er_pid e) @ tab
     @ er_category e @ tab @ er_detail e @ [newline]"

definition timeline_header :: "pid \<Rightarrow> string" where
  "timeline_header case_pid =
     ''Timeline for case pid '' @ show_int case_pid @ [newline]
     @ ''========================='' @ [newline, newline]
     @ ''timestamp'' @ tab @ ''pid'' @ tab @ ''category'' @ tab @ ''detail'' @ [newline]"

text \<open>The loop over the ring with its two \<open>continue\<close>s.\<close>

fun timeline_rows :: "os \<Rightarrow> pid \<Rightarrow> lin_node list \<Rightarrow> ev_rec list \<Rightarrow> string" where
  "timeline_rows w case_pid ns [] = []"
| "timeline_rows w case_pid ns (e # es) =
     (if er_pid e \<le> 0 then timeline_rows w case_pid ns es
      else if \<not> rw_lineage_is_related case_pid (er_pid e) ns then timeline_rows w case_pid ns es
      else timeline_line w e @ timeline_rows w case_pid ns es)"

definition rw_event_write_timeline ::
  "limits \<Rightarrow> os \<Rightarrow> pid \<Rightarrow> string option \<Rightarrow> 'a eventlog_scheme \<Rightarrow> int \<times> 'a eventlog_scheme" where
  "rw_event_write_timeline L w case_pid case_dir s =
     (if case_pid \<le> 0 \<or> \<not> nonempty_str case_dir then (-1, s)
      else case path_in (max_path L) (the case_dir) ''timeline.txt'' of
             None \<Rightarrow> (-1, s)
           | Some path \<Rightarrow>
               (let (ok, s1) = sys_fopen_w w path s
                in if \<not> ok then (-1, s1)
                   else (0, fprintf_to path
                              (timeline_header case_pid
                               @ timeline_rows w case_pid (nodes s1) (timeline_events (evs s1))) s1)))"

subsection \<open>The ring is a bounded log\<close>

definition ring_ok :: "ev_ring \<Rightarrow> bool" where
  "ring_ok r \<longleftrightarrow> length (slots r) = RW_MAX_EVENTS \<and> next_slot r < RW_MAX_EVENTS
     \<and> (count r < RW_MAX_EVENTS \<longrightarrow> next_slot r = count r) \<and> count r \<le> RW_MAX_EVENTS"

definition ev_contents :: "ev_ring \<Rightarrow> ev_rec list" where
  "ev_contents r = (if count r = RW_MAX_EVENTS then drop (next_slot r) (slots r) @ take (next_slot r) (slots r)
     else take (count r) (slots r))"

lemma ring_add_ok: "ring_ok r \<Longrightarrow> ring_ok (ring_add e r)"
  by (auto simp: ring_ok_def ring_add_def RW_MAX_EVENTS_def mod_if)

lemma ring_add_contents:
  assumes r: "ring_ok r"
  shows "ev_contents (ring_add e r) = last_n RW_MAX_EVENTS (ev_contents r @ [e])"
proof (cases "count r < RW_MAX_EVENTS")
  case False
  let ?n = "next_slot r" and ?xs = "slots r"
  have n: "?n < length ?xs" "length ?xs = RW_MAX_EVENTS" "count r = RW_MAX_EVENTS"
    using r False by (auto simp: ring_ok_def)
  have abs: "last_n RW_MAX_EVENTS (ev_contents r @ [e]) = drop (Suc ?n) ?xs @ take ?n ?xs @ [e]"
    using n by (simp add: ev_contents_def last_n_def drop_Suc Cons_nth_drop_Suc[symmetric])
  show ?thesis
  proof (cases "Suc ?n = RW_MAX_EVENTS")
    case True
    with n have "(next_slot r + 1) mod RW_MAX_EVENTS = 0" by simp
    with n True show ?thesis unfolding abs
      by (simp add: ev_contents_def ring_add_def take_update_swap[symmetric] list_update_append
          upd_conv_take_nth_drop)
  next
    case False
    with n have "(next_slot r + 1) mod RW_MAX_EVENTS = Suc ?n" by simp
    with n False show ?thesis unfolding abs
      by (simp add: ev_contents_def ring_add_def upd_conv_take_nth_drop)
  qed
next
  case True
  let ?n = "count r" and ?xs = "slots r"
  have n: "?n < length ?xs" "length ?xs = RW_MAX_EVENTS" "next_slot r = ?n"
    using r True by (auto simp: ring_ok_def)
  have abs: "last_n RW_MAX_EVENTS (ev_contents r @ [e]) = take ?n ?xs @ [e]"
    using n True by (simp add: ev_contents_def last_n_def)
  show ?thesis
  proof (cases "Suc ?n = RW_MAX_EVENTS")
    case True
    with n show ?thesis unfolding abs
      by (simp add: ev_contents_def ring_add_def upd_conv_take_nth_drop)
  next
    case False
    with n show ?thesis unfolding abs
      by (simp add: ev_contents_def ring_add_def upd_conv_take_nth_drop)
  qed
qed

interpretation evlog: bounded_log RW_MAX_EVENTS ring_ok ev_contents ring_add
  by unfold_locales
     (auto simp: ring_add_ok ring_add_contents, auto simp: ring_ok_def ev_contents_def)

lemma ring_init_ok [simp]: "ring_ok ring_init" "ev_contents ring_init = []"
  by (simp_all add: ring_ok_def ring_init_def ev_contents_def RW_MAX_EVENTS_def)

lemma timeline_events_contents:
  assumes "ring_ok r"
  shows "timeline_events r = ev_contents r"
proof (rule nth_equalityI)
  show "length (timeline_events r) = length (ev_contents r)"
    using assms by (auto simp: timeline_events_def Let_def ev_contents_def ring_ok_def)
next
  fix i assume i: "i < length (timeline_events r)"
  show "timeline_events r ! i = ev_contents r ! i"
    using i assms
    by (auto simp: timeline_events_def Let_def ev_contents_def ring_ok_def nth_append mod_if
        add.commute split: if_splits)
qed

subsection \<open>The log of the program\<close>

lemma world_only_evs: "world_only s s' \<Longrightarrow> evs s' = evs s"
  by (cases s; cases s') (simp add: world_only_def)

lemmas evs_calls [simp] = world_only_calls [THEN world_only_evs]

text \<open>What an entry says, apart from its time.\<close>

definition ev_said :: "ev_rec \<Rightarrow> pid \<times> string \<times> string" where
  "ev_said e = (er_pid e, er_category e, er_detail e)"

definition call_said :: "pid \<times> string option \<times> string option \<Rightarrow> pid \<times> string \<times> string" where
  "call_said = (\<lambda>(pid, category, detail). ev_said (mk_event 0 pid category detail))"

definition add_calls ::
  "os \<Rightarrow> (pid \<times> string option \<times> string option) list \<Rightarrow> 'a eventlog_scheme \<Rightarrow> 'a eventlog_scheme" where
  "add_calls w calls s = fold (\<lambda>(pid, category, detail). rw_event_add w pid category detail) calls s"

lemma rw_event_add_evs:
  "evs (rw_event_add w pid category detail s) =
     (if pid \<le> 0 then evs s else ring_add (mk_event (env_time w (clk s)) pid category detail) (evs s))"
  by (simp add: rw_event_add_def sys_time_def tick_def)

lemma add_calls_evs:
  "\<exists>es. evs (add_calls w calls s) = fold ring_add es (evs s)
      \<and> map ev_said es = map call_said (filter (\<lambda>c. 0 < fst c) calls)"
proof (induction calls arbitrary: s)
  case Nil
  show ?case by (simp add: add_calls_def)
next
  case (Cons c calls)
  obtain pid category detail where c: "c = (pid, category, detail)" by (cases c)
  let ?s = "rw_event_add w pid category detail s"
  from Cons obtain es where es: "evs (add_calls w calls ?s) = fold ring_add es (evs ?s)"
    "map ev_said es = map call_said (filter (\<lambda>c. 0 < fst c) calls)" by blast
  have step: "add_calls w (c # calls) s = add_calls w calls ?s" by (simp add: add_calls_def c)
  show ?case
  proof (cases "0 < pid")
    case True
    let ?e = "mk_event (env_time w (clk s)) pid category detail"
    have "evs (add_calls w (c # calls) s) = fold ring_add (?e # es) (evs s)"
      using True es(1) unfolding step by (simp add: rw_event_add_evs)
    moreover have "ev_said ?e = call_said c"
      by (simp add: c call_said_def ev_said_def mk_event_def)
    ultimately show ?thesis using es(2) True c by (intro exI[of _ "?e # es"]) simp
  next
    case False
    with es c show ?thesis unfolding step by (auto simp: rw_event_add_evs)
  qed
qed

text \<open>C12. The ring keeps exactly the newest events: after any sequence of calls from an empty log, with
  any clock, it holds the last 16384 of the calls with a real pid, in the order of the calls,
  category and detail defaulted and cut to their arrays.\<close>

theorem event_log_newest:
  assumes "evs s = ring_init"
  shows "map ev_said (timeline_events (evs (add_calls w calls s))) =
           last_n RW_MAX_EVENTS (map call_said (filter (\<lambda>c. 0 < fst c) calls))"
proof -
  obtain es where es: "evs (add_calls w calls s) = fold ring_add es (evs s)"
    "map ev_said es = map call_said (filter (\<lambda>c. 0 < fst c) calls)"
    using add_calls_evs by blast
  have "ring_ok (evs s)" by (simp add: assms)
  from evlog.fold_add[OF this, of es] show ?thesis
    by (simp add: es timeline_events_contents assms map_last_n)
qed

text \<open>Concrete instances.\<close>

definition event_start :: "os \<Rightarrow> eventlog" where
  "event_start w = lineage.extend (lineage_start w) \<lparr>evs = ring_init\<rparr>"

lemma event_start_evs: "evs (event_start w) = ring_init"
  by (simp add: event_start_def lineage.defs)

lemma event_log_newest_witness:
  "map ev_said (timeline_events (evs (add_calls idle_os
      [(7, Some ''exec'', None), (0, None, None), (8, Some [], Some ''x'')] (event_start idle_os))))
   = [(7, ''exec'', ''<none>''), (8, ''event'', ''x'')]"
  using event_log_newest[OF event_start_evs, of idle_os
      "[(7, Some ''exec'', None), (0, None, None), (8, Some [], Some ''x'')]" idle_os]
  by (simp add: call_said_def ev_said_def mk_event_def last_n_def RW_MAX_EVENTS_def)

lemma timeline_rows_filter:
  "timeline_rows w c ns es = concat (map (timeline_line w)
     (filter (\<lambda>e. rw_lineage_is_related c (er_pid e) ns) es))"
  by (induction es) (auto simp: rw_lineage_is_related_def)

text \<open>The timeline file of a case: when the call reports success, the file holds the header and
  then, oldest first, one line for every event in the log whose process is related to the case and
  for no other; when the directory is missing, the path does not fit or the file cannot be opened
  it reports -1 and writes nothing. The log itself is never changed.\<close>

theorem event_timeline_text:
  assumes "ring_ok (evs s)"
  shows "case rw_event_write_timeline L w c dir s of (rc, s') \<Rightarrow>
     evs s' = evs s \<and> nodes s' = nodes s
     \<and> (rc = 0 \<longrightarrow> (\<exists>d. dir = Some d \<and> d \<noteq> [] \<and> 0 < c
          \<and> files s' = (files s)(d @ ''/timeline.txt'' \<mapsto> timeline_header c
               @ concat (map (timeline_line w)
                   (filter (\<lambda>e. rw_lineage_is_related c (er_pid e) (nodes s)) (ev_contents (evs s)))))))
     \<and> (rc \<noteq> 0 \<longrightarrow> rc = -1 \<and> files s' = files s)"
proof (cases "0 < c \<and> nonempty_str dir")
  case True
  then obtain d where d: "dir = Some d" "d \<noteq> []" by (cases dir) auto
  show ?thesis
  proof (cases "path_in (max_path L) d ''timeline.txt''")
    case None
    with True d show ?thesis by (simp add: rw_event_write_timeline_def)
  next
    case (Some p)
    then have p: "p = d @ ''/timeline.txt''" by (simp add: path_in_Some)
    have t: "timeline_events (evs s) = ev_contents (evs s)" by (rule timeline_events_contents[OF assms])
    have tk: "evs (tick s) = evs s" "nodes (tick s) = nodes s" by simp_all
    show ?thesis
    proof (cases "env_open w (clk s) p")
      case True
      with \<open>0 < c \<and> nonempty_str dir\<close> d Some show ?thesis
        by (simp add: rw_event_write_timeline_def sys_fopen_w_def p t timeline_rows_filter
            fprintf_to_files file_text_def put_file_def tick_def)
    next
      case False
      with \<open>0 < c \<and> nonempty_str dir\<close> d Some show ?thesis
        by (simp add: rw_event_write_timeline_def sys_fopen_w_def tick_def)
    qed
  qed
qed (auto simp: rw_event_write_timeline_def)

lemma event_timeline_text_witness:
  "let s = add_calls idle_os [(7, Some ''exec'', None), (9, None, None)] (event_start idle_os);
       s' = snd (rw_event_write_timeline small_limits idle_os 7 (Some ''d'') s)
   in files s' ''d/timeline.txt'' = Some (timeline_header 7
        @ ''T'' @ tab @ ''7'' @ tab @ ''exec'' @ tab @ ''<none>'' @ [newline])"
proof -
  define s where "s = add_calls idle_os [(7, Some ''exec'', None), (9, None, None)] (event_start idle_os)"
  define es where "es = [mk_event 1000 7 (Some ''exec'') None, mk_event 1001 9 None None]"
  have e: "evs s = fold ring_add es ring_init" "nodes s = []" "clk s = 2"
    by (simp_all add: s_def add_calls_def rw_event_add_def sys_time_def tick_def idle_os_def es_def
        event_start_def lineage.defs lineage_start_def logger.defs logger_start_def)
  have ok: "ring_ok (evs s)" and cs: "ev_contents (evs s) = es"
    using evlog.fold_add[of ring_init es] e by (simp_all add: last_n_def es_def RW_MAX_EVENTS_def)
  have rel: "rw_lineage_is_related 7 7 [] \<and> \<not> rw_lineage_is_related 7 9 []"
    by (simp add: rw_lineage_is_related_def case_root_for_pid_def is_ancestor_of_def
        RW_LINEAGE_MAX_DEPTH_def rw_lineage_get_def find_node_def numeral_eq_Suc)
  obtain rc s' where r: "rw_event_write_timeline small_limits idle_os 7 (Some ''d'') s = (rc, s')"
    by fastforce
  have rc: "rc = 0" using r by (auto simp: rw_event_write_timeline_def path_in_def small_limits_def
        sys_fopen_w_def idle_os_def)
  have "show_int 7 = ''7''" by (simp add: show_int_def show_nat_def show_base.simps digit_char_def)
  then have "files s' ''d/timeline.txt'' = Some (timeline_header 7
      @ ''T'' @ tab @ ''7'' @ tab @ ''exec'' @ tab @ ''<none>'' @ [newline])"
    using event_timeline_text[OF ok, where L = small_limits and w = idle_os and c = 7 and dir = "Some ''d''"] rel
    unfolding r rc cs e(2) by (simp add: es_def mk_event_def timeline_line_def idle_os_def)
  with r show ?thesis by (simp add: Let_def flip: s_def)
qed

end
