(* ===== verification/Whitelist.thy ===== *)
theory Whitelist
  imports Config
begin

section \<open>Whitelist (\<open>core/whitelist.c\<close>)\<close>

text \<open>
  The rules that reduce the scores of trusted processes: the rule table, the parser of the rule
  file, the reload logic with its built-in rules, and the matcher. The static variables of the file
  are the record \<open>wl_state\<close> (\<open>last_check\<close> is the static of \<open>rw_whitelist_poll\<close>). What the file system
  answers is an argument: the modification time that \<open>stat\<close> reports, and the bytes that \<open>fopen\<close> and
  \<open>fgets\<close> deliver, \<open>None\<close> where the call fails. Log lines are left out.
\<close>

definition RW_MAX_WHITELIST_RULES :: nat where
  "RW_MAX_WHITELIST_RULES = 256"

definition RW_WHITELIST_VALUE_MAX :: nat where
  "RW_WHITELIST_VALUE_MAX = 512"

datatype wl_type =
  WL_COMM_EXACT | WL_COMM_CONTAINS | WL_EXE_EXACT | WL_EXE_PREFIX | WL_EXE_CONTAINS | WL_PID

fun wl_type_code :: "wl_type \<Rightarrow> nat" where
  "wl_type_code WL_COMM_EXACT = 0"
| "wl_type_code WL_COMM_CONTAINS = 1"
| "wl_type_code WL_EXE_EXACT = 2"
| "wl_type_code WL_EXE_PREFIX = 3"
| "wl_type_code WL_EXE_CONTAINS = 4"
| "wl_type_code WL_PID = 5"

record wl_rule =
  rl_type :: wl_type
  rl_value :: string
  rl_pid :: int

record wl_state =
  rules :: "wl_rule list"
  wl_path :: string
  last_mtime :: time
  loaded :: bool
  last_check :: time

definition starts_with :: "string option \<Rightarrow> string option \<Rightarrow> bool" where
  "starts_with s pre = (case (s, pre) of
     (Some s', Some p) \<Rightarrow> take (length p) s' = p
   | _ \<Rightarrow> False)"

text \<open>The copy of \<open>contains_ci\<close> in this file has the text of the one in \<open>core/score.c\<close>.\<close>

definition wl_contains_ci :: "string option \<Rightarrow> string option \<Rightarrow> bool" where
  "wl_contains_ci haystack needle = contains_ci haystack needle"

definition trim :: "string \<Rightarrow> string" where
  "trim s = rev (dropWhile isspace (rev (dropWhile isspace s)))"

subsection \<open>The rule table\<close>

text \<open>The parsers return the int of the source (0 or -1) with the new table.\<close>

definition add_rule :: "wl_type \<Rightarrow> string option \<Rightarrow> wl_rule list \<Rightarrow> int \<times> wl_rule list" where
  "add_rule ty value rs =
     (if length rs \<ge> RW_MAX_WHITELIST_RULES \<or> \<not> nonempty_str value then (-1, rs)
      else (let v = the value;
                r = (if ty = WL_PID then \<lparr>rl_type = ty, rl_value = [], rl_pid = atoi v\<rparr>
                     else \<lparr>rl_type = ty, rl_value = cstr_copy RW_WHITELIST_VALUE_MAX v, rl_pid = 0\<rparr>)
            in (0, rs @ [r])))"

definition builtin_rules :: "(wl_type \<times> string) list" where
  "builtin_rules =
     [(WL_COMM_CONTAINS, ''firefox''), (WL_COMM_CONTAINS, ''Web Content''),
      (WL_COMM_CONTAINS, ''Isolated Web Co''), (WL_COMM_CONTAINS, ''chrome''),
      (WL_COMM_CONTAINS, ''chromium''), (WL_EXE_CONTAINS, ''/firefox''),
      (WL_EXE_CONTAINS, ''/chrome''), (WL_EXE_CONTAINS, ''/chromium'')]"

definition add_builtin_rules :: "wl_rule list \<Rightarrow> wl_rule list" where
  "add_builtin_rules rs = fold (\<lambda>(ty, v) rs. snd (add_rule ty (Some v) rs)) builtin_rules rs"

definition parse_rule_line :: "string \<Rightarrow> wl_rule list \<Rightarrow> int \<times> wl_rule list" where
  "parse_rule_line line0 rs =
     (let line = trim line0 in
      if line = [] \<or> hd line = CHR ''#'' then (0, rs)
      else if CHR ''='' \<notin> set line then (-1, rs)
      else (let key = trim (takeWhile (\<lambda>c. c \<noteq> CHR ''='') line);
                value = trim (tl (dropWhile (\<lambda>c. c \<noteq> CHR ''='') line))
            in if key = ''comm'' then add_rule WL_COMM_EXACT (Some value) rs
               else if key = ''comm_contains'' then add_rule WL_COMM_CONTAINS (Some value) rs
               else if key = ''exe'' then add_rule WL_EXE_EXACT (Some value) rs
               else if key = ''exe_prefix'' then add_rule WL_EXE_PREFIX (Some value) rs
               else if key = ''exe_contains'' then add_rule WL_EXE_CONTAINS (Some value) rs
               else if key = ''pid'' then add_rule WL_PID (Some value) rs
               else (-1, rs)))"

fun parse_lines :: "string list \<Rightarrow> int \<times> wl_rule list \<Rightarrow> int \<times> wl_rule list" where
  "parse_lines [] acc = acc"
| "parse_lines (l # ls) (n, rs) =
     (let (rc, rs') = parse_rule_line l rs in parse_lines ls (if rc = 0 then n + 1 else n, rs'))"

definition load_file :: "string option \<Rightarrow> wl_rule list \<Rightarrow> int \<times> wl_rule list" where
  "load_file content rs = (case content of
     None \<Rightarrow> (-1, rs)
   | Some bytes \<Rightarrow> parse_lines (fgets_lines 1024 bytes) (0, rs))"

subsection \<open>Loading\<close>

definition reset_rules :: "wl_state \<Rightarrow> wl_state" where
  "reset_rules st = st\<lparr>rules := []\<rparr>"

definition reload_rules ::
  "nat \<Rightarrow> rw_config option \<Rightarrow> bool \<Rightarrow> time option \<Rightarrow> string option \<Rightarrow> wl_state \<Rightarrow> wl_state" where
  "reload_rules path_len cfg force mtime content st = (case cfg of
     None \<Rightarrow> reset_rules st
   | Some c \<Rightarrow>
       if \<not> enable_whitelist c then reset_rules st
       else (let path = str_or (whitelist_path c) ''config/whitelist.conf'';
                 st1 = st\<lparr>wl_path := cstr_copy path_len path\<rparr>
             in case mtime of
                  None \<Rightarrow>
                    if \<not> loaded st1 \<or> force
                    then (reset_rules st1)\<lparr>rules := add_builtin_rules [], loaded := True\<rparr>
                    else st1
                | Some t \<Rightarrow>
                    if \<not> force \<and> loaded st1 \<and> t = last_mtime st1 then st1
                    else st1\<lparr>rules := snd (load_file content (add_builtin_rules [])),
                             last_mtime := t, loaded := True\<rparr>))"

definition rw_whitelist_init ::
  "nat \<Rightarrow> rw_config option \<Rightarrow> time option \<Rightarrow> string option \<Rightarrow> wl_state \<Rightarrow> wl_state" where
  "rw_whitelist_init path_len cfg mtime content st =
     reload_rules path_len cfg True mtime content (st\<lparr>loaded := False, last_mtime := 0, wl_path := []\<rparr>)"

definition rw_whitelist_poll ::
  "nat \<Rightarrow> rw_config option \<Rightarrow> time \<Rightarrow> time option \<Rightarrow> string option \<Rightarrow> wl_state \<Rightarrow> wl_state" where
  "rw_whitelist_poll path_len cfg now mtime content st =
     (if now - last_check st < 5 then st
      else reload_rules path_len cfg False mtime content (st\<lparr>last_check := now\<rparr>))"

definition rw_whitelist_shutdown :: "wl_state \<Rightarrow> wl_state" where
  "rw_whitelist_shutdown st = (reset_rules st)\<lparr>loaded := False\<rparr>"

subsection \<open>Matching\<close>

definition rule_matches :: "pid \<Rightarrow> string option \<Rightarrow> string option \<Rightarrow> wl_rule \<Rightarrow> bool" where
  "rule_matches pid comm exe r = (case rl_type r of
     WL_COMM_EXACT \<Rightarrow> comm = Some (rl_value r)
   | WL_COMM_CONTAINS \<Rightarrow> wl_contains_ci comm (Some (rl_value r))
   | WL_EXE_EXACT \<Rightarrow> exe = Some (rl_value r)
   | WL_EXE_PREFIX \<Rightarrow> starts_with exe (Some (rl_value r))
   | WL_EXE_CONTAINS \<Rightarrow> wl_contains_ci exe (Some (rl_value r))
   | WL_PID \<Rightarrow> pid = rl_pid r)"

text \<open>The explanation that the caller's buffer of \<open>why_len\<close> bytes receives for rule \<open>i\<close>.\<close>

definition rule_why :: "nat \<Rightarrow> nat \<Rightarrow> wl_rule \<Rightarrow> string" where
  "rule_why why_len i r =
     cstr_copy why_len
       (''rule_index='' @ show_nat i @ '' type='' @ show_nat (wl_type_code (rl_type r))
        @ '' value='' @ (if rl_type r = WL_PID then ''<pid>'' else rl_value r))"

fun match_loop ::
  "pid \<Rightarrow> string option \<Rightarrow> string option \<Rightarrow> nat \<Rightarrow> nat \<Rightarrow> wl_rule list \<Rightarrow> string option" where
  "match_loop pid comm exe why_len i [] = None"
| "match_loop pid comm exe why_len i (r # rs) =
     (if rule_matches pid comm exe r then Some (rule_why why_len i r)
      else match_loop pid comm exe why_len (i + 1) rs)"

text \<open>\<open>Some why\<close> is the return value 1 with its explanation; \<open>None\<close> is 0.\<close>

definition rw_whitelist_match ::
  "pid \<Rightarrow> string option \<Rightarrow> string option \<Rightarrow> nat \<Rightarrow> wl_state \<Rightarrow> string option" where
  "rw_whitelist_match pid comm exe why_len st = match_loop pid comm exe why_len 0 (rules st)"


subsection \<open>The rule table is well formed\<close>

text \<open>
  A stored rule is a pid rule without a value, or carries a value that fits its array; the second
  kind never has an empty value, which the matcher would find in every process.
\<close>

definition wl_rule_ok :: "wl_rule \<Rightarrow> bool" where
  "wl_rule_ok r \<longleftrightarrow>
     (if rl_type r = WL_PID then rl_value r = [] \<and> - (2 ^ 31) \<le> rl_pid r \<and> rl_pid r < 2 ^ 31
      else rl_value r \<noteq> [] \<and> length (rl_value r) < RW_WHITELIST_VALUE_MAX \<and> rl_pid r = 0)"

definition wl_rules_ok :: "wl_rule list \<Rightarrow> bool" where
  "wl_rules_ok rs \<longleftrightarrow> length rs \<le> RW_MAX_WHITELIST_RULES \<and> list_all wl_rule_ok rs"

lemma wl_rules_ok_Nil [simp]: "wl_rules_ok []"
  by (simp add: wl_rules_ok_def)

lemma add_rule_extends: "\<exists>rs'. snd (add_rule ty v rs) = rs @ rs'"
  by (auto simp: add_rule_def Let_def)

lemma add_rule_ok: "wl_rules_ok rs \<Longrightarrow> wl_rules_ok (snd (add_rule ty v rs))"
proof (cases v)
  case (Some s)
  assume "wl_rules_ok rs"
  with Some show ?thesis
    using c_int_range[of "atol s"]
    by (auto simp: wl_rules_ok_def add_rule_def Let_def wl_rule_ok_def atoi_def cstr_copy_def
        RW_WHITELIST_VALUE_MAX_def RW_MAX_WHITELIST_RULES_def)
qed (simp add: add_rule_def)

lemma parse_rule_line_cases:
  "parse_rule_line l rs = (0, rs) \<or> parse_rule_line l rs = (-1, rs) \<or>
   (\<exists>ty v. parse_rule_line l rs = add_rule ty v rs)"
  unfolding parse_rule_line_def Let_def
  by (simp split: if_split) blast

lemma parse_rule_line_ok: "wl_rules_ok rs \<Longrightarrow> wl_rules_ok (snd (parse_rule_line l rs))"
  using parse_rule_line_cases[of l rs] by (auto intro: add_rule_ok)

lemma parse_rule_line_extends: "\<exists>rs'. snd (parse_rule_line l rs) = rs @ rs'"
  using parse_rule_line_cases[of l rs] add_rule_extends by fastforce

lemma parse_lines_ok: "wl_rules_ok (snd acc) \<Longrightarrow> wl_rules_ok (snd (parse_lines ls acc))"
proof (induction ls acc rule: parse_lines.induct)
  case (2 l ls n rs)
  obtain rc rs' where p: "parse_rule_line l rs = (rc, rs')" by fastforce
  with parse_rule_line_ok[of rs l] 2(2) have "wl_rules_ok rs'" by simp
  with 2(1)[OF p[symmetric] refl] p show ?case by simp
qed simp

lemma parse_lines_extends: "\<exists>rs'. snd (parse_lines ls acc) = snd acc @ rs'"
proof (induction ls acc rule: parse_lines.induct)
  case (2 l ls n rs)
  obtain rc rs' where p: "parse_rule_line l rs = (rc, rs')" by fastforce
  with parse_rule_line_extends[of l rs] obtain xs where "rs' = rs @ xs" by auto
  moreover from 2[OF p[symmetric] refl] obtain ys where
    "snd (parse_lines ls (if rc = 0 then n + 1 else n, rs')) = rs' @ ys" by auto
  ultimately show ?case using p by simp
qed simp

lemma add_builtin_rules_ok: "wl_rules_ok (add_builtin_rules [])"
proof -
  have "wl_rules_ok rs \<Longrightarrow> wl_rules_ok (fold (\<lambda>(ty, v) rs. snd (add_rule ty (Some v) rs)) bs rs)" for bs rs
    by (induction bs arbitrary: rs) (auto intro: add_rule_ok)
  then show ?thesis by (simp add: add_builtin_rules_def)
qed

lemma load_file_ok: "wl_rules_ok rs \<Longrightarrow> wl_rules_ok (snd (load_file content rs))"
  by (auto simp: load_file_def parse_lines_ok split: option.splits)

lemma load_file_extends: "\<exists>rs'. snd (load_file content rs) = rs @ rs'"
  using parse_lines_extends[of _ "(0, rs)"] by (auto simp: load_file_def split: option.splits)

subsection \<open>The life of the table\<close>

text \<open>
  What the program does to the whitelist, as a step relation: start, one poll of the main loop at
  any time with any file, shut down. Every step carries the configuration, the clock and the
  file system's answers.
\<close>

inductive wl_step :: "nat \<Rightarrow> rw_config option \<Rightarrow> wl_state \<Rightarrow> wl_state \<Rightarrow> bool"
  for path_len :: nat and cfg :: "rw_config option" where
  wl_init: "wl_step path_len cfg st (rw_whitelist_init path_len cfg mtime content st)"
| wl_poll: "wl_step path_len cfg st (rw_whitelist_poll path_len cfg now mtime content st)"
| wl_shutdown: "wl_step path_len cfg st (rw_whitelist_shutdown st)"

definition wl_start :: wl_state where
  "wl_start = \<lparr>rules = [], wl_path = [], last_mtime = 0, loaded = False, last_check = 0\<rparr>"

definition wl_enabled :: "rw_config option \<Rightarrow> bool" where
  "wl_enabled cfg \<longleftrightarrow> (case cfg of None \<Rightarrow> False | Some c \<Rightarrow> enable_whitelist c)"

text \<open>
  The table is well formed; while the whitelist is switched on and loaded, the built-in rules come
  first; while it is switched off, the table is empty.
\<close>

definition wl_inv :: "rw_config option \<Rightarrow> wl_state \<Rightarrow> bool" where
  "wl_inv cfg st \<longleftrightarrow> wl_rules_ok (rules st)
     \<and> (wl_enabled cfg \<and> loaded st \<longrightarrow> prefix (add_builtin_rules []) (rules st))
     \<and> (\<not> wl_enabled cfg \<or> \<not> loaded st \<longrightarrow> rules st = [])"

lemma reload_rules_inv:
  assumes "wl_inv cfg st \<or> force"
  shows "wl_inv cfg (reload_rules path_len cfg force mtime content st)"
proof (cases "wl_enabled cfg")
  case False
  then show ?thesis
    by (auto simp: wl_inv_def wl_enabled_def reload_rules_def reset_rules_def split: option.splits)
next
  case True
  then obtain c where c: "cfg = Some c" "enable_whitelist c"
    by (auto simp: wl_enabled_def split: option.splits)
  have p: "prefix (add_builtin_rules []) (snd (load_file content (add_builtin_rules [])))"
    using load_file_extends[of content "add_builtin_rules []"] by (auto simp: prefix_def)
  show ?thesis using assms c
    by (cases mtime)
       (auto simp: wl_inv_def wl_enabled_def reload_rules_def reset_rules_def Let_def p
          add_builtin_rules_ok load_file_ok)
qed

lemma wl_step_inv: "wl_step path_len cfg st st' \<Longrightarrow> wl_inv cfg st \<Longrightarrow> wl_inv cfg st'"
proof (induction rule: wl_step.induct)
  case (wl_init st mtime content)
  show ?case by (simp add: rw_whitelist_init_def reload_rules_inv)
next
  case (wl_poll st now mtime content)
  then have "wl_inv cfg (st\<lparr>last_check := now\<rparr>)" by (simp add: wl_inv_def)
  with wl_poll show ?case by (simp add: rw_whitelist_poll_def reload_rules_inv)
next
  case (wl_shutdown st)
  show ?case by (simp add: rw_whitelist_shutdown_def reset_rules_def wl_inv_def)
qed

lemma wl_reach_inv: "(wl_step path_len cfg)\<^sup>*\<^sup>* wl_start st \<Longrightarrow> wl_inv cfg st"
proof (induction rule: rtranclp_induct)
  case base
  show ?case by (simp add: wl_start_def wl_inv_def)
next
  case (step y z)
  then show ?case by (blast intro: wl_step_inv)
qed


subsection \<open>The rule file\<close>

text \<open>The line of the rule file that stands for a rule, and the file for a list of them.\<close>

fun wl_key :: "wl_type \<Rightarrow> string" where
  "wl_key WL_COMM_EXACT = ''comm''"
| "wl_key WL_COMM_CONTAINS = ''comm_contains''"
| "wl_key WL_EXE_EXACT = ''exe''"
| "wl_key WL_EXE_PREFIX = ''exe_prefix''"
| "wl_key WL_EXE_CONTAINS = ''exe_contains''"
| "wl_key WL_PID = ''pid''"

definition render_rule :: "wl_rule \<Rightarrow> string" where
  "render_rule r = wl_key (rl_type r) @ [CHR ''=''] @
     (if rl_type r = WL_PID then show_int (rl_pid r) else rl_value r)"

definition render_rules :: "wl_rule list \<Rightarrow> string" where
  "render_rules rs = concat (map (\<lambda>r. render_rule r @ [newline]) rs)"

text \<open>A value that a line can carry: no white space at its ends, no newline and no NUL inside.\<close>

definition wl_value_plain :: "string \<Rightarrow> bool" where
  "wl_value_plain v \<longleftrightarrow> v \<noteq> [] \<and> \<not> isspace (hd v) \<and> \<not> isspace (last v)
     \<and> newline \<notin> set v \<and> CHR 0x00 \<notin> set v"

definition wl_rule_plain :: "wl_rule \<Rightarrow> bool" where
  "wl_rule_plain r \<longleftrightarrow> wl_rule_ok r \<and> (rl_type r \<noteq> WL_PID \<longrightarrow> wl_value_plain (rl_value r))"

lemma trim_plain: "v \<noteq> [] \<Longrightarrow> \<not> isspace (hd v) \<Longrightarrow> \<not> isspace (last v) \<Longrightarrow> trim v = v"
proof -
  assume a: "v \<noteq> []" "\<not> isspace (hd v)" "\<not> isspace (last v)"
  then have "dropWhile isspace v = v" by (cases v) auto
  moreover have "dropWhile isspace (rev v) = rev v" using a by (cases v rule: rev_cases) auto
  ultimately show ?thesis by (simp add: trim_def)
qed

lemma trim_newline: "v \<noteq> [] \<Longrightarrow> \<not> isspace (hd v) \<Longrightarrow> trim (v @ [newline]) = trim v"
  by (cases v) (simp_all add: trim_def newline_def)

lemma show_nat_plain: "c \<in> set (show_nat n) \<Longrightarrow> isdigit c"
  using show_nat_digits[of n] by (simp add: show_nat_def list_all_iff)

lemma show_int_chars: "c \<in> set (show_int i) \<Longrightarrow> isdigit c \<or> c = CHR ''-''"
  by (auto simp: show_int_def dest: show_nat_plain split: if_splits)

lemma show_int_plain: "wl_value_plain (show_int i)"
proof -
  have ns: "show_int i \<noteq> []" by (simp add: show_int_def)
  have "\<not> isspace c \<and> c \<noteq> newline \<and> c \<noteq> CHR 0x00" if "c \<in> set (show_int i)" for c
    using show_int_chars[OF that] by (cases c) (auto simp: newline_def)
  with ns show ?thesis unfolding wl_value_plain_def by (metis hd_in_set last_in_set)
qed

definition rule_text :: "wl_rule \<Rightarrow> string" where
  "rule_text r = (if rl_type r = WL_PID then show_int (rl_pid r) else rl_value r)"

lemma rule_text_plain: "wl_rule_plain r \<Longrightarrow> wl_value_plain (rule_text r)"
  by (auto simp: rule_text_def wl_rule_plain_def show_int_plain)

lemma wl_key_shape: "wl_key ty \<noteq> [] \<and> \<not> isspace (hd (wl_key ty)) \<and> \<not> isspace (last (wl_key ty))
    \<and> hd (wl_key ty) \<noteq> CHR ''#'' \<and> CHR ''='' \<notin> set (wl_key ty) \<and> newline \<notin> set (wl_key ty)
    \<and> CHR 0x00 \<notin> set (wl_key ty) \<and> length (wl_key ty) \<le> 13"
  by (cases ty) (simp_all add: newline_def)

lemma parse_key_value:
  assumes v: "wl_value_plain v"
  shows "parse_rule_line (wl_key ty @ CHR ''='' # v @ [newline]) rs = add_rule ty (Some v) rs"
proof -
  let ?l = "wl_key ty @ CHR ''='' # v"
  have k: "wl_key ty \<noteq> []" "\<not> isspace (hd (wl_key ty))" "\<not> isspace (last (wl_key ty))"
      "hd (wl_key ty) \<noteq> CHR ''#''" "CHR ''='' \<notin> set (wl_key ty)"
    using wl_key_shape[of ty] by auto
  have l: "?l \<noteq> []" "\<not> isspace (hd ?l)" "\<not> isspace (last ?l)" "hd ?l \<noteq> CHR ''#''"
    using k v by (auto simp: wl_value_plain_def)
  have t: "trim (?l @ [newline]) = ?l" using trim_newline[OF l(1,2)] trim_plain[OF l(1-3)] by simp
  have tw: "takeWhile (\<lambda>c. c \<noteq> CHR ''='') ?l = wl_key ty"
    using k(5) by (subst takeWhile_append2) auto
  have dw: "dropWhile (\<lambda>c. c \<noteq> CHR ''='') ?l = CHR ''='' # v"
    using k(5) by (subst dropWhile_append2) auto
  have tk: "trim (wl_key ty) = wl_key ty" using k by (simp add: trim_plain)
  have tv: "trim v = v" using v by (simp add: wl_value_plain_def trim_plain)
  have eq: "CHR ''='' \<in> set ?l" by simp
  have "parse_rule_line (?l @ [newline]) rs =
     (if wl_key ty = ''comm'' then add_rule WL_COMM_EXACT (Some v) rs
      else if wl_key ty = ''comm_contains'' then add_rule WL_COMM_CONTAINS (Some v) rs
      else if wl_key ty = ''exe'' then add_rule WL_EXE_EXACT (Some v) rs
      else if wl_key ty = ''exe_prefix'' then add_rule WL_EXE_PREFIX (Some v) rs
      else if wl_key ty = ''exe_contains'' then add_rule WL_EXE_CONTAINS (Some v) rs
      else if wl_key ty = ''pid'' then add_rule WL_PID (Some v) rs
      else (-1, rs))"
    unfolding parse_rule_line_def Let_def t tw dw list.sel tk tv using l(1,4) eq by simp
  also have "\<dots> = add_rule ty (Some v) rs" by (cases ty) simp_all
  finally show ?thesis by simp
qed

lemma add_rule_back:
  assumes "wl_rule_plain r" "length rs < RW_MAX_WHITELIST_RULES"
  shows "add_rule (rl_type r) (Some (rule_text r)) rs = (0, rs @ [r])"
proof -
  have "rule_text r \<noteq> []" using rule_text_plain[OF assms(1)] by (simp add: wl_value_plain_def)
  moreover have "rl_type r = WL_PID \<Longrightarrow> atoi (rule_text r) = rl_pid r"
    using assms(1) by (simp add: rule_text_def wl_rule_plain_def wl_rule_ok_def atoi_show_int)
  ultimately show ?thesis using assms
    by (cases r) (auto simp: add_rule_def wl_rule_plain_def wl_rule_ok_def rule_text_def)
qed

lemma fgets_one_line:
  "newline \<notin> set l \<Longrightarrow> length l < k \<Longrightarrow> fgets_one k (l @ newline # rest) = (l @ [newline], rest)"
proof (induction l arbitrary: k)
  case Nil
  then show ?case by (cases k) auto
next
  case (Cons c l)
  then show ?case by (cases k) auto
qed

lemma fgets_raw_line:
  assumes "newline \<notin> set l" "length l < k"
  shows "fgets_raw k (l @ newline # rest) = (l @ [newline]) # fgets_raw k rest"
  using assms by (subst fgets_raw.simps) (simp add: fgets_one_line)

lemma show_int_length: "- (2 ^ 31) \<le> i \<Longrightarrow> i < 2 ^ 31 \<Longrightarrow> length (show_int i) \<le> 11"
proof -
  assume "- (2 ^ 31) \<le> i" "i < 2 ^ 31"
  then have "nat i < 10 ^ 10" "nat (- i) < 10 ^ 10" by auto
  from this[THEN show_nat_length] show ?thesis by (simp add: show_int_def)
qed

lemma rule_text_length: "wl_rule_plain r \<Longrightarrow> length (rule_text r) \<le> 511"
  using show_int_length[of "rl_pid r"]
  by (auto simp: rule_text_def wl_rule_plain_def wl_rule_ok_def RW_WHITELIST_VALUE_MAX_def)

lemma render_rule_text: "render_rule r = wl_key (rl_type r) @ CHR ''='' # rule_text r"
  by (simp add: render_rule_def rule_text_def)

lemma fgets_lines_render:
  assumes "list_all wl_rule_plain rs"
  shows "fgets_lines 1024 (render_rules rs) = map (\<lambda>r. render_rule r @ [newline]) rs"
  using assms
proof (induction rs)
  case Nil
  show ?case by (simp add: fgets_lines_def render_rules_def fgets_raw.simps)
next
  case (Cons r rs)
  then have r: "wl_rule_plain r" by simp
  note shape = wl_key_shape[of "rl_type r"] rule_text_plain[OF r, unfolded wl_value_plain_def]
  have nl: "newline \<notin> set (render_rule r)" and nul: "CHR 0x00 \<notin> set (render_rule r)"
    using shape by (auto simp: render_rule_text newline_def)
  have len: "length (render_rule r) < 1023"
    using shape rule_text_length[OF r] by (simp add: render_rule_text)
  have "c_str (render_rule r @ [newline]) = render_rule r @ [newline]"
    unfolding c_str_def takeWhile_eq_all_conv using nul by (auto simp: newline_def)
  moreover have "fgets_raw 1023 (render_rules (r # rs)) =
      (render_rule r @ [newline]) # fgets_raw 1023 (render_rules rs)"
    using fgets_raw_line[OF nl len, of "render_rules rs"] by (simp add: render_rules_def)
  ultimately show ?case using Cons by (simp add: fgets_lines_def)
qed

lemma parse_lines_render:
  assumes "list_all wl_rule_plain rs" "length rs0 + length rs \<le> RW_MAX_WHITELIST_RULES"
  shows "parse_lines (map (\<lambda>r. render_rule r @ [newline]) rs) (n, rs0) = (n + int (length rs), rs0 @ rs)"
  using assms
proof (induction rs arbitrary: n rs0)
  case (Cons r rs)
  then have r: "wl_rule_plain r" by simp
  have "parse_rule_line (render_rule r @ [newline]) rs0 = (0, rs0 @ [r])"
    using parse_key_value[OF rule_text_plain[OF r]] add_rule_back[OF r] Cons(3)
    by (simp add: render_rule_text)
  with Cons show ?case by simp
qed simp

text \<open>C17. Round trip of the rule file: a file that lists well-formed rules one per line (any of the
  six kinds, values without white space at their ends) is read back as exactly these rules, in
  order, behind the built-in ones; the count that is returned is the number of lines, and it
  holds for every file that leaves room for the eight built-in rules.\<close>

theorem whitelist_file_roundtrip:
  assumes "list_all wl_rule_plain rs" "length rs \<le> 248"
  shows "load_file (Some (render_rules rs)) (add_builtin_rules []) =
           (int (length rs), add_builtin_rules [] @ rs)"
proof -
  have "length (add_builtin_rules []) = 8"
    by (simp add: add_builtin_rules_def builtin_rules_def add_rule_def RW_MAX_WHITELIST_RULES_def)
  then show ?thesis using assms
    by (simp add: load_file_def fgets_lines_render parse_lines_render RW_MAX_WHITELIST_RULES_def)
qed

lemma whitelist_file_roundtrip_witness:
  "let rs = [\<lparr>rl_type = WL_EXE_PREFIX, rl_value = ''/opt/my app=1/'', rl_pid = 0\<rparr>,
             \<lparr>rl_type = WL_PID, rl_value = [], rl_pid = -12\<rparr>]
   in load_file (Some (render_rules rs)) (add_builtin_rules []) = (2, add_builtin_rules [] @ rs)"
  unfolding Let_def
  by (subst whitelist_file_roundtrip)
     (simp_all add: wl_rule_plain_def wl_rule_ok_def wl_value_plain_def newline_def
        RW_WHITELIST_VALUE_MAX_def)

subsection \<open>Which processes are whitelisted\<close>

text \<open>What a rule promises, stated with prefixes and sublists instead of loops over bytes.\<close>

fun rule_covers :: "wl_rule \<Rightarrow> pid \<Rightarrow> string option \<Rightarrow> string option \<Rightarrow> bool" where
  "rule_covers r pid comm exe =
     (let v = rl_value r; low = map tolower in case rl_type r of
        WL_COMM_EXACT \<Rightarrow> comm = Some v
      | WL_COMM_CONTAINS \<Rightarrow> (\<exists>c. comm = Some c \<and> sublist (low v) (low c))
      | WL_EXE_EXACT \<Rightarrow> exe = Some v
      | WL_EXE_PREFIX \<Rightarrow> (\<exists>e. exe = Some e \<and> prefix v e)
      | WL_EXE_CONTAINS \<Rightarrow> (\<exists>e. exe = Some e \<and> sublist (low v) (low e))
      | WL_PID \<Rightarrow> pid = rl_pid r)"

declare rule_covers.simps [simp del]

lemma take_length_prefix: "take (length p) s = p \<longleftrightarrow> prefix p s"
  by (metis append_eq_conv_conj append_take_drop_id prefix_def)

lemma rule_matches_covers: "rule_matches pid comm exe r \<longleftrightarrow> rule_covers r pid comm exe"
  by (cases comm; cases exe; cases "rl_type r")
     (simp_all add: rule_matches_def rule_covers.simps wl_contains_ci_def contains_ci_sublist
        starts_with_def take_length_prefix Let_def)

lemma match_loop_find:
  "match_loop pid comm exe w i rs =
     map_option (\<lambda>j. rule_why w (i + j) (rs ! j)) (find_idx (\<lambda>r. rule_covers r pid comm exe) rs)"
  by (induction rs arbitrary: i) (auto simp: rule_matches_covers option.map_comp comp_def)

text \<open>C7. The matcher answers for the first rule of the table that covers the process (equal, prefix
  or case-insensitive substring of the name or path, or the pid), names that rule with its index in
  the explanation, and answers "no" exactly when no rule covers the process.\<close>

theorem whitelist_first_match:
  "(\<forall>why. rw_whitelist_match pid comm exe w st = Some why \<longleftrightarrow>
      (\<exists>i < length (rules st). rule_covers (rules st ! i) pid comm exe
         \<and> (\<forall>j < i. \<not> rule_covers (rules st ! j) pid comm exe)
         \<and> why = rule_why w i (rules st ! i)))
   \<and> (rw_whitelist_match pid comm exe w st = None \<longleftrightarrow>
      (\<forall>r \<in> set (rules st). \<not> rule_covers r pid comm exe))"
proof -
  let ?P = "\<lambda>r. rule_covers r pid comm exe"
  have m: "rw_whitelist_match pid comm exe w st =
      map_option (\<lambda>j. rule_why w j (rules st ! j)) (find_idx ?P (rules st))"
    by (simp add: rw_whitelist_match_def match_loop_find)
  have uniq: "find_idx ?P (rules st) = Some i \<longleftrightarrow>
      i < length (rules st) \<and> ?P (rules st ! i) \<and> (\<forall>j<i. \<not> ?P (rules st ! j))" for i
  proof
    assume r: "i < length (rules st) \<and> ?P (rules st ! i) \<and> (\<forall>j<i. \<not> ?P (rules st ! j))"
    then obtain k where k: "find_idx ?P (rules st) = Some k"
      using find_idx_None[of ?P "rules st"] nth_mem by (cases "find_idx ?P (rules st)") auto
    from find_idx_Some[OF k] r have "k = i" by (metis linorder_neqE_nat)
    with k show "find_idx ?P (rules st) = Some i" by simp
  qed (rule find_idx_Some)
  show ?thesis unfolding m by (auto simp: uniq find_idx_None)
qed

lemma whitelist_first_match_witness:
  "rw_whitelist_match 7 (Some ''Firefox-bin'') None 64
     \<lparr>rules = add_builtin_rules [], wl_path = [], last_mtime = 0, loaded = True, last_check = 0\<rparr>
   = Some ''rule_index=0 type=1 value=firefox''"
  (is "?m = _")
proof -
  have "?m = Some (rule_why 64 0 (add_builtin_rules [] ! 0))"
    using whitelist_first_match[of 7 "Some ''Firefox-bin''" None 64
        "\<lparr>rules = add_builtin_rules [], wl_path = [], last_mtime = 0, loaded = True, last_check = 0\<rparr>"]
    by (auto simp: rule_covers.simps add_builtin_rules_def builtin_rules_def add_rule_def
        RW_MAX_WHITELIST_RULES_def RW_WHITELIST_VALUE_MAX_def sublist_Cons_right)
  then show ?thesis
    by (simp add: add_builtin_rules_def builtin_rules_def add_rule_def RW_MAX_WHITELIST_RULES_def
        RW_WHITELIST_VALUE_MAX_def rule_why_def show_nat_def show_base.simps digit_char_def)
qed

lemma wl_builtin_first:
  assumes "(wl_step path_len cfg)\<^sup>*\<^sup>* wl_start st" "wl_enabled cfg \<and> loaded st"
  shows "\<exists>rest. rules st =
          map (\<lambda>v. \<lparr>rl_type = WL_COMM_CONTAINS, rl_value = v, rl_pid = 0\<rparr>)
            [''firefox'', ''Web Content'', ''Isolated Web Co'', ''chrome'', ''chromium'']
          @ map (\<lambda>v. \<lparr>rl_type = WL_EXE_CONTAINS, rl_value = v, rl_pid = 0\<rparr>) [''/firefox'', ''/chrome'', ''/chromium'']
          @ rest"
  using wl_reach_inv[OF assms(1)] assms(2)
  by (auto simp: wl_inv_def prefix_def add_builtin_rules_def builtin_rules_def add_rule_def
      RW_MAX_WHITELIST_RULES_def RW_WHITELIST_VALUE_MAX_def)

lemma tolower_texts:
  "map tolower ''firefox'' = ''firefox''" "map tolower ''Web Content'' = ''web content''"
  "map tolower ''Isolated Web Co'' = ''isolated web co''" "map tolower ''chrome'' = ''chrome''"
  "map tolower ''chromium'' = ''chromium''" "map tolower ''/firefox'' = ''/firefox''"
  "map tolower ''/chrome'' = ''/chrome''" "map tolower ''/chromium'' = ''/chromium''"
  by code_simp+

text \<open>C36. Whatever the program does to the whitelist (start, any number of polls with any files and
  clocks, shutdown): the table never holds more than 256 rules or a rule whose value does not fit;
  a rule other than a pid rule never has the empty value that would cover every process; while the
  whitelist is off nothing is covered; while it is on and loaded, the table starts with the eight built-in
  browser rules whatever the file says, so every process whose name or path contains one of their texts, in
  any case, is covered, and a name with \<open>firefox\<close> in it by rule 0.\<close>

theorem whitelist_reachable:
  assumes "(wl_step path_len cfg)\<^sup>*\<^sup>* wl_start st"
  shows "wl_rules_ok (rules st)
     \<and> (\<not> wl_enabled cfg \<longrightarrow> rw_whitelist_match pid comm exe w st = None)
     \<and> (wl_enabled cfg \<and> loaded st \<and> (\<exists>c. comm = Some c \<and> sublist ''firefox'' (map tolower c))
          \<longrightarrow> rw_whitelist_match pid comm exe w st = Some (cstr_copy w ''rule_index=0 type=1 value=firefox''))
     \<and> (wl_enabled cfg \<and> loaded st \<longrightarrow> (\<exists>rest. rules st =
          map (\<lambda>v. \<lparr>rl_type = WL_COMM_CONTAINS, rl_value = v, rl_pid = 0\<rparr>)
            [''firefox'', ''Web Content'', ''Isolated Web Co'', ''chrome'', ''chromium'']
          @ map (\<lambda>v. \<lparr>rl_type = WL_EXE_CONTAINS, rl_value = v, rl_pid = 0\<rparr>) [''/firefox'', ''/chrome'', ''/chromium'']
          @ rest))
     \<and> (wl_enabled cfg \<and> loaded st
        \<and> ((\<exists>c. comm = Some c \<and> (\<exists>v\<in>{''firefox'', ''web content'', ''isolated web co'', ''chrome'', ''chromium''}.
                sublist v (map tolower c)))
            \<or> (\<exists>p. exe = Some p \<and> (\<exists>v\<in>{''/firefox'', ''/chrome'', ''/chromium''}. sublist v (map tolower p))))
          \<longrightarrow> rw_whitelist_match pid comm exe w st \<noteq> None)"
proof (intro conjI impI)
  from wl_reach_inv[OF assms] have inv: "wl_inv cfg st" .
  show "wl_rules_ok (rules st)" using inv by (simp add: wl_inv_def)
  show "rw_whitelist_match pid comm exe w st = None" if "\<not> wl_enabled cfg"
    using inv that by (simp add: wl_inv_def rw_whitelist_match_def)
  assume a: "wl_enabled cfg \<and> loaded st \<and> (\<exists>c. comm = Some c \<and> sublist ''firefox'' (map tolower c))"
  then have "prefix (add_builtin_rules []) (rules st)" using inv by (simp add: wl_inv_def)
  then obtain rs where "rules st = \<lparr>rl_type = WL_COMM_CONTAINS, rl_value = ''firefox'', rl_pid = 0\<rparr> # rs"
    by (auto simp: prefix_def add_builtin_rules_def builtin_rules_def add_rule_def
        RW_MAX_WHITELIST_RULES_def RW_WHITELIST_VALUE_MAX_def)
  then show "rw_whitelist_match pid comm exe w st = Some (cstr_copy w ''rule_index=0 type=1 value=firefox'')"
    using a by (auto simp: rw_whitelist_match_def rule_matches_covers rule_covers.simps rule_why_def
        show_nat_def show_base.simps digit_char_def)
next
  assume "wl_enabled cfg \<and> loaded st"
  then show "\<exists>rest. rules st =
          map (\<lambda>v. \<lparr>rl_type = WL_COMM_CONTAINS, rl_value = v, rl_pid = 0\<rparr>)
            [''firefox'', ''Web Content'', ''Isolated Web Co'', ''chrome'', ''chromium'']
          @ map (\<lambda>v. \<lparr>rl_type = WL_EXE_CONTAINS, rl_value = v, rl_pid = 0\<rparr>) [''/firefox'', ''/chrome'', ''/chromium'']
          @ rest" by (rule wl_builtin_first[OF assms])
next
  assume a: "wl_enabled cfg \<and> loaded st
        \<and> ((\<exists>c. comm = Some c \<and> (\<exists>v\<in>{''firefox'', ''web content'', ''isolated web co'', ''chrome'', ''chromium''}.
                sublist v (map tolower c)))
            \<or> (\<exists>p. exe = Some p \<and> (\<exists>v\<in>{''/firefox'', ''/chrome'', ''/chromium''}. sublist v (map tolower p))))"
  then obtain rest where r: "rules st =
          map (\<lambda>v. \<lparr>rl_type = WL_COMM_CONTAINS, rl_value = v, rl_pid = 0\<rparr>)
            [''firefox'', ''Web Content'', ''Isolated Web Co'', ''chrome'', ''chromium'']
          @ map (\<lambda>v. \<lparr>rl_type = WL_EXE_CONTAINS, rl_value = v, rl_pid = 0\<rparr>) [''/firefox'', ''/chrome'', ''/chromium'']
          @ rest" using wl_builtin_first[OF assms] by blast
  have "\<exists>q\<in>set (rules st). rule_covers q pid comm exe"
    unfolding r using a by (auto simp: rule_covers.simps tolower_texts)
  then show "rw_whitelist_match pid comm exe w st \<noteq> None"
    by (auto simp: rw_whitelist_match_def match_loop_find find_idx_None)
qed

lemma whitelist_reachable_witness:
  "rw_whitelist_match 7 (Some ''firefox'') None 64
     (rw_whitelist_init 16 (Some default_config) None None wl_start)
   = Some ''rule_index=0 type=1 value=firefox''
   \<and> rw_whitelist_match 7 (Some ''sh'') (Some ''/opt/Chromium/run'') 64
     (rw_whitelist_init 16 (Some default_config) None None wl_start) \<noteq> None"
proof -
  let ?st = "rw_whitelist_init 16 (Some default_config) None None wl_start"
  have "(wl_step 16 (Some default_config))\<^sup>*\<^sup>* wl_start ?st"
    by (rule r_into_rtranclp) (rule wl_init)
  note P = whitelist_reachable[OF this]
  have on: "wl_enabled (Some default_config) \<and> loaded ?st"
    by (simp add: wl_enabled_def default_config_def rw_whitelist_init_def reload_rules_def reset_rules_def)
  have "map tolower ''/opt/Chromium/run'' = ''/opt'' @ ''/chromium'' @ ''/run''" by code_simp
  then have "sublist ''/chromium'' (map tolower ''/opt/Chromium/run'')" by (simp only: sublist_appendI)
  then show ?thesis
    using P[of 7 "Some ''firefox''" None 64] P[of 7 "Some ''sh''" "Some ''/opt/Chromium/run''" 64] on
      tolower_texts(1) by auto
qed

text \<open>Reloading: within five seconds of the last check a poll changes nothing; after that, a file
  whose modification time is not the one last loaded replaces the whole table by the built-in rules
  and the file's rules, whatever was loaded before; and once a file has been loaded, further polls
  that see the same modification time, or no file at all, keep its rules.\<close>

theorem whitelist_poll_refresh:
  assumes "enable_whitelist c" "5 \<le> now - last_check st" "t \<noteq> last_mtime st \<or> \<not> loaded st"
  shows "let st' = rw_whitelist_poll n (Some c) now (Some t) content st;
             fresh = snd (load_file content (add_builtin_rules []))
         in rules st' = fresh
          \<and> (now' - now < 5 \<longrightarrow> rw_whitelist_poll n (Some c) now' mt' content' st' = st')
          \<and> (mt' = Some t \<or> mt' = None \<longrightarrow>
               rules (rw_whitelist_poll n (Some c) now' mt' content' st') = fresh)"
  using assms by (auto simp: rw_whitelist_poll_def reload_rules_def Let_def)

lemma whitelist_poll_refresh_witness:
  "rules (rw_whitelist_poll 16 (Some default_config) 12 None None
     (rw_whitelist_poll 16 (Some default_config) 6 (Some 100) (Some ''exe=/bin/a'') wl_start))
   = add_builtin_rules [] @ [\<lparr>rl_type = WL_EXE_EXACT, rl_value = ''/bin/a'', rl_pid = 0\<rparr>]"
proof -
  have "fgets_lines 1024 ''exe=/bin/a'' = [''exe=/bin/a'']"
    by (simp add: fgets_lines_def fgets_raw.simps c_str_def newline_def numeral_eq_Suc)
  then have "snd (load_file (Some ''exe=/bin/a'') (add_builtin_rules [])) =
      add_builtin_rules [] @ [\<lparr>rl_type = WL_EXE_EXACT, rl_value = ''/bin/a'', rl_pid = 0\<rparr>]"
    by (simp add: load_file_def parse_rule_line_def trim_def add_rule_def add_builtin_rules_def
        builtin_rules_def RW_MAX_WHITELIST_RULES_def RW_WHITELIST_VALUE_MAX_def)
  moreover have "enable_whitelist default_config" by (simp add: default_config_def)
  ultimately show ?thesis
    using whitelist_poll_refresh[where c = default_config and now = 6 and st = wl_start and t = 100
        and n = 16 and content = "Some ''exe=/bin/a''" and now' = 12 and mt' = None
        and content' = None]
    by (simp add: wl_start_def Let_def)
qed

end
