(* ===== verification/Score.thy ===== *)
theory Score
  imports Event Whitelist
begin

unbundle bit_operations_syntax

section \<open>Risk scores (\<open>core/score.c\<close>)\<close>

text \<open>
  What the program knows about the risk of a process: five category scores that decay, the set of
  findings seen, a floor that some findings impose, the bonus of findings that occur together, and
  the score that is computed from them. The header that declares \<open>rw_proc_score_t\<close> and
  \<open>rw_risk_category_t\<close> is not in the repository; the record below has the members that the code
  uses, and the enumerators are in the order of the switch in \<open>category_name\<close>. The part of
  \<open>rw_score_add\<close> that talks to the cases is in theory \<open>Cases\<close>.
\<close>

definition RW_MAX_PROCS :: nat where
  "RW_MAX_PROCS = 4096"

definition RW_DECAY_SECONDS :: int where
  "RW_DECAY_SECONDS = 30"

datatype risk = Memory | Network | Process | Filesystem | Lineage_risk

text \<open>The enumerators as the integers they are in C, which orders them.\<close>

fun risk_code :: "risk \<Rightarrow> nat" where
  "risk_code Memory = 0"
| "risk_code Network = 1"
| "risk_code Process = 2"
| "risk_code Filesystem = 3"
| "risk_code Lineage_risk = 4"

instantiation risk :: linorder
begin

definition less_eq_risk :: "risk \<Rightarrow> risk \<Rightarrow> bool" where
  "less_eq_risk a b \<longleftrightarrow> risk_code a \<le> risk_code b"

definition less_risk :: "risk \<Rightarrow> risk \<Rightarrow> bool" where
  "less_risk a b \<longleftrightarrow> risk_code a < risk_code b"

instance
proof
  fix a b :: risk
  show "a \<le> b \<Longrightarrow> b \<le> a \<Longrightarrow> a = b"
    by (cases a; cases b) (simp_all add: less_eq_risk_def)
qed (auto simp: less_eq_risk_def less_risk_def)

end

definition risks :: "risk list" where
  "risks = [Memory, Network, Process, Filesystem, Lineage_risk]"

lemma risks_all: "set risks = UNIV" "sorted risks" "distinct risks"
  by (auto simp: risks_def less_eq_risk_def) (metis risk.exhaust)

fun category_name :: "risk \<Rightarrow> string" where
  "category_name Memory = ''memory''"
| "category_name Network = ''network''"
| "category_name Process = ''process''"
| "category_name Filesystem = ''filesystem''"
| "category_name Lineage_risk = ''lineage''"

type_synonym flags = "64 word"

definition F_RWX :: flags where "F_RWX = push_bit 0 1"
definition F_MEMFD :: flags where "F_MEMFD = push_bit 1 1"
definition F_NOP :: flags where "F_NOP = push_bit 2 1"
definition F_BEACON :: flags where "F_BEACON = push_bit 3 1"
definition F_RAW_SOCKET :: flags where "F_RAW_SOCKET = push_bit 4 1"
definition F_SYNSCAN :: flags where "F_SYNSCAN = push_bit 5 1"
definition F_TMP_EXEC :: flags where "F_TMP_EXEC = push_bit 6 1"
definition F_PTRACE :: flags where "F_PTRACE = push_bit 7 1"
definition F_PROCESS_VM :: flags where "F_PROCESS_VM = push_bit 8 1"
definition F_PE_ELF :: flags where "F_PE_ELF = push_bit 9 1"
definition F_SUSPICIOUS_FILE :: flags where "F_SUSPICIOUS_FILE = push_bit 10 1"
definition F_EXEC_MEMORY :: flags where "F_EXEC_MEMORY = push_bit 11 1"

record score_event =
  se_ts :: time
  se_points :: int
  se_total :: int
  se_category_score :: int
  se_bonus :: int
  se_category :: string
  se_reason :: string

record score =
  ps_pid :: pid
  ps_comm :: string
  ps_exe :: string
  ps_score :: int
  ps_peak :: int
  ps_first_seen :: time
  ps_last_seen :: time
  ps_last_decay :: time
  ps_category :: "risk \<Rightarrow> int"
  ps_flags :: flags
  ps_floor :: int
  ps_bonus :: int
  ps_case_opened :: bool
  ps_events :: "score_event list"

record scoring = eventlog +
  wl :: wl_state
  scores :: "score list"

subsection \<open>Classification\<close>

definition clamp_int :: "int \<Rightarrow> int \<Rightarrow> int \<Rightarrow> int" where
  "clamp_int v low high = (if v < low then low else if v > high then high else v)"

text \<open>\<open>has x n\<close>: the pointer \<open>x\<close>, which may be NULL, contains \<open>n\<close> in any case.\<close>

abbreviation has :: "string option \<Rightarrow> string \<Rightarrow> bool" where
  "has x n \<equiv> contains_ci x (Some n)"

definition is_browser_like :: "string option \<Rightarrow> string option \<Rightarrow> bool" where
  "is_browser_like comm exe \<longleftrightarrow>
     has comm ''firefox'' \<or> has comm ''chrome'' \<or> has comm ''chromium'' \<or> has comm ''web content''
     \<or> has comm ''isolated web'' \<or> has exe ''/firefox'' \<or> has exe ''/chrome'' \<or> has exe ''/chromium''"

definition classify_category :: "string option \<Rightarrow> string option \<Rightarrow> risk" where
  "classify_category category reason =
     (if has category ''mem'' \<or> has category ''inject'' \<or> has reason ''rwx'' \<or> has reason ''memfd''
         \<or> has reason ''nop'' \<or> has reason ''elf'' \<or> has reason ''pe header'' then Memory
      else if has category ''net'' \<or> has category ''tcp'' \<or> has category ''connect''
         \<or> has category ''raw_socket'' \<or> has category ''packet_socket'' \<or> has category ''synscan''
         \<or> has reason ''beacon'' \<or> has reason ''socket'' then Network
      else if has category ''file'' \<or> has reason ''chmod'' \<or> has reason ''/tmp/''
         \<or> has reason ''/dev/shm/'' then Filesystem
      else if has category ''lineage'' \<or> has reason ''parent'' \<or> has reason ''child''
         \<or> has reason ''process tree'' then Lineage_risk
      else Process)"

definition classify_flags :: "string option \<Rightarrow> string option \<Rightarrow> flags" where
  "classify_flags category reason =
     (let f = 0;
          f = (if has reason ''rwx'' then f OR (F_RWX OR F_EXEC_MEMORY) else f);
          f = (if has reason ''memfd'' then f OR (F_MEMFD OR F_EXEC_MEMORY) else f);
          f = (if has reason ''nop'' \<or> has reason ''shellcode'' then f OR F_NOP else f);
          f = (if has reason ''beacon'' \<or> has reason ''reconnect'' \<or> has category ''connect''
               then f OR F_BEACON else f);
          f = (if has category ''raw_socket'' \<or> has reason ''raw'' then f OR F_RAW_SOCKET else f);
          f = (if has category ''packet_socket'' \<or> has reason ''packet'' then f OR F_RAW_SOCKET else f);
          f = (if has category ''synscan'' \<or> has reason ''syn_sent'' \<or> has reason ''scan''
               then f OR F_SYNSCAN else f);
          f = (if has reason ''/tmp/'' \<or> has reason ''/dev/shm/'' \<or> has reason ''temporary''
               then f OR (F_TMP_EXEC OR F_SUSPICIOUS_FILE) else f);
          f = (if has reason ''ptrace'' \<or> has category ''ptrace'' then f OR F_PTRACE else f);
          f = (if has reason ''process_vm'' \<or> has category ''process_vm'' then f OR F_PROCESS_VM else f)
      in if has reason ''elf header'' \<or> has reason ''pe header''
         then f OR (F_PE_ELF OR F_EXEC_MEMORY) else f)"

definition default_floor_for_finding :: "string option \<Rightarrow> string option \<Rightarrow> int \<Rightarrow> int" where
  "default_floor_for_finding category reason points =
     (if has reason ''process is being ptraced'' \<or> has reason ''ptrace'' then 90
      else if has category ''raw_socket'' \<or> has category ''packet_socket'' then 90
      else if has reason ''process_vm_writev'' then 85
      else if has reason ''executable memfd'' then 78
      else if has reason ''rwx'' then 75
      else if has reason ''nop'' \<or> has reason ''shellcode'' then 70
      else if points \<ge> 90 then 80
      else 0)"

text \<open>C's division truncates; the points are positive here, where it agrees with \<open>div\<close>.\<close>

definition normalized_points :: "score \<Rightarrow> risk \<Rightarrow> string option \<Rightarrow> string option \<Rightarrow> int \<Rightarrow> int" where
  "normalized_points p cat category reason points =
     (let out = points;
          out = (if has category ''ebpf_connect'' \<and> points > 25 then 25 else out);
          out = (if is_browser_like (Some (ps_comm p)) (Some (ps_exe p)) \<and> cat = Memory
                    \<and> (has reason ''mmap'' \<or> has reason ''prot_exec'') then out div 3 else out);
          out = (if out < 1 then 1 else out)
      in if out > 100 then 100 else out)"

subsection \<open>The score\<close>

definition has_flags :: "flags \<Rightarrow> flags \<Rightarrow> bool" where
  "has_flags have fl \<longleftrightarrow> have AND fl = fl"

definition add_bonus :: "flags \<Rightarrow> flags \<Rightarrow> int \<Rightarrow> int \<Rightarrow> int" where
  "add_bonus have fl points bonus = (if has_flags have fl then bonus + points else bonus)"

definition compute_correlation_bonus :: "flags \<Rightarrow> int" where
  "compute_correlation_bonus have =
     (let bonus = 0;
          bonus = add_bonus have (F_MEMFD OR F_NOP) 25 bonus;
          bonus = add_bonus have (F_EXEC_MEMORY OR F_BEACON) 20 bonus;
          bonus = add_bonus have (F_RWX OR F_RAW_SOCKET) 25 bonus;
          bonus = add_bonus have (F_TMP_EXEC OR F_BEACON) 20 bonus;
          bonus = add_bonus have (F_RAW_SOCKET OR F_SYNSCAN) 20 bonus;
          bonus = add_bonus have (F_PTRACE OR F_PROCESS_VM) 25 bonus;
          bonus = add_bonus have (F_TMP_EXEC OR F_EXEC_MEMORY) 15 bonus;
          bonus = add_bonus have (F_PE_ELF OR F_RWX) 15 bonus
      in clamp_int bonus 0 60)"

definition compute_weighted_score :: "(risk \<Rightarrow> int) \<Rightarrow> int" where
  "compute_weighted_score cs =
     (let weighted = cs Memory * 30 + cs Network * 25 + cs Process * 20 + cs Filesystem * 15
                     + cs Lineage_risk * 10;
          weighted = weighted div 100;
          max_cat = fold (\<lambda>c m. if cs c > m then cs c else m) risks 0;
          weighted = (if max_cat * 85 div 100 > weighted then max_cat * 85 div 100 else weighted)
      in clamp_int weighted 0 100)"

definition recompute_score :: "score \<Rightarrow> score" where
  "recompute_score p =
     (let p = p\<lparr>ps_bonus := compute_correlation_bonus (ps_flags p)\<rparr>;
          final = compute_weighted_score (ps_category p) + ps_bonus p;
          final = (if ps_floor p > final then ps_floor p else final);
          p = p\<lparr>ps_score := clamp_int final 0 100\<rparr>
      in if ps_score p > ps_peak p then p\<lparr>ps_peak := ps_score p\<rparr> else p)"

subsection \<open>Decay\<close>

definition decay_value :: "int \<Rightarrow> int" where
  "decay_value v = (if v > 0 then clamp_int (v - 1) 0 100 else v)"

definition decay_once :: "score \<Rightarrow> score" where
  "decay_once p = p\<lparr>ps_category := (\<lambda>c. decay_value (ps_category p c)),
                    ps_floor := decay_value (ps_floor p),
                    ps_last_decay := ps_last_decay p + RW_DECAY_SECONDS\<rparr>"

function decay_loop :: "time \<Rightarrow> score \<Rightarrow> score" where
  "decay_loop now p =
     (if now - ps_last_decay p \<ge> RW_DECAY_SECONDS then decay_loop now (decay_once p) else p)"
  by pat_completeness auto
termination
  by (relation "measure (\<lambda>(now, p). nat (now - ps_last_decay p))")
     (auto simp: decay_once_def RW_DECAY_SECONDS_def)

declare decay_loop.simps [simp del]

text \<open>\<open>decay_proc\<close> asks for the time only when the entry has a time of its last decay.\<close>

definition decay_proc :: "os \<Rightarrow> nat \<Rightarrow> 'a scoring_scheme \<Rightarrow> 'a scoring_scheme" where
  "decay_proc w i s =
     (if ps_last_decay (scores s ! i) = 0 then s
      else (let (now, s1) = sys_time w s
            in s1\<lparr>scores := (scores s1)[i := decay_loop now (scores s1 ! i)]\<rparr>))"

definition rw_score_decay_all :: "os \<Rightarrow> 'a scoring_scheme \<Rightarrow> 'a scoring_scheme" where
  "rw_score_decay_all w s = fold (decay_proc w) [0..<length (scores s)] s"

subsection \<open>The table of processes\<close>

definition find_proc :: "pid \<Rightarrow> score list \<Rightarrow> nat option" where
  "find_proc pid ps = find_idx (\<lambda>p. ps_pid p = pid) ps"

definition new_score :: "limits \<Rightarrow> pid \<Rightarrow> time \<Rightarrow> string option \<Rightarrow> string \<Rightarrow> score" where
  "new_score L pid now comm exe =
     \<lparr>ps_pid = pid, ps_comm = cstr_copy (score_comm_len L) (str_or comm ''<unknown>''), ps_exe = exe,
      ps_score = 0, ps_peak = 0, ps_first_seen = now, ps_last_seen = now, ps_last_decay = now,
      ps_category = (\<lambda>_. 0), ps_flags = 0, ps_floor = 0, ps_bonus = 0, ps_case_opened = False,
      ps_events = []\<rparr>"

text \<open>\<open>create_proc\<close> on the table alone: the data are the limits, the time, the name and the path.\<close>

definition append_score ::
  "pid \<Rightarrow> limits \<times> time \<times> string option \<times> string \<Rightarrow> score list \<Rightarrow> (score list \<times> nat) option" where
  "append_score pid c ps = (case c of (L, now, comm, exe) \<Rightarrow>
     if length ps \<ge> RW_MAX_PROCS then None else Some (ps @ [new_score L pid now comm exe], length ps))"

definition create_proc ::
  "limits \<Rightarrow> os \<Rightarrow> pid \<Rightarrow> string option \<Rightarrow> string option \<Rightarrow> 'a scoring_scheme
     \<Rightarrow> nat option \<times> 'a scoring_scheme" where
  "create_proc L w pid comm exe s =
     (if length (scores s) \<ge> RW_MAX_PROCS then (None, s)
      else (let (now, s1) = sys_time w s;
                (path, s2) = (if nonempty_str exe then (cstr_copy (score_exe_len L) (the exe), s1)
                              else rw_read_exe_path w pid (score_exe_len L) s1)
            in case append_score pid (L, now, comm, path) (scores s2) of
                 None \<Rightarrow> (None, s2)
               | Some (ps, i) \<Rightarrow> (Some i, s2\<lparr>scores := ps\<rparr>)))"

definition rw_score_init :: "'a scoring_scheme \<Rightarrow> 'a scoring_scheme" where
  "rw_score_init s = s\<lparr>scores := []\<rparr>"

definition rw_score_get :: "pid \<Rightarrow> 'a scoring_scheme \<Rightarrow> score option" where
  "rw_score_get pid s = map_option (\<lambda>i. scores s ! i) (find_proc pid (scores s))"

subsection \<open>One finding\<close>

text \<open>What \<open>rw_score_add\<close> keeps in locals for its messages.\<close>

record finding =
  fi_cat :: risk
  fi_before :: int
  fi_points :: int
  fi_whitelisted :: bool
  fi_why :: string

definition clamp_percent :: "int \<Rightarrow> int" where
  "clamp_percent percent = (let p = (if percent < 0 then 0 else percent) in if p > 100 then 100 else p)"

text \<open>The new command name and path, when the caller knows them.\<close>

definition rename_proc :: "limits \<Rightarrow> string option \<Rightarrow> string option \<Rightarrow> score \<Rightarrow> score" where
  "rename_proc L comm exe p =
     (let p = (if nonempty_str comm then p\<lparr>ps_comm := cstr_copy (score_comm_len L) (the comm)\<rparr> else p)
      in if nonempty_str exe \<and> exe \<noteq> Some ''<unknown>''
         then p\<lparr>ps_exe := cstr_copy (score_exe_len L) (the exe)\<rparr> else p)"

definition weigh_finding ::
  "rw_config option \<Rightarrow> wl_state \<Rightarrow> pid \<Rightarrow> string option \<Rightarrow> string option \<Rightarrow> int \<Rightarrow> score
     \<Rightarrow> finding \<times> int" where
  "weigh_finding cfg wlst pid category reason points p =
     (let cat = classify_category category reason;
          normalized = normalized_points p cat category reason points;
          floor = default_floor_for_finding category reason points;
          f = \<lparr>fi_cat = cat, fi_before = ps_score p, fi_points = normalized, fi_whitelisted = False,
               fi_why = []\<rparr>
      in case cfg of
           None \<Rightarrow> (f, floor)
         | Some c \<Rightarrow>
             if \<not> enable_whitelist c then (f, floor)
             else (case rw_whitelist_match pid (Some (ps_comm p)) (Some (ps_exe p)) 256 wlst of
                     None \<Rightarrow> (f, floor)
                   | Some why \<Rightarrow>
                       let percent = clamp_percent (whitelist_score_percent c);
                           n = normalized * percent div 100
                       in (f\<lparr>fi_points := (if n < 1 then 1 else n), fi_whitelisted := True, fi_why := why\<rparr>,
                           floor * percent div 100)))"

definition apply_finding :: "finding \<Rightarrow> int \<Rightarrow> flags \<Rightarrow> time \<Rightarrow> score \<Rightarrow> score" where
  "apply_finding f floor fl now p =
     (let p = p\<lparr>ps_category := (ps_category p)(fi_cat f :=
                  clamp_int (ps_category p (fi_cat f) + fi_points f) 0 100)\<rparr>;
          p = p\<lparr>ps_flags := ps_flags p OR fl\<rparr>;
          p = (if floor > ps_floor p then p\<lparr>ps_floor := floor\<rparr> else p);
          p = p\<lparr>ps_last_seen := now\<rparr>
      in recompute_score p)"

definition record_event :: "limits \<Rightarrow> finding \<Rightarrow> string option \<Rightarrow> string option \<Rightarrow> score \<Rightarrow> score" where
  "record_event L f category reason p =
     (if length (ps_events p) < score_max_events L
      then p\<lparr>ps_events := ps_events p @
              [\<lparr>se_ts = ps_last_seen p, se_points = fi_points f, se_total = ps_score p,
                se_category_score = ps_category p (fi_cat f), se_bonus = ps_bonus p,
                se_category = cstr_copy (ev_category_len L) (str_or category (category_name (fi_cat f))),
                se_reason = cstr_copy (ev_reason_len L) (str_or reason ''unknown'')\<rparr>]\<rparr>
      else p)"

definition upd_score :: "nat \<Rightarrow> (score \<Rightarrow> score) \<Rightarrow> 'a scoring_scheme \<Rightarrow> 'a scoring_scheme" where
  "upd_score i f s = s\<lparr>scores := (scores s)[i := f (scores s ! i)]\<rparr>"

text \<open>
  The entry of a process, found or created; then, for the entry at an index, the middle of
  \<open>rw_score_add\<close>: decay, names, weight of the finding, new score, event.
\<close>

definition get_or_create_proc ::
  "limits \<Rightarrow> os \<Rightarrow> pid \<Rightarrow> string option \<Rightarrow> string option \<Rightarrow> 'a scoring_scheme
     \<Rightarrow> nat option \<times> 'a scoring_scheme" where
  "get_or_create_proc L w pid comm exe s =
     (case find_proc pid (scores s) of Some i \<Rightarrow> (Some i, s) | None \<Rightarrow> create_proc L w pid comm exe s)"

definition score_finding ::
  "limits \<Rightarrow> os \<Rightarrow> rw_config option \<Rightarrow> pid \<Rightarrow> string option \<Rightarrow> string option \<Rightarrow> string option
     \<Rightarrow> string option \<Rightarrow> int \<Rightarrow> nat \<Rightarrow> 'a scoring_scheme \<Rightarrow> finding \<times> 'a scoring_scheme" where
  "score_finding L w cfg pid comm exe category reason points i s =
     (let s1 = upd_score i (rename_proc L comm exe) (decay_proc w i s);
          (f, floor) = weigh_finding cfg (wl s1) pid category reason points (scores s1 ! i);
          (now, s2) = sys_time w s1;
          s3 = upd_score i (apply_finding f floor (classify_flags category reason) now) s2
      in (f, upd_score i (record_event L f category reason) s3))"

subsection \<open>Messages\<close>

text \<open>The three texts that \<open>rw_score_add\<close> formats, for the entry \<open>p\<close> after the finding.\<close>

definition kv :: "string \<Rightarrow> int \<Rightarrow> string" where
  "kv k v = k @ ''='' @ show_int v @ '' ''"

definition bit_int :: "bool \<Rightarrow> int" where
  "bit_int b = (if b then 1 else 0)"

definition why_or_none :: "finding \<Rightarrow> string" where
  "why_or_none f = (if fi_why f \<noteq> [] then fi_why f else ''none'')"

definition weights_text :: "finding \<Rightarrow> score \<Rightarrow> string" where
  "weights_text f p = ''bucket='' @ category_name (fi_cat f) @ '' ''
     @ kv ''bucket_score'' (ps_category p (fi_cat f)) @ kv ''corr'' (ps_bonus p)
     @ kv ''floor'' (ps_floor p) @ kv ''whitelisted'' (bit_int (fi_whitelisted f))
     @ ''whitelist_reason='' @ why_or_none f"

definition score_log_text :: "pid \<Rightarrow> int \<Rightarrow> int \<Rightarrow> string option \<Rightarrow> string option \<Rightarrow> finding \<Rightarrow> score \<Rightarrow> string" where
  "score_log_text pid points threshold category reason f p =
     kv ''pid'' pid @ ''comm='' @ ps_comm p @ '' exe='' @ ps_exe p @ '' ''
     @ kv ''risk'' (ps_score p) @ kv ''peak'' (ps_peak p) @ kv ''delta'' (fi_points f)
     @ kv ''raw_points'' points @ kv ''before'' (fi_before f) @ kv ''threshold'' threshold
     @ weights_text f p @ '' category='' @ str_or category ''unknown''
     @ '' reason='' @ str_or reason ''unknown''"

definition score_event_text :: "int \<Rightarrow> int \<Rightarrow> string option \<Rightarrow> finding \<Rightarrow> score \<Rightarrow> string" where
  "score_event_text points threshold reason f p =
     kv ''risk'' (ps_score p) @ kv ''before'' (fi_before f) @ kv ''delta'' (fi_points f)
     @ kv ''raw_points'' points @ kv ''peak'' (ps_peak p) @ kv ''threshold'' threshold
     @ weights_text f p @ '' comm='' @ ps_comm p @ '' exe='' @ ps_exe p
     @ '' reason='' @ str_or reason ''unknown''"

definition score_case_text :: "int \<Rightarrow> string option \<Rightarrow> finding \<Rightarrow> score \<Rightarrow> string" where
  "score_case_text points reason f p =
     kv ''risk'' (ps_score p) @ kv ''delta'' (fi_points f) @ kv ''raw_points'' points
     @ kv ''peak'' (ps_peak p) @ weights_text f p @ '' comm='' @ ps_comm p @ '' exe='' @ ps_exe p
     @ '' reason='' @ str_or reason ''unknown''"

subsection \<open>The reports of a case\<close>

definition pad_right :: "nat \<Rightarrow> string \<Rightarrow> string" where
  "pad_right n s = s @ replicate (n - length s) (CHR '' '')"

definition write_correlation :: "flags \<Rightarrow> flags \<Rightarrow> string \<Rightarrow> int \<Rightarrow> string" where
  "write_correlation have fl txt bonus =
     (if has_flags have fl then ''  +'' @ show_int bonus @ '' '' @ txt @ [newline] else [])"

definition score_event_line :: "score_event \<Rightarrow> string" where
  "score_event_line ev =
     ''['' @ show_int (se_ts ev) @ ''] '' @ kv ''total'' (se_total ev) @ kv ''delta'' (se_points ev)
     @ kv ''category_score'' (se_category_score ev) @ kv ''corr'' (se_bonus ev)
     @ ''category='' @ se_category ev @ '' reason='' @ se_reason ev @ [newline]"

definition correlations_text :: "flags \<Rightarrow> string" where
  "correlations_text have =
     write_correlation have (F_MEMFD OR F_NOP) ''executable memfd + NOP/shellcode pattern'' 25
     @ write_correlation have (F_EXEC_MEMORY OR F_BEACON)
         ''executable memory anomaly + beacon/connect behavior'' 20
     @ write_correlation have (F_RWX OR F_RAW_SOCKET) ''RWX memory + raw/packet socket'' 25
     @ write_correlation have (F_TMP_EXEC OR F_BEACON)
         ''temporary-path execution + beacon/connect behavior'' 20
     @ write_correlation have (F_RAW_SOCKET OR F_SYNSCAN) ''raw/packet socket + scan-like behavior'' 20
     @ write_correlation have (F_PTRACE OR F_PROCESS_VM) ''ptrace + process_vm activity'' 25
     @ write_correlation have (F_TMP_EXEC OR F_EXEC_MEMORY)
         ''temporary-path artifact + executable memory'' 15
     @ write_correlation have (F_PE_ELF OR F_RWX) ''PE/ELF header in RWX/suspicious memory'' 15"

definition risk_summary_text :: "score \<Rightarrow> string" where
  "risk_summary_text p =
     ''pid='' @ show_int (ps_pid p) @ [newline] @ ''comm='' @ ps_comm p @ [newline]
     @ ''exe='' @ ps_exe p @ [newline] @ ''current_risk='' @ show_int (ps_score p) @ [newline]
     @ ''peak_risk='' @ show_int (ps_peak p) @ [newline]
     @ ''risk_floor='' @ show_int (ps_floor p) @ [newline]
     @ ''correlation_bonus='' @ show_int (ps_bonus p) @ [newline]
     @ ''finding_flags=0x'' @ show_hex (unat (ps_flags p)) @ [newline, newline]
     @ ''Category scores:'' @ [newline]
     @ concat (map (\<lambda>c. ''  '' @ pad_right 10 (category_name c) @ '' '' @ show_int (ps_category p c)
                        @ [newline]) risks)
     @ [newline] @ ''Correlations:'' @ [newline]
     @ correlations_text (ps_flags p)
     @ [newline] @ ''Recent score events:'' @ [newline]
     @ concat (map (\<lambda>ev. ''  '' @ score_event_line ev) (ps_events p))"

definition rw_score_write_case ::
  "limits \<Rightarrow> os \<Rightarrow> pid \<Rightarrow> string option \<Rightarrow> 'a scoring_scheme \<Rightarrow> int \<times> 'a scoring_scheme" where
  "rw_score_write_case L w pid case_dir s =
     (if \<not> nonempty_str case_dir then (-1, s)
      else case rw_score_get pid s of
             None \<Rightarrow> (-1, s)
           | Some p \<Rightarrow>
               (case path_in (max_path L) (the case_dir) ''risk_summary.txt'' of
                  None \<Rightarrow> (-1, s)
                | Some path \<Rightarrow>
                    (let (ok, s1) = sys_fopen_w w path s
                     in if \<not> ok then (-1, s1)
                        else (let s2 = fprintf_to path (risk_summary_text p) s1
                              in case path_in (max_path L) (the case_dir) ''score_timeline.log'' of
                                   None \<Rightarrow> (0, s2)
                                 | Some path2 \<Rightarrow>
                                     (0, write_if_open w path2
                                           (concat (map score_event_line (ps_events p))) s2)))))"


subsection \<open>Bounds\<close>

definition score_event_ok :: "limits \<Rightarrow> score_event \<Rightarrow> bool" where
  "score_event_ok L e \<longleftrightarrow> 1 \<le> se_points e \<and> se_points e \<le> 100 \<and> 0 \<le> se_total e \<and> se_total e \<le> 100
     \<and> length (se_category e) < ev_category_len L \<and> length (se_reason e) < ev_reason_len L"

definition score_ok :: "limits \<Rightarrow> score \<Rightarrow> bool" where
  "score_ok L p \<longleftrightarrow> (\<forall>c. 0 \<le> ps_category p c \<and> ps_category p c \<le> 100)
     \<and> 0 \<le> ps_floor p \<and> ps_floor p \<le> 100 \<and> 0 \<le> ps_bonus p \<and> ps_bonus p \<le> 60
     \<and> 0 \<le> ps_score p \<and> ps_score p \<le> ps_peak p \<and> ps_peak p \<le> 100
     \<and> length (ps_comm p) < score_comm_len L \<and> length (ps_exe p) < score_exe_len L
     \<and> length (ps_events p) \<le> score_max_events L \<and> list_all (score_event_ok L) (ps_events p)"

lemma clamp_int_bounds [bound_intros]: "lo \<le> hi \<Longrightarrow> lo \<le> clamp_int v lo hi \<and> clamp_int v lo hi \<le> hi"
  by (simp add: clamp_int_def)

lemma clamp_int_min_max: "lo \<le> hi \<Longrightarrow> clamp_int v lo hi = max lo (min hi v)"
  by (simp add: clamp_int_def)

lemma normalized_points_bounds: "1 \<le> normalized_points p c cat r n \<and> normalized_points p c cat r n \<le> 100"
  by (simp add: normalized_points_def Let_def)

lemma default_floor_bounds: "0 \<le> default_floor_for_finding c r n \<and> default_floor_for_finding c r n \<le> 90"
  by (simp add: default_floor_for_finding_def)

lemma clamp_percent_bounds: "0 \<le> clamp_percent q \<and> clamp_percent q \<le> 100"
  by (simp add: clamp_percent_def Let_def)

lemma percent_of_le:
  fixes v q :: int
  assumes "0 \<le> v" "0 \<le> q" "q \<le> 100"
  shows "0 \<le> v * q div 100" "v * q div 100 \<le> v"
proof -
  have "0 \<le> v * q" using assms by simp
  then show "0 \<le> v * q div 100" by (simp add: pos_imp_zdiv_nonneg_iff)
  have "v * q \<le> v * 100" using assms by (intro mult_left_mono) auto
  then have "v * q div 100 \<le> v * 100 div 100" by (rule zdiv_mono1) simp
  then show "v * q div 100 \<le> v" by simp
qed

text \<open>The weight of a finding is the plain one, or a percentage of it for a whitelisted process.\<close>

lemma weigh_finding_cases:
  assumes "weigh_finding cfg wlst pid category reason points p = (f, floor)"
  defines "n \<equiv> normalized_points p (classify_category category reason) category reason points"
    and "fl \<equiv> default_floor_for_finding category reason points"
  shows "fi_cat f = classify_category category reason \<and> fi_before f = ps_score p \<and>
     (fi_points f = n \<and> floor = fl
      \<or> (\<exists>q. 0 \<le> q \<and> q \<le> 100 \<and> fi_points f = max 1 (n * q div 100) \<and> floor = fl * q div 100))"
proof (cases "fi_whitelisted f")
  case False
  with assms(1) show ?thesis
    by (auto simp: weigh_finding_def Let_def n_def fl_def split: option.splits if_splits)
next
  case True
  with assms(1) obtain q where "q = clamp_percent (whitelist_score_percent (the cfg))"
    "fi_points f = max 1 (n * q div 100)" "floor = fl * q div 100"
    "fi_cat f = classify_category category reason" "fi_before f = ps_score p"
    by (auto simp: weigh_finding_def Let_def n_def fl_def max_def split: option.splits if_splits)
  with clamp_percent_bounds show ?thesis by blast
qed

lemma weigh_finding_bounds:
  assumes "weigh_finding cfg wlst pid category reason points p = (f, floor)"
  shows "fi_cat f = classify_category category reason" "fi_before f = ps_score p"
    "1 \<le> fi_points f" "fi_points f \<le> normalized_points p (fi_cat f) category reason points"
    "fi_points f \<le> 100"
    "0 \<le> floor" "floor \<le> default_floor_for_finding category reason points" "floor \<le> 90"
proof -
  let ?n = "normalized_points p (classify_category category reason) category reason points"
  let ?fl = "default_floor_for_finding category reason points"
  have b: "1 \<le> ?n" "?n \<le> 100" "0 \<le> ?fl" "?fl \<le> 90"
    using normalized_points_bounds default_floor_bounds by auto
  have pn: "0 \<le> ?n * q div 100 \<and> ?n * q div 100 \<le> ?n \<and> 0 \<le> ?fl * q div 100 \<and> ?fl * q div 100 \<le> ?fl"
    if "0 \<le> q" "q \<le> 100" for q
    using percent_of_le[of ?n q] percent_of_le[of ?fl q] b that by simp
  note c = weigh_finding_cases[OF assms]
  then show "fi_cat f = classify_category category reason" "fi_before f = ps_score p" by blast+
  have "1 \<le> fi_points f \<and> fi_points f \<le> ?n \<and> 0 \<le> floor \<and> floor \<le> ?fl"
  proof (cases "fi_points f = ?n \<and> floor = ?fl")
    case True
    with b show ?thesis by simp
  next
    case False
    with c obtain q where "0 \<le> q" "q \<le> 100" "fi_points f = max 1 (?n * q div 100)"
      "floor = ?fl * q div 100" by metis
    with pn[of q] b(1) show ?thesis by simp
  qed
  with b conjunct1[OF c] show "1 \<le> fi_points f" "fi_points f \<le> normalized_points p (fi_cat f) category reason points"
    "fi_points f \<le> 100" "0 \<le> floor" "floor \<le> ?fl" "floor \<le> 90" by auto
qed

lemma correlation_bonus_bounds: "0 \<le> compute_correlation_bonus fl \<and> compute_correlation_bonus fl \<le> 60"
  unfolding compute_correlation_bonus_def Let_def by (rule clamp_int_bounds) simp

lemma weighted_score_bounds: "0 \<le> compute_weighted_score cs \<and> compute_weighted_score cs \<le> 100"
  unfolding compute_weighted_score_def Let_def by (rule clamp_int_bounds) simp

lemma recompute_fields [simp]:
  "ps_pid (recompute_score p) = ps_pid p" "ps_comm (recompute_score p) = ps_comm p"
  "ps_exe (recompute_score p) = ps_exe p" "ps_category (recompute_score p) = ps_category p"
  "ps_flags (recompute_score p) = ps_flags p" "ps_floor (recompute_score p) = ps_floor p"
  "ps_last_decay (recompute_score p) = ps_last_decay p" "ps_events (recompute_score p) = ps_events p"
  "ps_case_opened (recompute_score p) = ps_case_opened p" "ps_last_seen (recompute_score p) = ps_last_seen p"
  "ps_bonus (recompute_score p) = compute_correlation_bonus (ps_flags p)"
  "ps_peak (recompute_score p) = max (ps_peak p) (ps_score (recompute_score p))"
  by (auto simp: recompute_score_def Let_def)

lemma recompute_score_value:
  "ps_score (recompute_score p) = clamp_int (max (ps_floor p)
     (compute_weighted_score (ps_category p) + compute_correlation_bonus (ps_flags p))) 0 100"
  by (simp add: recompute_score_def Let_def max_def)

lemma recompute_ok: "score_ok L p \<Longrightarrow> score_ok L (recompute_score p)"
  using correlation_bonus_bounds[of "ps_flags p"]
    clamp_int_bounds[of 0 100 "max (ps_floor p) (compute_weighted_score (ps_category p)
       + compute_correlation_bonus (ps_flags p))"]
  unfolding score_ok_def by (simp add: recompute_score_value)

lemma apply_finding_fields [simp]:
  "ps_pid (apply_finding f fl x t p) = ps_pid p" "ps_comm (apply_finding f fl x t p) = ps_comm p"
  "ps_exe (apply_finding f fl x t p) = ps_exe p"
  "ps_category (apply_finding f fl x t p) =
     (ps_category p)(fi_cat f := clamp_int (ps_category p (fi_cat f) + fi_points f) 0 100)"
  "ps_flags (apply_finding f fl x t p) = ps_flags p OR x"
  "ps_floor (apply_finding f fl x t p) = max (ps_floor p) fl"
  "ps_last_decay (apply_finding f fl x t p) = ps_last_decay p"
  "ps_events (apply_finding f fl x t p) = ps_events p"
  "ps_last_seen (apply_finding f fl x t p) = t"
  "ps_case_opened (apply_finding f fl x t p) = ps_case_opened p"
  "ps_bonus (apply_finding f fl x t p) = compute_correlation_bonus (ps_flags p OR x)"
  by (simp_all add: apply_finding_def Let_def)

lemma apply_finding_ok:
  assumes "score_ok L p" "0 \<le> fl" "fl \<le> 100"
  shows "score_ok L (apply_finding f fl x t p)"
  unfolding apply_finding_def Let_def using assms
  by (intro recompute_ok) (auto simp: score_ok_def clamp_int_def)

lemma record_event_ok:
  assumes "score_ok L p" "limits_ok L" "1 \<le> fi_points f" "fi_points f \<le> 100"
  shows "score_ok L (record_event L f category reason p)"
  using assms by (auto simp: record_event_def score_ok_def score_event_ok_def limits_ok_def cstr_copy_length)

lemma rename_proc_ok: "score_ok L p \<Longrightarrow> limits_ok L \<Longrightarrow> score_ok L (rename_proc L comm exe p)"
  by (auto simp: rename_proc_def Let_def score_ok_def limits_ok_def cstr_copy_length)

lemma decay_once_ok: "score_ok L p \<Longrightarrow> score_ok L (decay_once p)"
  by (auto simp: score_ok_def decay_once_def decay_value_def clamp_int_def)

lemma decay_loop_ok: "score_ok L p \<Longrightarrow> score_ok L (decay_loop now p)"
proof (induction now p rule: decay_loop.induct)
  case (1 now p)
  then show ?case by (subst decay_loop.simps) (simp add: decay_once_ok)
qed

lemma new_score_ok:
  "limits_ok L \<Longrightarrow> length exe < score_exe_len L \<Longrightarrow> score_ok L (new_score L pid now comm exe)"
  by (simp add: score_ok_def new_score_def limits_ok_def cstr_copy_length)

subsection \<open>What the score means\<close>

text \<open>
  The reference: the correlation table, whose rows count when all their findings have been seen,
  and the score as a formula.
\<close>

definition corr_table :: "(flags \<times> int \<times> string) list" where
  "corr_table =
     [(F_MEMFD OR F_NOP, 25, ''executable memfd + NOP/shellcode pattern''),
      (F_EXEC_MEMORY OR F_BEACON, 20, ''executable memory anomaly + beacon/connect behavior''),
      (F_RWX OR F_RAW_SOCKET, 25, ''RWX memory + raw/packet socket''),
      (F_TMP_EXEC OR F_BEACON, 20, ''temporary-path execution + beacon/connect behavior''),
      (F_RAW_SOCKET OR F_SYNSCAN, 20, ''raw/packet socket + scan-like behavior''),
      (F_PTRACE OR F_PROCESS_VM, 25, ''ptrace + process_vm activity''),
      (F_TMP_EXEC OR F_EXEC_MEMORY, 15, ''temporary-path artifact + executable memory''),
      (F_PE_ELF OR F_RWX, 15, ''PE/ELF header in RWX/suspicious memory'')]"

definition corr_hits :: "flags \<Rightarrow> (flags \<times> int \<times> string) list" where
  "corr_hits have = filter (\<lambda>(fl, _, _). has_flags have fl) corr_table"

definition corr_bonus :: "flags \<Rightarrow> int" where
  "corr_bonus have = min 60 (sum_list (map (fst \<circ> snd) (corr_hits have)))"

definition risk_formula :: "(risk \<Rightarrow> int) \<Rightarrow> flags \<Rightarrow> int \<Rightarrow> int" where
  "risk_formula cs have floor =
     min 100 (max floor
       (max ((30 * cs Memory + 25 * cs Network + 20 * cs Process + 15 * cs Filesystem
               + 10 * cs Lineage_risk) div 100)
            (85 * Max (range cs) div 100)
        + corr_bonus have))"

definition corr_weight :: "flags \<Rightarrow> flags \<Rightarrow> int \<Rightarrow> int" where
  "corr_weight have fl n = (if has_flags have fl then n else 0)"

lemma corr_sum:
  "sum_list (map (fst \<circ> snd) (corr_hits have)) = sum_list (map (\<lambda>(fl, n, _). corr_weight have fl n) corr_table)"
proof -
  have "sum_list (map (fst \<circ> snd) (filter (\<lambda>(fl, _, _). has_flags have fl) t))
      = sum_list (map (\<lambda>(fl, n, _). corr_weight have fl n) t)" for t :: "(flags \<times> int \<times> string) list"
    by (induction t) (auto simp: corr_weight_def)
  then show ?thesis by (simp add: corr_hits_def)
qed

lemma corr_bonus_computed: "compute_correlation_bonus have = corr_bonus have"
proof -
  have ab: "add_bonus have fl n b = b + corr_weight have fl n" for fl n b
    by (simp add: add_bonus_def corr_weight_def)
  have nn: "0 \<le> n \<Longrightarrow> 0 \<le> corr_weight have fl n" for fl n by (simp add: corr_weight_def)
  show ?thesis
    unfolding compute_correlation_bonus_def corr_bonus_def corr_sum corr_table_def ab Let_def
    by (simp add: clamp_int_min_max nn max_absorb2)
qed

lemma corr_text_hits:
  "correlations_text have = concat (map (\<lambda>(_, n, t). ''  +'' @ show_int n @ '' '' @ t @ [newline]) (corr_hits have))"
  by (simp add: correlations_text_def corr_hits_def corr_table_def write_correlation_def)

lemma range_risk: "range cs = {cs Memory, cs Network, cs Process, cs Filesystem, cs Lineage_risk}"
proof -
  have "range cs = cs ` set risks" by (simp add: risks_all)
  then show ?thesis by (simp add: risks_def)
qed

lemma max_cat_fold:
  fixes cs :: "risk \<Rightarrow> int"
  assumes "\<And>c. 0 \<le> cs c"
  shows "fold (\<lambda>c m. if cs c > m then cs c else m) risks 0 = Max (range cs)"
proof -
  have eq: "(\<lambda>c m. if cs c > m then cs c else m) = (\<lambda>c m. max (cs c) m)"
    by (auto simp: fun_eq_iff max_def)
  have A: "fold (\<lambda>c m. max (cs c) m) risks 0 =
      max (cs Lineage_risk) (max (cs Filesystem) (max (cs Process) (max (cs Network) (cs Memory))))"
    by (simp add: risks_def max_absorb1 assms)
  have B: "Max (range cs) =
      max (cs Memory) (max (cs Network) (max (cs Process) (max (cs Filesystem) (cs Lineage_risk))))"
    unfolding range_risk by simp
  have C: "max e (max d (max c (max b a))) = max a (max b (max c (max d e)))" for a b c d e :: int
    by (simp add: ac_simps)
  show ?thesis unfolding eq A B by (rule C)
qed

lemma weighted_score_formula:
  assumes "\<And>c. 0 \<le> cs c" "\<And>c. cs c \<le> 100"
  shows "compute_weighted_score cs =
    max ((30 * cs Memory + 25 * cs Network + 20 * cs Process + 15 * cs Filesystem + 10 * cs Lineage_risk) div 100)
        (85 * Max (range cs) div 100)"
proof -
  let ?w = "(30 * cs Memory + 25 * cs Network + 20 * cs Process + 15 * cs Filesystem + 10 * cs Lineage_risk) div 100"
  let ?m = "85 * Max (range cs) div 100"
  have m: "0 \<le> Max (range cs)" "Max (range cs) \<le> 100"
    unfolding range_risk using assms by (simp_all add: le_max_iff_disj)
  have w: "0 \<le> ?w" "?w \<le> 100"
  proof -
    have "0 \<le> 30 * cs Memory + 25 * cs Network + 20 * cs Process + 15 * cs Filesystem + 10 * cs Lineage_risk"
      using assms(1) by (simp add: add_nonneg_nonneg)
    then show "0 \<le> ?w" by (simp add: pos_imp_zdiv_nonneg_iff)
    show "?w \<le> 100" using assms(2)[of Memory] assms(2)[of Network] assms(2)[of Process]
      assms(2)[of Filesystem] assms(2)[of Lineage_risk] by linarith
  qed
  have m2: "0 \<le> ?m" "?m \<le> 100" using m by (simp_all add: pos_imp_zdiv_nonneg_iff)
  have "compute_weighted_score cs = clamp_int (if ?m > ?w then ?m else ?w) 0 100"
    unfolding compute_weighted_score_def Let_def max_cat_fold[OF assms(1)]
    by (simp add: algebra_simps)
  also have "\<dots> = max ?w ?m" using w m2 by (simp add: clamp_int_def max_def)
  finally show ?thesis .
qed

lemma corr_bonus_bounds: "0 \<le> corr_bonus fl \<and> corr_bonus fl \<le> 60"
  using correlation_bonus_bounds[of fl] by (simp add: corr_bonus_computed)

lemma recompute_formula:
  assumes "score_ok L p"
  shows "ps_score (recompute_score p) = risk_formula (ps_category p) (ps_flags p) (ps_floor p)"
proof -
  have "0 \<le> ps_floor p" using assms by (simp add: score_ok_def)
  with assms show ?thesis
    unfolding recompute_score_value risk_formula_def corr_bonus_computed
    by (subst weighted_score_formula)
       (auto simp: score_ok_def clamp_int_def max_def min_def)
qed

lemma apply_finding_recompute:
  "apply_finding f floor fl now p = recompute_score
     (p\<lparr>ps_category := (ps_category p)(fi_cat f := clamp_int (ps_category p (fi_cat f) + fi_points f) 0 100),
        ps_flags := ps_flags p OR fl, ps_floor := max (ps_floor p) floor, ps_last_seen := now\<rparr>)"
  by (cases "floor > ps_floor p") (simp_all add: apply_finding_def max_def)

lemma score_is_formula_core:
  assumes "score_ok L p" "0 \<le> floor" "floor \<le> 100"
  shows "ps_score (apply_finding f floor fl now p) =
     risk_formula (ps_category (apply_finding f floor fl now p)) (ps_flags (apply_finding f floor fl now p))
       (ps_floor (apply_finding f floor fl now p))"
proof -
  let ?q = "p\<lparr>ps_category := (ps_category p)(fi_cat f :=
                  clamp_int (ps_category p (fi_cat f) + fi_points f) 0 100),
              ps_flags := ps_flags p OR fl, ps_floor := max (ps_floor p) floor, ps_last_seen := now\<rparr>"
  have "score_ok L ?q" using assms by (auto simp: score_ok_def clamp_int_def)
  from recompute_formula[OF this] show ?thesis unfolding apply_finding_recompute by simp
qed

text \<open>C6. What a score is: after a finding, the score of a process is the larger of its floor and of its
  weighted category score (30, 25, 20, 15 and 10 percent, or 85 percent of the strongest category
  where that is more) plus its correlation bonus, at most 100; the bonus is the sum of the rows of
  the correlation table whose findings have all been seen, at most 60, and the case report lists
  exactly these rows with exactly these points.\<close>

theorem score_is_formula:
  assumes "score_ok L p" "0 \<le> floor" "floor \<le> 100"
  shows "let p' = apply_finding f floor fl now p in
     ps_score p' = risk_formula (ps_category p') (ps_flags p') (ps_floor p')
   \<and> ps_bonus p' = min 60 (sum_list (map (fst \<circ> snd) (corr_hits (ps_flags p'))))
   \<and> correlations_text (ps_flags p') =
       concat (map (\<lambda>(_, n, t). ''  +'' @ show_int n @ '' '' @ t @ [newline]) (corr_hits (ps_flags p')))"
  unfolding Let_def using score_is_formula_core[OF assms]
  by (simp add: corr_bonus_computed corr_bonus_def corr_text_hits)

lemma score_is_formula_witness:
  "let p = new_score small_limits 7 1000 (Some ''sh'') ''/bin/sh'';
       f = \<lparr>fi_cat = Memory, fi_before = 0, fi_points = 80, fi_whitelisted = False, fi_why = []\<rparr>;
       p' = apply_finding f 75 (F_RWX OR F_EXEC_MEMORY) 1001 p
   in ps_score p' = risk_formula (ps_category p') (ps_flags p') 75"
proof -
  have "score_ok small_limits (new_score small_limits 7 1000 (Some ''sh'') ''/bin/sh'')"
    by (rule new_score_ok[OF small_limits_ok]) (simp add: small_limits_def)
  from score_is_formula[OF this, of 75] show ?thesis
    by (simp add: Let_def new_score_def)
qed

subsection \<open>Findings raise the score, trust only weakens them\<close>

lemma has_flags_mono: "has_flags have fl \<Longrightarrow> has_flags (have OR x) fl"
proof -
  assume h: "has_flags have fl"
  then have sub: "bit fl i \<Longrightarrow> bit have i" for i
    unfolding has_flags_def by (metis bit_and_iff)
  show ?thesis unfolding has_flags_def
    by (rule bit_eqI) (auto simp: bit_and_iff bit_or_iff dest: sub)
qed

lemma corr_bonus_mono: "corr_bonus have \<le> corr_bonus (have OR x)"
proof -
  have w: "0 \<le> n \<Longrightarrow> corr_weight have fl n \<le> corr_weight (have OR x) fl n" for fl n
    using has_flags_mono[of "have" fl x] by (auto simp: corr_weight_def)
  have "sum_list (map (\<lambda>(fl, n, _). corr_weight have fl n) corr_table)
      \<le> sum_list (map (\<lambda>(fl, n, _). corr_weight (have OR x) fl n) corr_table)"
    by (rule sum_list_mono) (auto simp: corr_table_def intro!: w)
  then show ?thesis by (simp add: corr_bonus_def corr_sum)
qed

lemma risk_formula_mono:
  assumes "\<And>c. cs c \<le> cs' c" "corr_bonus h \<le> corr_bonus h'" "fl \<le> fl'"
  shows "risk_formula cs h fl \<le> risk_formula cs' h' fl'"
proof -
  have "Max (range cs) \<le> Max (range cs')"
  proof (rule Max.boundedI)
    show "finite (range cs)" by (simp only: range_risk finite.emptyI finite.insertI)
    show "range cs \<noteq> {}" by simp
    fix v assume "v \<in> range cs"
    then obtain c where "v = cs c" by auto
    moreover have "cs' c \<le> Max (range cs')"
    proof (rule Max_ge)
      show "finite (range cs')" by (simp only: range_risk finite.emptyI finite.insertI)
    qed simp
    ultimately show "v \<le> Max (range cs')" using assms(1)[of c] by simp
  qed
  then have m: "85 * Max (range cs) div 100 \<le> 85 * Max (range cs') div 100"
    by (simp add: zdiv_mono1)
  have "(30 * cs Memory + 25 * cs Network + 20 * cs Process + 15 * cs Filesystem + 10 * cs Lineage_risk) div 100
    \<le> (30 * cs' Memory + 25 * cs' Network + 20 * cs' Process + 15 * cs' Filesystem + 10 * cs' Lineage_risk) div 100"
    using assms(1)[of Memory] assms(1)[of Network] assms(1)[of Process] assms(1)[of Filesystem]
      assms(1)[of Lineage_risk] by (intro zdiv_mono1) auto
  then show ?thesis unfolding risk_formula_def
    by (intro min.mono max.mono add_mono order_refl m assms(2,3))
qed

text \<open>C38. A finding never makes a process look safer: compared with the same entry recomputed without
  it, no category, not the floor, not the bonus, not the score and not the peak goes down; the flags are
  exactly those the entry had and those of the finding; the score never exceeds the peak; and the finding's
  category grows by its points until it is full.\<close>

theorem finding_never_lowers:
  assumes "score_ok L p" "1 \<le> fi_points f" "0 \<le> floor" "floor \<le> 100"
  shows "let q = recompute_score p; p' = apply_finding f floor fl now p in
     (\<forall>c. ps_category q c \<le> ps_category p' c) \<and> ps_floor q \<le> ps_floor p' \<and> ps_bonus q \<le> ps_bonus p'
   \<and> ps_score q \<le> ps_score p' \<and> ps_peak p \<le> ps_peak p' \<and> ps_score p' \<le> ps_peak p'
   \<and> ps_category p' (fi_cat f) = min 100 (ps_category p (fi_cat f) + fi_points f)
   \<and> (\<forall>k. bit (ps_flags p') k = (bit (ps_flags p) k \<or> bit fl k))"
proof -
  let ?p' = "apply_finding f floor fl now p"
  have c: "ps_category p c \<le> ps_category ?p' c" for c
    using assms(1,2) by (simp add: score_ok_def clamp_int_def)
  have s: "ps_score ?p' = risk_formula (ps_category ?p') (ps_flags ?p') (ps_floor ?p')"
    using score_is_formula_core[OF assms(1,3,4)] .
  have m: "ps_score (recompute_score p) \<le> ps_score ?p'"
    unfolding s recompute_formula[OF assms(1)]
    by (rule risk_formula_mono[OF c]) (simp_all add: corr_bonus_mono)
  have pk: "ps_peak p \<le> ps_peak ?p' \<and> ps_score ?p' \<le> ps_peak ?p'"
    by (simp add: apply_finding_def Let_def)
  have f: "ps_category ?p' (fi_cat f) = min 100 (ps_category p (fi_cat f) + fi_points f)"
    using assms(1,2) by (auto simp: score_ok_def clamp_int_min_max dest!: spec[of _ "fi_cat f"])
  have b: "bit (ps_flags ?p') k = (bit (ps_flags p) k \<or> bit fl k)" for k by (simp add: bit_or_iff)
  show ?thesis unfolding Let_def using c m pk f b corr_bonus_mono
    by (simp add: corr_bonus_computed del: apply_finding_fields(4))
qed

lemma finding_never_lowers_witness:
  "let p = new_score small_limits 7 1000 (Some ''sh'') ''/bin/sh'';
       f = \<lparr>fi_cat = Memory, fi_before = 0, fi_points = 80, fi_whitelisted = False, fi_why = []\<rparr>
   in ps_category (apply_finding f 75 (F_RWX OR F_EXEC_MEMORY) 1001 p) Memory = 80
    \<and> bit (ps_flags (apply_finding f 75 (F_RWX OR F_EXEC_MEMORY) 1001 p)) 11"
proof -
  have "score_ok small_limits (new_score small_limits 7 1000 (Some ''sh'') ''/bin/sh'')"
    by (rule new_score_ok[OF small_limits_ok]) (simp add: small_limits_def)
  from finding_never_lowers[OF this, of "\<lparr>fi_cat = Memory, fi_before = 0, fi_points = 80,
      fi_whitelisted = False, fi_why = []\<rparr>" 75]
  show ?thesis by (simp add: Let_def new_score_def F_RWX_def F_EXEC_MEMORY_def bit_simps)
qed

text \<open>C37. Trust weakens findings and never suppresses them: for the same entry and finding, a
  configuration with a whitelist (any percentage, any rules) gives a score, a floor and points at
  most those without one, but still at least the score without the finding, at least one point in
  the same category, and the same finding flags.\<close>

theorem whitelist_only_weakens:
  assumes "score_ok L p"
    "weigh_finding cfg wlst pid category reason points p = (f, floor)"
    "weigh_finding None wlst pid category reason points p = (f0, floor0)"
  shows "let p1 = apply_finding f floor fl now p; p0 = apply_finding f0 floor0 fl now p in
     fi_cat f = fi_cat f0 \<and> 1 \<le> fi_points f \<and> fi_points f \<le> fi_points f0
   \<and> ps_score (recompute_score p) \<le> ps_score p1 \<and> ps_score p1 \<le> ps_score p0
   \<and> ps_floor p1 \<le> ps_floor p0 \<and> ps_flags p1 = ps_flags p0"
proof -
  have n: "fi_points f0 = normalized_points p (fi_cat f0) category reason points"
      "floor0 = default_floor_for_finding category reason points"
      "fi_cat f0 = classify_category category reason"
    using assms(3) by (auto simp: weigh_finding_def Let_def)
  note b = weigh_finding_bounds[OF assms(2)]
  note b0 = weigh_finding_bounds[OF assms(3)]
  have cat: "fi_cat f = fi_cat f0" using b(1) n(3) by simp
  have pts: "1 \<le> fi_points f" "fi_points f \<le> fi_points f0" using b cat n(1) by simp_all
  have fl: "floor \<le> floor0" "0 \<le> floor" "floor \<le> 100" "0 \<le> floor0" "floor0 \<le> 100"
    using b b0 n by simp_all
  have c: "ps_category (apply_finding f floor fl now p) c \<le> ps_category (apply_finding f0 floor0 fl now p) c" for c
    using pts cat by (simp add: clamp_int_min_max) linarith
  have s: "ps_score (apply_finding f floor fl now p) \<le> ps_score (apply_finding f0 floor0 fl now p)"
    unfolding score_is_formula_core[OF assms(1) fl(2,3)] score_is_formula_core[OF assms(1) fl(4,5)]
    by (rule risk_formula_mono[OF c]) (use fl(1) in simp_all)
  have r: "ps_score (recompute_score p) \<le> ps_score (apply_finding f floor fl now p)"
  proof -
    have "ps_category p c \<le> ps_category (apply_finding f floor fl now p) c" for c
      using assms(1) pts by (simp add: score_ok_def clamp_int_def)
    then show ?thesis
      unfolding score_is_formula_core[OF assms(1) fl(2,3)] recompute_formula[OF assms(1)]
      by (rule risk_formula_mono) (simp_all add: corr_bonus_mono)
  qed
  show ?thesis unfolding Let_def using cat pts s r fl by simp
qed

lemma whitelist_only_weakens_witness:
  "let p = new_score small_limits 7 1000 (Some ''firefox'') ''/usr/bin/firefox'';
       wlst = \<lparr>rules = add_builtin_rules [], wl_path = [], last_mtime = 0, loaded = True, last_check = 0\<rparr>;
       (f, fl) = weigh_finding (Some default_config) wlst 7 (Some ''memory'') (Some ''x'') 80 p
   in 1 \<le> fi_points f \<and> fi_points f \<le> 80"
proof -
  define p where "p = new_score small_limits 7 1000 (Some ''firefox'') ''/usr/bin/firefox''"
  define wlst where "wlst = \<lparr>rules = add_builtin_rules [], wl_path = [], last_mtime = 0, loaded = True,
    last_check = 0\<rparr>"
  have ok: "score_ok small_limits p" unfolding p_def
    by (rule new_score_ok[OF small_limits_ok]) (simp add: small_limits_def)
  obtain f fl where f: "weigh_finding (Some default_config) wlst 7 (Some ''memory'') (Some ''x'') 80 p = (f, fl)"
    by fastforce
  obtain f0 fl0 where f0: "weigh_finding None wlst 7 (Some ''memory'') (Some ''x'') 80 p = (f0, fl0)"
    by fastforce
  then have "fi_points f0 \<le> 80"
    by (auto simp: weigh_finding_def Let_def normalized_points_def contains_ci_def numeral_eq_Suc)
  with whitelist_only_weakens[OF ok f f0, of 0 0] have "1 \<le> fi_points f \<and> fi_points f \<le> 80"
    unfolding Let_def by linarith
  then show ?thesis unfolding Let_def p_def[symmetric] wlst_def[symmetric] f by simp
qed

subsection \<open>Decay\<close>

definition decayed :: "nat \<Rightarrow> int \<Rightarrow> int" where
  "decayed k v = (if v > 0 then max 0 (v - int k) else v)"

lemma decayed_0 [simp]: "decayed 0 v = v"
  by (simp add: decayed_def)

lemma decay_loop_steps:
  assumes "score_ok L p" "ps_last_decay p \<le> now"
  shows "decay_loop now p =
     (let k = nat ((now - ps_last_decay p) div 30)
      in p\<lparr>ps_category := (\<lambda>c. decayed k (ps_category p c)), ps_floor := decayed k (ps_floor p),
           ps_last_decay := ps_last_decay p + 30 * int k\<rparr>)"
  using assms
proof (induction now p rule: decay_loop.induct)
  case (1 now p)
  show ?case
  proof (cases "now - ps_last_decay p \<ge> RW_DECAY_SECONDS")
    case False
    with 1(3) have "(now - ps_last_decay p) div 30 = 0" by (simp add: RW_DECAY_SECONDS_def)
    with False show ?thesis
      by (subst decay_loop.simps) simp
  next
    case True
    let ?k = "nat ((now - ps_last_decay p) div 30)" and ?k' = "nat ((now - ps_last_decay (decay_once p)) div 30)"
    have k: "?k = Suc ?k'"
    proof -
      have "(now - ps_last_decay p) div 30 = (now - (ps_last_decay p + 30)) div 30 + 1"
        by (metis (no_types) add.commute add_diff_cancel_left' diff_add_cancel diff_diff_eq2
            diff_diff_eq div_add_self2 zero_neq_numeral)
      moreover have "0 \<le> (now - (ps_last_decay p + 30)) div 30"
        using True by (simp add: RW_DECAY_SECONDS_def pos_imp_zdiv_nonneg_iff)
      ultimately show ?thesis by (simp add: decay_once_def RW_DECAY_SECONDS_def)
    qed
    have dv: "0 \<le> v \<Longrightarrow> v \<le> 100 \<Longrightarrow> decayed n (decay_value v) = decayed (Suc n) v" for n v
      by (auto simp: decayed_def decay_value_def clamp_int_def max_def)
    have "decay_loop now p = decay_loop now (decay_once p)"
      using True by (subst decay_loop.simps) simp
    also have "\<dots> = (decay_once p)\<lparr>ps_category := (\<lambda>c. decayed ?k' (ps_category (decay_once p) c)),
        ps_floor := decayed ?k' (ps_floor (decay_once p)),
        ps_last_decay := ps_last_decay (decay_once p) + 30 * int ?k'\<rparr>"
      using 1(1)[OF True decay_once_ok[OF 1(2)]] True
      by (simp add: Let_def decay_once_def RW_DECAY_SECONDS_def)
    also have "\<dots> = p\<lparr>ps_category := (\<lambda>c. decayed ?k (ps_category p c)), ps_floor := decayed ?k (ps_floor p),
           ps_last_decay := ps_last_decay p + 30 * int ?k\<rparr>"
      using 1(2) unfolding k
      by (simp add: decay_once_def RW_DECAY_SECONDS_def dv score_ok_def)
    finally show ?thesis by (simp add: Let_def)
  qed
qed

text \<open>C28. Decay in closed form: catching up after any time takes one point per full 30 seconds from every
  category and from the floor, never below 0, keeps the rest of the interval for the next time, and
  changes nothing else; in particular the score that is reported stays as it was until the next
  finding. After 3000 idle seconds all that a recomputed score has left is the bonus of the
  correlations, which never fades.\<close>

theorem decay_closed_form:
  assumes "score_ok L p" "ps_last_decay p \<le> now"
  shows "let k = nat ((now - ps_last_decay p) div 30); q = decay_loop now p in
     q = p\<lparr>ps_category := (\<lambda>c. max 0 (ps_category p c - int k)), ps_floor := max 0 (ps_floor p - int k),
           ps_last_decay := ps_last_decay p + 30 * int k\<rparr>
   \<and> ps_score q = ps_score p \<and> now - ps_last_decay q < 30
   \<and> (3000 \<le> now - ps_last_decay p \<longrightarrow> ps_score (recompute_score q) = corr_bonus (ps_flags p))"
proof -
  let ?k = "nat ((now - ps_last_decay p) div 30)"
  have nn: "0 \<le> (now - ps_last_decay p) div 30" using assms(2) by (simp add: pos_imp_zdiv_nonneg_iff)
  have d: "0 \<le> v \<Longrightarrow> decayed ?k v = max 0 (v - int ?k)" for v
    by (auto simp: decayed_def max_def)
  have q: "decay_loop now p = p\<lparr>ps_category := (\<lambda>c. max 0 (ps_category p c - int ?k)),
      ps_floor := max 0 (ps_floor p - int ?k), ps_last_decay := ps_last_decay p + 30 * int ?k\<rparr>"
    using decay_loop_steps[OF assms] assms(1) by (simp add: Let_def d score_ok_def)
  have rest: "now - ps_last_decay (decay_loop now p) < 30"
    unfolding q using nn by (simp add: minus_div_mult_eq_mod[symmetric])
  have idle: "ps_score (recompute_score (decay_loop now p)) = corr_bonus (ps_flags p)"
    if "3000 \<le> now - ps_last_decay p"
  proof -
    from that have "3000 div 30 \<le> (now - ps_last_decay p) div 30" by (rule zdiv_mono1) simp
    then have "100 \<le> int ?k" by simp
    then have z: "max 0 (v - int ?k) = 0" if "v \<le> 100" for v using that by simp
    have qz: "ps_category (decay_loop now p) = (\<lambda>_. 0)" "ps_floor (decay_loop now p) = 0"
        "ps_flags (decay_loop now p) = ps_flags p"
      unfolding q using assms(1) z by (simp_all add: score_ok_def fun_eq_iff)
    show ?thesis unfolding recompute_formula[OF decay_loop_ok[OF assms(1)]] qz
      using corr_bonus_bounds[of "ps_flags p"] by (simp add: risk_formula_def range_risk)
  qed
  show ?thesis unfolding Let_def using q rest idle by simp
qed

lemma decay_closed_form_witness:
  "ps_category (decay_loop 1100 ((new_score small_limits 7 1000 None ''x'')\<lparr>ps_category := (\<lambda>_. 10)\<rparr>)) Memory = 7"
proof -
  let ?p = "(new_score small_limits 7 1000 None ''x'')\<lparr>ps_category := (\<lambda>_. 10)\<rparr>"
  have "score_ok small_limits ?p"
    using new_score_ok[OF small_limits_ok, of "''x''" 7 1000 None] by (simp add: score_ok_def small_limits_def)
  from decay_closed_form[OF this, of 1100] show ?thesis by (simp add: Let_def new_score_def)
qed

subsection \<open>The table\<close>

interpretation sctab: slot_table ps_pid RW_MAX_PROCS find_proc append_score
  by unfold_locales
     (auto simp: find_proc_def append_score_def new_score_def split: if_splits prod.splits)

definition scores_ok :: "limits \<Rightarrow> score list \<Rightarrow> bool" where
  "scores_ok L ps \<longleftrightarrow> table_ok ps_pid RW_MAX_PROCS ps \<and> list_all (score_ok L) ps"

lemma scores_ok_Nil [simp]: "scores_ok L []"
  by (simp add: scores_ok_def)

lemma scores_ok_nth: "scores_ok L ps \<Longrightarrow> i < length ps \<Longrightarrow> score_ok L (ps ! i)"
  by (simp add: scores_ok_def list_all_length)

lemma scores_ok_update:
  assumes "scores_ok L ps" "i < length ps \<Longrightarrow> score_ok L p \<and> ps_pid p = ps_pid (ps ! i)"
  shows "scores_ok L (ps[i := p])"
proof (cases "i < length ps")
  case True
  with assms have "table_ok ps_pid RW_MAX_PROCS (ps[i := p])"
    by (intro sctab.update_ok) (auto simp: scores_ok_def)
  moreover have "list_all (score_ok L) (ps[i := p])"
    using assms(1) assms(2)[OF True] unfolding scores_ok_def list_all_iff
    by (auto dest: set_update_subset_insert[THEN subsetD])
  ultimately show ?thesis by (simp add: scores_ok_def)
next
  case False
  with assms show ?thesis by (simp add: list_update_beyond)
qed

lemma world_only_score_fields:
  "world_only s s' \<Longrightarrow> scores s' = scores s \<and> wl s' = wl s"
  by (cases s; cases s') (simp add: world_only_def)

lemmas scores_calls [simp] = world_only_calls [THEN world_only_score_fields, THEN conjunct1]
lemmas wl_calls [simp] = world_only_calls [THEN world_only_score_fields, THEN conjunct2]

lemma upd_score_fields [simp]:
  "scores (upd_score i f s) = (scores s)[i := f (scores s ! i)]" "wl (upd_score i f s) = wl s"
  "nodes (upd_score i f s) = nodes s" "evs (upd_score i f s) = evs s" "clk (upd_score i f s) = clk s"
  "files (upd_score i f s) = files s"
  by (simp_all add: upd_score_def)

lemma keep_pid [simp]:
  "ps_pid (decay_loop now p) = ps_pid p" "ps_pid (rename_proc L comm exe p) = ps_pid p"
  "ps_pid (record_event L f category reason p) = ps_pid p"
proof -
  show "ps_pid (decay_loop now p) = ps_pid p"
  proof (induction now p rule: decay_loop.induct)
    case (1 now p)
    then show ?case by (subst decay_loop.simps) (simp add: decay_once_def)
  qed
qed (simp_all add: rename_proc_def record_event_def Let_def)

lemma decay_proc_scores:
  "scores (decay_proc w i s) =
     (if ps_last_decay (scores s ! i) = 0 then scores s
      else (scores s)[i := decay_loop (env_time w (clk s)) (scores s ! i)])"
  by (simp add: decay_proc_def sys_time_def tick_def)

text \<open>What a finding leaves in the table: the entry at the index, replaced by a well-formed one.\<close>

lemma score_finding_spec:
  assumes "limits_ok L" "scores_ok L (scores s)" "i < length (scores s)"
    "score_finding L w cfg pid comm exe category reason points i s = (f, s')"
  obtains p p' floor now where
    "scores s' = (scores s)[i := p']" "ps_pid p' = ps_pid (scores s ! i)" "score_ok L p'"
    "score_ok L p" "p' = record_event L f category reason
        (apply_finding f floor (classify_flags category reason) now p)"
    "p = rename_proc L comm exe (scores (decay_proc w i s) ! i)"
    "weigh_finding cfg (wl s) pid category reason points p = (f, floor)"
proof -
  define s1 where "s1 = upd_score i (rename_proc L comm exe) (decay_proc w i s)"
  define p where "p = rename_proc L comm exe (scores (decay_proc w i s) ! i)"
  have wl1: "wl s1 = wl s" by (simp add: s1_def decay_proc_def sys_time_def tick_def)
  have len: "length (scores (decay_proc w i s)) = length (scores s)" by (simp add: decay_proc_scores)
  have p1: "scores s1 ! i = p" using assms(3) len by (simp add: s1_def p_def)
  have d: "scores (decay_proc w i s) ! i = (if ps_last_decay (scores s ! i) = 0 then scores s ! i
      else decay_loop (env_time w (clk s)) (scores s ! i))"
    using assms(3) by (simp add: decay_proc_scores)
  have ok: "score_ok L p" unfolding p_def d
    using scores_ok_nth[OF assms(2,3)] assms(1) by (simp add: rename_proc_ok decay_loop_ok)
  have sc1: "scores s1 = (scores s)[i := p]"
    using assms(3) len by (simp add: s1_def p_def decay_proc_scores)
  obtain f' floor where f: "weigh_finding cfg (wl s1) pid category reason points p = (f', floor)"
    by fastforce
  note b = weigh_finding_bounds[OF f]
  let ?now = "env_time w (clk s1)"
  let ?p' = "record_event L f' category reason (apply_finding f' floor (classify_flags category reason) ?now p)"
  have s': "f = f'" "scores s' = (scores s)[i := ?p']"
    using assms(3,4) f p1 sc1
    by (auto simp: score_finding_def Let_def s1_def[symmetric] sys_time_def tick_def)
  have "score_ok L ?p'"
    using b by (intro record_event_ok apply_finding_ok ok assms(1)) auto
  moreover have "ps_pid ?p' = ps_pid (scores s ! i)" by (simp add: p_def d)
  ultimately show ?thesis using that[of ?p' p floor ?now] s' ok f wl1 by (simp add: p_def)
qed

lemma create_proc_spec:
  assumes "limits_ok L" "scores_ok L (scores s)" "find_proc pid (scores s) = None"
    "create_proc L w pid comm exe s = (r, s')"
  shows "(r = None \<and> scores s' = scores s \<and> RW_MAX_PROCS \<le> length (scores s)) \<or>
    (\<exists>p. r = Some (length (scores s)) \<and> scores s' = scores s @ [p] \<and> ps_pid p = pid \<and> score_ok L p
       \<and> scores_ok L (scores s'))"
proof (cases "length (scores s) \<ge> RW_MAX_PROCS")
  case True
  with assms(4) show ?thesis by (auto simp: create_proc_def)
next
  case False
  obtain path s2 where P: "(if nonempty_str exe then (cstr_copy (score_exe_len L) (the exe), tick s)
      else rw_read_exe_path w pid (score_exe_len L) (tick s)) = (path, s2)" by fastforce
  have sc: "scores s2 = scores s" and "length path < score_exe_len L"
    using P assms(1) scores_calls(14)[where s = "tick s" and w = w and pid = pid and n = "score_exe_len L"]
    by (auto simp: rw_read_exe_path_def rw_read_link_path_def limits_ok_def cstr_copy_length
        split: if_splits option.splits)
  then have ok: "score_ok L (new_score L pid (env_time w (clk s)) comm path)"
    by (intro new_score_ok[OF assms(1)])
  let ?p = "new_score L pid (env_time w (clk s)) comm path"
  have eq: "r = Some (length (scores s))" "scores s' = scores s @ [?p]"
    using False assms(4) sc unfolding create_proc_def sys_time_def Let_def prod.case P
    by (auto simp: append_score_def)
  have "append_score pid (L, env_time w (clk s), comm, path) (scores s) = Some (scores s @ [?p], length (scores s))"
    using False by (simp add: append_score_def)
  from sctab.create_ok[OF _ assms(3) this] assms(2) ok
  have "scores_ok L (scores s @ [?p])" by (simp add: scores_ok_def)
  with eq ok show ?thesis by (auto simp: new_score_def)
qed

text \<open>
  The words of a memory scan read as a port scan: both fixed reasons that the memory scanner gives
  for a mapping ("RWX mapping scanned", "executable memfd mapping scanned") contain "scan" and so set
  the finding flag that stands for SYN scanning. A process with a raw socket and one scanned RWX
  mapping gets the correlation row "raw/packet socket + scan-like behavior" and a bonus of 45
  instead of 25, although it never scanned a port.
\<close>

theorem memscan_reason_is_synscan:
  "has_flags (classify_flags (Some ''memory'') (Some ''RWX mapping scanned'')) F_SYNSCAN
   \<and> has_flags (classify_flags (Some ''memory'') (Some ''executable memfd mapping scanned'')) F_SYNSCAN
   \<and> compute_correlation_bonus (classify_flags (Some ''memory'') (Some ''RWX mapping scanned'')
       OR F_RAW_SOCKET) = 45
   \<and> compute_correlation_bonus (F_RWX OR F_EXEC_MEMORY OR F_RAW_SOCKET) = 25"
proof -
  have a: "classify_flags (Some ''memory'') (Some ''RWX mapping scanned'') = 2081"
    and b: "classify_flags (Some ''memory'') (Some ''executable memfd mapping scanned'') = 2082"
    and c: "classify_flags (Some ''memory'') (Some ''RWX mapping scanned'') = 2081"
    by (simp_all add: classify_flags_def contains_ci_def F_RWX_def F_EXEC_MEMORY_def F_MEMFD_def
        F_SYNSCAN_def)
  show ?thesis unfolding a b
    by (simp add: compute_correlation_bonus_def add_bonus_def has_flags_def clamp_int_def F_RWX_def
        F_EXEC_MEMORY_def F_MEMFD_def F_SYNSCAN_def F_NOP_def F_BEACON_def F_RAW_SOCKET_def
        F_TMP_EXEC_def F_PTRACE_def F_PROCESS_VM_def F_PE_ELF_def)
qed

end
