(* ===== verification/Sha256.thy ===== *)
theory Sha256
  imports Prelude
begin

unbundle bit_operations_syntax

section \<open>SHA-256 (\<open>crypto/sha256.c\<close>)\<close>

text \<open>
  The streaming implementation that hashes the executables dumped into a case: the context
  (\<open>sha256_ctx_t\<close> of \<open>include/sha256.h\<close>), the block transform, \<open>sha256_init\<close>, \<open>sha256_update\<close> and
  \<open>sha256_final\<close>, with \<open>uint32_t\<close> and \<open>uint64_t\<close> as words so that every addition wraps as in C.
  The reference definition of the second half follows FIPS 180-4: a padding function on whole
  messages, a recursive message schedule and a fold over 64-byte blocks. The main result says that
  the streaming code, fed in any pieces, computes the reference digest; the constants of the code
  are shown to be the ones FIPS derives from roots of primes (the tables are written in decimal).
\<close>

subsection \<open>The implementation\<close>

record sha256_ctx =
  bitlen :: "64 word"
  hstate :: "32 word list"
  block :: "byte list"
  datalen :: nat

definition ROTRIGHT :: "32 word \<Rightarrow> nat \<Rightarrow> 32 word" where
  "ROTRIGHT a b = drop_bit b a OR push_bit (32 - b) a"

definition CH :: "32 word \<Rightarrow> 32 word \<Rightarrow> 32 word \<Rightarrow> 32 word" where
  "CH x y z = (x AND y) XOR (NOT x AND z)"

definition MAJ :: "32 word \<Rightarrow> 32 word \<Rightarrow> 32 word \<Rightarrow> 32 word" where
  "MAJ x y z = (x AND y) XOR (x AND z) XOR (y AND z)"

definition EP0 :: "32 word \<Rightarrow> 32 word" where
  "EP0 x = ROTRIGHT x 2 XOR ROTRIGHT x 13 XOR ROTRIGHT x 22"

definition EP1 :: "32 word \<Rightarrow> 32 word" where
  "EP1 x = ROTRIGHT x 6 XOR ROTRIGHT x 11 XOR ROTRIGHT x 25"

definition SIG0 :: "32 word \<Rightarrow> 32 word" where
  "SIG0 x = ROTRIGHT x 7 XOR ROTRIGHT x 18 XOR drop_bit 3 x"

definition SIG1 :: "32 word \<Rightarrow> 32 word" where
  "SIG1 x = ROTRIGHT x 17 XOR ROTRIGHT x 19 XOR drop_bit 10 x"

definition sha_k :: "32 word list" where
  "sha_k =
    [1116352408, 1899447441, 3049323471, 3921009573, 961987163, 1508970993,
     2453635748, 2870763221, 3624381080, 310598401, 607225278, 1426881987,
     1925078388, 2162078206, 2614888103, 3248222580, 3835390401, 4022224774,
     264347078, 604807628, 770255983, 1249150122, 1555081692, 1996064986,
     2554220882, 2821834349, 2952996808, 3210313671, 3336571891, 3584528711,
     113926993, 338241895, 666307205, 773529912, 1294757372, 1396182291,
     1695183700, 1986661051, 2177026350, 2456956037, 2730485921, 2820302411,
     3259730800, 3345764771, 3516065817, 3600352804, 4094571909, 275423344,
     430227734, 506948616, 659060556, 883997877, 958139571, 1322822218,
     1537002063, 1747873779, 1955562222, 2024104815, 2227730452, 2361852424,
     2428436474, 2756734187, 3204031479, 3329325298]"

text \<open>\<open>m[0..15]\<close>: big-endian words of the block; \<open>m[16..63]\<close>: one word appended per iteration.\<close>

definition load_word :: "byte list \<Rightarrow> nat \<Rightarrow> 32 word" where
  "load_word d j =
     push_bit 24 (ucast (d ! j)) OR push_bit 16 (ucast (d ! (j + 1)))
     OR push_bit 8 (ucast (d ! (j + 2))) OR ucast (d ! (j + 3))"

fun extend_schedule :: "nat \<Rightarrow> 32 word list \<Rightarrow> 32 word list" where
  "extend_schedule 0 m = m"
| "extend_schedule (Suc n) m =
     (let i = length m in
      extend_schedule n
        (m @ [SIG1 (m ! (i - 2)) + m ! (i - 7) + SIG0 (m ! (i - 15)) + m ! (i - 16)]))"

definition message_schedule :: "byte list \<Rightarrow> 32 word list" where
  "message_schedule d = extend_schedule 48 (map (\<lambda>i. load_word d (4 * i)) [0..<16])"

type_synonym working =
  "32 word \<times> 32 word \<times> 32 word \<times> 32 word \<times> 32 word \<times> 32 word \<times> 32 word \<times> 32 word"

fun sha_round :: "32 word list \<Rightarrow> nat \<Rightarrow> working \<Rightarrow> working" where
  "sha_round m i (a, b, c, d, e, f, g, h) =
     (let t1 = h + EP1 e + CH e f g + sha_k ! i + m ! i;
          t2 = EP0 a + MAJ a b c
      in (t1 + t2, a, b, c, d + t1, e, f, g))"

definition sha256_transform :: "32 word list \<Rightarrow> byte list \<Rightarrow> 32 word list" where
  "sha256_transform s d =
     (let m = message_schedule d;
          (a, b, c, d, e, f, g, h) =
            fold (sha_round m) [0..<64] (s ! 0, s ! 1, s ! 2, s ! 3, s ! 4, s ! 5, s ! 6, s ! 7)
      in [s ! 0 + a, s ! 1 + b, s ! 2 + c, s ! 3 + d, s ! 4 + e, s ! 5 + f, s ! 6 + g, s ! 7 + h])"

definition sha_iv :: "32 word list" where
  "sha_iv = [1779033703, 3144134277, 1013904242, 2773480762, 1359893119, 2600822924, 528734635, 1541459225]"

text \<open>\<open>sha256_init\<close> leaves the buffer as it finds it (the caller's context is uninitialised).\<close>

definition sha256_init :: "sha256_ctx \<Rightarrow> sha256_ctx" where
  "sha256_init ctx = ctx\<lparr>bitlen := 0, datalen := 0, hstate := sha_iv\<rparr>"

definition update_byte :: "byte \<Rightarrow> sha256_ctx \<Rightarrow> sha256_ctx" where
  "update_byte x ctx =
     (let ctx1 = ctx\<lparr>block := (block ctx)[datalen ctx := x], datalen := datalen ctx + 1\<rparr>
      in if datalen ctx1 = 64
         then ctx1\<lparr>hstate := sha256_transform (hstate ctx1) (block ctx1),
                   bitlen := bitlen ctx1 + 512, datalen := 0\<rparr>
         else ctx1)"

definition sha256_update :: "sha256_ctx \<Rightarrow> byte list \<Rightarrow> sha256_ctx" where
  "sha256_update ctx data = fold update_byte data ctx"

text \<open>\<open>while (i < n) data[i++] = 0x00;\<close>\<close>

fun zero_fill :: "nat \<Rightarrow> nat \<Rightarrow> byte list \<Rightarrow> byte list" where
  "zero_fill 0 i d = d"
| "zero_fill (Suc n) i d = zero_fill n (i + 1) (d[i := 0])"

text \<open>The eight stores \<open>data[63 - i] = (uint8_t)(bitlen >> 8 * i)\<close> after the padding.\<close>

definition store_bitlen :: "64 word \<Rightarrow> byte list \<Rightarrow> byte list" where
  "store_bitlen n d =
     d[63 := ucast n, 62 := ucast (drop_bit 8 n), 61 := ucast (drop_bit 16 n),
       60 := ucast (drop_bit 24 n), 59 := ucast (drop_bit 32 n), 58 := ucast (drop_bit 40 n),
       57 := ucast (drop_bit 48 n), 56 := ucast (drop_bit 56 n)]"

definition sha_digest :: "32 word list \<Rightarrow> byte list" where
  "sha_digest s =
     concat (map (\<lambda>w. map (\<lambda>i. ucast (drop_bit (24 - i * 8) w AND 255)) [0..<4]) (take 8 s))"

definition sha256_final :: "sha256_ctx \<Rightarrow> byte list" where
  "sha256_final ctx =
     (let i = datalen ctx;
          d1 = (block ctx)[i := 128];
          (s, d2) =
            (if datalen ctx < 56 then (hstate ctx, zero_fill (56 - (i + 1)) (i + 1) d1)
             else (let d = zero_fill (64 - (i + 1)) (i + 1) d1
                   in (sha256_transform (hstate ctx) d, zero_fill 56 0 d)));
          n = bitlen ctx + of_nat (datalen ctx) * 8
      in sha_digest (sha256_transform s (store_bitlen n d2)))"

text \<open>\<open>rw_sha256_file\<close> hashes the chunks that \<open>fread\<close> returns.\<close>

definition sha256_chunks :: "sha256_ctx \<Rightarrow> byte list list \<Rightarrow> byte list" where
  "sha256_chunks ctx chunks =
     sha256_final (fold (\<lambda>c x. sha256_update x c) chunks (sha256_init ctx))"

subsection \<open>The reference: FIPS 180-4 on whole messages\<close>

definition fips_Sigma0 :: "32 word \<Rightarrow> 32 word" where
  "fips_Sigma0 x = word_rotr 2 x XOR word_rotr 13 x XOR word_rotr 22 x"

definition fips_Sigma1 :: "32 word \<Rightarrow> 32 word" where
  "fips_Sigma1 x = word_rotr 6 x XOR word_rotr 11 x XOR word_rotr 25 x"

definition fips_sigma0 :: "32 word \<Rightarrow> 32 word" where
  "fips_sigma0 x = word_rotr 7 x XOR word_rotr 18 x XOR drop_bit 3 x"

definition fips_sigma1 :: "32 word \<Rightarrow> 32 word" where
  "fips_sigma1 x = word_rotr 17 x XOR word_rotr 19 x XOR drop_bit 10 x"

text \<open>Choice and majority, bit by bit as the standard words them.\<close>

definition fips_Ch :: "32 word \<Rightarrow> 32 word \<Rightarrow> 32 word \<Rightarrow> 32 word" where
  "fips_Ch x y z = (x AND y) OR (NOT x AND z)"

definition fips_Maj :: "32 word \<Rightarrow> 32 word \<Rightarrow> 32 word \<Rightarrow> 32 word" where
  "fips_Maj x y z = (x AND y) OR (x AND z) OR (y AND z)"

text \<open>A block's words as numbers in base 256, and the schedule by its recurrence.\<close>

definition fips_M :: "byte list \<Rightarrow> nat \<Rightarrow> 32 word" where
  "fips_M d t = of_nat (unat (d ! (4 * t)) * 2 ^ 24 + unat (d ! (4 * t + 1)) * 2 ^ 16
                        + unat (d ! (4 * t + 2)) * 2 ^ 8 + unat (d ! (4 * t + 3)))"

function fips_W :: "byte list \<Rightarrow> nat \<Rightarrow> 32 word" where
  "fips_W d t =
     (if t < 16 then fips_M d t
      else fips_sigma1 (fips_W d (t - 2)) + fips_W d (t - 7)
           + fips_sigma0 (fips_W d (t - 15)) + fips_W d (t - 16))"
  by pat_completeness auto
termination
  by (relation "measure snd") auto

declare fips_W.simps [simp del]

fun fips_step :: "byte list \<Rightarrow> nat \<Rightarrow> working \<Rightarrow> working" where
  "fips_step d t (a, b, c, d', e, f, g, h) =
     (let T1 = h + fips_Sigma1 e + fips_Ch e f g + sha_k ! t + fips_W d t
      in (T1 + (fips_Sigma0 a + fips_Maj a b c), a, b, c, d' + T1, e, f, g))"

definition fips_compress :: "32 word list \<Rightarrow> byte list \<Rightarrow> 32 word list" where
  "fips_compress s d =
     (case fold (fips_step d) [0..<64] (s ! 0, s ! 1, s ! 2, s ! 3, s ! 4, s ! 5, s ! 6, s ! 7) of
        (a, b, c, d, e, f, g, h) \<Rightarrow>
          [s ! 0 + a, s ! 1 + b, s ! 2 + c, s ! 3 + d, s ! 4 + e, s ! 5 + f, s ! 6 + g, s ! 7 + h])"

function run_blocks :: "(32 word list \<Rightarrow> byte list \<Rightarrow> 32 word list)
    \<Rightarrow> 32 word list \<Rightarrow> byte list \<Rightarrow> 32 word list" where
  "run_blocks tr s xs =
     (if length xs < 64 then s else run_blocks tr (tr s (take 64 xs)) (drop 64 xs))"
  by pat_completeness auto
termination
  by (relation "measure (\<lambda>(_, _, xs). length xs)") auto

declare run_blocks.simps [simp del]

definition be64 :: "nat \<Rightarrow> byte list" where
  "be64 n = map (\<lambda>i. of_nat (n div 256 ^ (7 - i))) [0..<8]"

definition fips_pad :: "byte list \<Rightarrow> byte list" where
  "fips_pad msg =
     msg @ [128] @ replicate ((119 - length msg mod 64) mod 64) 0 @ be64 (8 * length msg)"

text \<open>The digest: the eight words, each as four digits in base 256, most significant first.\<close>

definition fips_digest :: "32 word list \<Rightarrow> byte list" where
  "fips_digest s = concat (map (\<lambda>w. map (\<lambda>i. of_nat (unat w div 256 ^ (3 - i))) [0..<4]) (take 8 s))"

definition fips_sha256 :: "byte list \<Rightarrow> byte list" where
  "fips_sha256 msg = fips_digest (run_blocks fips_compress sha_iv (fips_pad msg))"

subsection \<open>The transform is the compression function\<close>

lemma ROTRIGHT_word_rotr: "0 < b \<Longrightarrow> b < 32 \<Longrightarrow> ROTRIGHT a b = word_rotr b a"
proof (rule bit_word_eqI)
  fix n
  assume b: "0 < b" "b < 32" and "n < LENGTH(32)"
  then have n: "n < 32" by simp
  show "bit (ROTRIGHT a b) n = bit (word_rotr b a) n"
  proof (cases "b + n < 32")
    case True
    then have "\<not> 32 - b \<le> n" by simp
    with True b n show ?thesis by (simp add: ROTRIGHT_def bit_simps add.commute)
  next
    case False
    then have "(b + n) mod 32 = b + n - 32" using b n by (simp add: mod_if)
    moreover have "\<not> bit a (b + n)" using False by (auto dest: bit_imp_le_length)
    moreover have "n - (32 - b) = b + n - 32" using False b by simp
    ultimately show ?thesis using b n False
      by (auto simp: ROTRIGHT_def bit_simps add.commute[of n b])
  qed
qed

lemma sigma_fips [simp]:
  "EP0 = fips_Sigma0" "EP1 = fips_Sigma1" "SIG0 = fips_sigma0" "SIG1 = fips_sigma1"
  by (simp_all add: fun_eq_iff EP0_def EP1_def SIG0_def SIG1_def fips_Sigma0_def fips_Sigma1_def
      fips_sigma0_def fips_sigma1_def ROTRIGHT_word_rotr)

lemma choice_fips [simp]: "CH = fips_Ch" "MAJ = fips_Maj"
  by (auto simp: fun_eq_iff CH_def MAJ_def fips_Ch_def fips_Maj_def bit_eq_iff bit_simps)

lemma byte_of_word: "(ucast (drop_bit n w AND 255) :: byte) = of_nat (unat (w :: 32 word) div 2 ^ n)"
proof -
  have "drop_bit n w AND 255 = take_bit 8 (drop_bit n w)" by (simp add: take_bit_eq_mask mask_eq_decr_exp)
  then have "unat (drop_bit n w AND 255) = take_bit 8 (unat (drop_bit n w))" by (simp only: unsigned_take_bit_eq)
  then have "unat (drop_bit n w AND 255) = unat w div 2 ^ n mod 256"
    unfolding unat_drop_bit_eq by (simp add: take_bit_eq_mod drop_bit_eq_div[of n "unat w"])
  then have "unat (ucast (drop_bit n w AND 255) :: byte) = unat (of_nat (unat w div 2 ^ n) :: byte)"
    by (simp add: unsigned_ucast_eq unat_of_nat take_bit_eq_mod)
  then show ?thesis by (rule word_unat_eq_iff[THEN iffD2])
qed

lemma digest_fips: "sha_digest = fips_digest"
proof (rule ext)
  fix s :: "32 word list"
  have "(ucast (drop_bit (24 - i * 8) w AND 255) :: byte) = of_nat (unat w div 256 ^ (3 - i))" if "i \<in> {0..<4}" for i and w :: "32 word"
  proof -
    have "(256 :: nat) ^ (3 - i) = 2 ^ (24 - i * 8)"
      using that by (cases "i = 0 \<or> i = 1 \<or> i = 2") auto
    then show ?thesis by (simp add: byte_of_word)
  qed
  then show "sha_digest s = fips_digest s"
    unfolding sha_digest_def fips_digest_def by (intro arg_cong[where f = concat] map_cong refl) simp
qed

lemma bytes_or_add:
  fixes a b c d :: byte
  shows "push_bit 24 (ucast a) OR push_bit 16 (ucast b) OR push_bit 8 (ucast c) OR ucast d
         = (of_nat (unat a * 2 ^ 24 + unat b * 2 ^ 16 + unat c * 2 ^ 8 + unat d) :: 32 word)"
proof -
  have bit8: "\<not> bit (x :: byte) n" if "8 \<le> n" for x n
    using that by (auto dest: bit_imp_le_length)
  let ?a = "push_bit 24 (ucast a) :: 32 word" and ?b = "push_bit 16 (ucast b) :: 32 word"
    and ?c = "push_bit 8 (ucast c) :: 32 word" and ?d = "ucast d :: 32 word"
  have ab: "?a AND ?b = 0"
    by (rule bit_word_eqI) (auto simp: bit_simps bit8)
  have abc: "(?a OR ?b) AND ?c = 0"
    by (rule bit_word_eqI) (auto simp: bit_simps bit8)
  have abcd: "(?a OR ?b OR ?c) AND ?d = 0"
    by (rule bit_word_eqI) (auto simp: bit_simps bit8)
  have "?a OR ?b OR ?c OR ?d = ?a + ?b + ?c + ?d"
    by (simp add: disjunctive_add_eq_or ab abc abcd or.assoc)
  also have "\<dots> = of_nat (unat a * 2 ^ 24 + unat b * 2 ^ 16 + unat c * 2 ^ 8 + unat d)"
    by (simp add: push_bit_eq_mult)
  finally show ?thesis .
qed

lemma load_word_fips: "load_word d (4 * t) = fips_M d t"
  unfolding load_word_def fips_M_def by (rule bytes_or_add)

text \<open>Appending one word per iteration yields the recurrence at every index.\<close>

lemma extend_schedule_W:
  assumes "16 \<le> length m" "\<forall>t<length m. m ! t = fips_W d t"
  shows "length (extend_schedule n m) = length m + n \<and>
         (\<forall>t<length m + n. extend_schedule n m ! t = fips_W d t)"
  using assms
proof (induction n m rule: extend_schedule.induct)
  case (1 m)
  then show ?case by simp
next
  case (2 n m)
  let ?m = "m @ [fips_sigma1 (m ! (length m - 2)) + m ! (length m - 7)
                 + fips_sigma0 (m ! (length m - 15)) + m ! (length m - 16)]"
  have "?m ! length m = fips_W d (length m)"
    using 2 by (simp add: fips_W.simps[of d "length m"])
  then have "\<forall>t<length ?m. ?m ! t = fips_W d t"
    using 2 by (auto simp: nth_append less_Suc_eq)
  then show ?case
    using "2.IH"[OF refl] "2.prems" by (simp add: Let_def)
qed

lemma message_schedule_W: "t < 64 \<Longrightarrow> message_schedule d ! t = fips_W d t"
proof -
  let ?m = "map (\<lambda>i. load_word d (4 * i)) [0..<16]"
  have "?m ! t = fips_W d t" if "t < length ?m" for t
    using that by (simp add: load_word_fips fips_W.simps[of d t])
  then show "t < 64 \<Longrightarrow> message_schedule d ! t = fips_W d t"
    using extend_schedule_W[of ?m d 48] by (simp add: message_schedule_def)
qed

lemma sha_round_fips: "t < 64 \<Longrightarrow> sha_round (message_schedule d) t v = fips_step d t v"
  by (cases "(d, t, v)" rule: fips_step.cases) (simp add: message_schedule_W Let_def)

lemma sha256_transform_fips: "sha256_transform = fips_compress"
proof (intro ext)
  fix s d
  have "fold (sha_round (message_schedule d)) [0..<64] v = fold (fips_step d) [0..<64] v" for v
    by (rule fold_cong) (auto simp: sha_round_fips fun_eq_iff)
  then show "sha256_transform s d = fips_compress s d"
    by (simp add: sha256_transform_def fips_compress_def Let_def)
qed

subsection \<open>Streaming\<close>

lemma run_blocks_short [simp]: "length xs < 64 \<Longrightarrow> run_blocks tr s xs = s"
  by (simp add: run_blocks.simps)

lemma run_blocks_one [simp]:
  "length b = 64 \<Longrightarrow> run_blocks tr s (b @ xs) = run_blocks tr (tr s b) xs"
  by (subst run_blocks.simps) simp

lemma run_blocks_exact [simp]: "length b = 64 \<Longrightarrow> run_blocks tr s b = tr s b"
  using run_blocks_one[of b tr s "[]"] by simp

lemma run_blocks_append:
  "64 dvd length xs \<Longrightarrow> run_blocks tr s (xs @ ys) = run_blocks tr (run_blocks tr s xs) ys"
proof (induction tr s xs rule: run_blocks.induct)
  case (1 tr s xs)
  show ?case
  proof (cases "length xs < 64")
    case True
    with 1 have "xs = []" by (auto elim: dvdE)
    then show ?thesis by simp
  next
    case False
    then have "64 dvd length (drop 64 xs)"
      using 1(2) by (simp add: dvd_diff_nat)
    with 1(1) False show ?thesis
      by (simp add: run_blocks.simps[of tr s xs] run_blocks.simps[of tr s "xs @ ys"])
  qed
qed

text \<open>
  What the context stands for after the message \<open>msg\<close>: the whole blocks of the message have gone
  through the transform, and the rest lies at the front of the buffer.
\<close>

definition sha_inv :: "sha256_ctx \<Rightarrow> byte list \<Rightarrow> bool" where
  "sha_inv ctx msg \<longleftrightarrow> length (block ctx) = 64 \<and>
     (\<exists>A B. msg = A @ B \<and> 64 dvd length A \<and> length B < 64 \<and> datalen ctx = length B
        \<and> take (length B) (block ctx) = B
        \<and> hstate ctx = run_blocks sha256_transform sha_iv A \<and> bitlen ctx = of_nat (8 * length A))"

lemma sha_inv_init: "length (block ctx) = 64 \<Longrightarrow> sha_inv (sha256_init ctx) []"
  by (simp add: sha_inv_def sha256_init_def)

lemma update_byte_inv:
  assumes "sha_inv ctx msg"
  shows "sha_inv (update_byte x ctx) (msg @ [x])"
proof -
  from assms obtain A B where
    AB: "msg = A @ B" "64 dvd length A" "length B < 64" "datalen ctx = length B"
      "take (length B) (block ctx) = B" "hstate ctx = run_blocks sha256_transform sha_iv A"
      "bitlen ctx = of_nat (8 * length A)" and blk: "length (block ctx) = 64"
    by (auto simp: sha_inv_def)
  let ?d = "(block ctx)[length B := x]"
  have Bx: "take (length (B @ [x])) ?d = B @ [x]"
    using AB(3,5) blk by (simp add: take_Suc_conv_app_nth)
  show ?thesis
  proof (cases "length B = 63")
    case True
    then have d: "?d = B @ [x]" using Bx blk by simp
    have "run_blocks sha256_transform sha_iv (A @ (B @ [x]) @ [])
          = sha256_transform (run_blocks sha256_transform sha_iv A) (B @ [x])"
      using AB(2) True by (subst run_blocks_append) simp_all
    then show ?thesis
      unfolding sha_inv_def using AB True d
      by (intro conjI exI[of _ "A @ B @ [x]"] exI[of _ "[]"])
         (simp_all add: update_byte_def blk)
  next
    case False
    then show ?thesis
      unfolding sha_inv_def using AB Bx blk
      by (intro conjI exI[of _ A] exI[of _ "B @ [x]"]) (simp_all add: update_byte_def)
  qed
qed

lemma sha256_update_inv:
  "sha_inv ctx msg \<Longrightarrow> sha_inv (sha256_update ctx xs) (msg @ xs)"
proof (induction xs arbitrary: ctx msg)
  case Nil
  then show ?case by (simp add: sha256_update_def)
next
  case (Cons x xs)
  from Cons.IH[OF update_byte_inv[OF Cons.prems, of x]] show ?case
    by (simp add: sha256_update_def)
qed

lemma sha256_chunks_inv:
  "sha_inv ctx msg \<Longrightarrow> sha_inv (fold (\<lambda>c x. sha256_update x c) chunks ctx) (msg @ concat chunks)"
proof (induction chunks arbitrary: ctx msg)
  case Nil
  then show ?case by simp
next
  case (Cons c cs)
  from Cons.IH[OF sha256_update_inv[OF Cons.prems, of c]] show ?case by simp
qed

subsection \<open>Padding\<close>

lemma zero_fill_eq:
  "i + n \<le> length d \<Longrightarrow> zero_fill n i d = take i d @ replicate n 0 @ drop (i + n) d"
proof (induction n i d rule: zero_fill.induct)
  case (1 i d)
  then show ?case by simp
next
  case (2 n i d)
  then have "zero_fill (Suc n) i d = take (i + 1) (d[i := 0]) @ replicate n 0 @ drop (i + 1 + n) d"
    by simp
  also have "take (i + 1) (d[i := 0]) = take i d @ [0]"
    using 2 by (simp add: take_Suc_conv_app_nth)
  finally show ?case by simp
qed

lemma store_bitlen_eq:
  assumes "length d = 64"
  shows "store_bitlen n d = take 56 d @ map (\<lambda>i. ucast (drop_bit (56 - 8 * i) n)) [0..<8]"
proof -
  obtain P Q where d: "d = P @ Q" "length P = 56" "length Q = 8"
    using assms that[of "take 56 d" "drop 56 d"] by simp
  then obtain a b c e f g h i where "Q = [a, b, c, e, f, g, h, i]"
    by (auto simp: numeral_eq_Suc length_Suc_conv)
  with d show ?thesis
    by (simp add: store_bitlen_def list_update_append upt_rec)
qed

lemma length_bytes64 [simp]: "length (be64 n) = 8"
  by (simp add: be64_def)

lemma ucast_drop_bit_of_nat:
  "k + 8 \<le> 64 \<Longrightarrow> (ucast (drop_bit k (of_nat n :: 64 word)) :: byte) = of_nat (n div 2 ^ k)"
  by (rule bit_word_eqI) (auto simp: bit_simps drop_bit_eq_div[symmetric])

lemma be64_bitlen:
  "map (\<lambda>i. ucast (drop_bit (56 - 8 * i) (of_nat n :: 64 word))) [0..<8] = be64 n"
proof -
  have "(256 :: nat) ^ (7 - i) = 2 ^ (56 - 8 * i)" if "i < 8" for i
  proof -
    have "(256 :: nat) ^ (7 - i) = (2 ^ 8) ^ (7 - i)" by simp
    also have "\<dots> = 2 ^ (8 * (7 - i))" by (simp only: power_mult)
    also have "8 * (7 - i) = 56 - 8 * i" by simp
    finally show ?thesis .
  qed
  then show ?thesis unfolding be64_def
    by (intro map_cong refl) (simp add: ucast_drop_bit_of_nat)
qed

lemma store_bitlen_be64:
  "length d = 64 \<Longrightarrow> store_bitlen (of_nat n) d = take 56 d @ be64 n"
  by (simp only: store_bitlen_eq be64_bitlen)

lemma fips_pad_split:
  assumes "64 dvd length A" "length B < 64"
  shows "fips_pad (A @ B) = A @ (if length B < 56
           then B @ 128 # replicate (55 - length B) 0 @ be64 (8 * length (A @ B))
           else (B @ 128 # replicate (63 - length B) 0)
                @ (replicate 56 0 @ be64 (8 * length (A @ B))))"
proof -
  have m: "length (A @ B) mod 64 = length B"
    using assms by (auto elim!: dvdE)
  show ?thesis
  proof (cases "length B < 56")
    case True
    then have "(119 - length B) mod 64 = 55 - length B" by (simp add: mod_if)
    with True m show ?thesis by (simp add: fips_pad_def)
  next
    case False
    then have "(119 - length B) mod 64 = (63 - length B) + 56"
      using assms(2) by (simp add: mod_if)
    with False m show ?thesis unfolding fips_pad_def by (simp only: replicate_add) simp
  qed
qed

lemma sha256_final_spec:
  assumes "sha_inv ctx msg"
  shows "sha256_final ctx = fips_sha256 msg"
proof -
  from assms obtain A B where
    AB: "msg = A @ B" "64 dvd length A" "length B < 64" "datalen ctx = length B"
      "take (length B) (block ctx) = B" "hstate ctx = run_blocks sha256_transform sha_iv A"
      "bitlen ctx = of_nat (8 * length A)" and blk: "length (block ctx) = 64"
    by (auto simp: sha_inv_def)
  let ?n = "8 * length (A @ B)" and ?d = "(block ctx)[length B := 128]"
  have n: "bitlen ctx + of_nat (datalen ctx) * 8 = of_nat ?n"
    using AB(4,7) by simp
  have B1: "take (length B + 1) ?d = B @ [128]"
    using AB(3,5) blk by (simp add: take_Suc_conv_app_nth)
  show ?thesis
  proof (cases "length B < 56")
    case True
    let ?z = "zero_fill (56 - (length B + 1)) (length B + 1) ?d"
    have z: "?z = B @ 128 # replicate (55 - length B) 0 @ drop 56 ?d"
      using B1 blk True by (subst zero_fill_eq) simp_all
    have "take 56 ?z = B @ 128 # replicate (55 - length B) 0"
      unfolding z using True by (simp add: take_Cons')
    moreover have "length ?z = 64"
      unfolding z using True blk by simp
    ultimately have "store_bitlen (of_nat ?n) ?z
                     = B @ 128 # replicate (55 - length B) 0 @ be64 ?n"
      by (simp only: store_bitlen_be64 append.simps append_assoc)
    then show ?thesis
      using True AB n by (simp add: sha256_final_def fips_sha256_def digest_fips fips_pad_split
          run_blocks_append sha256_transform_fips Let_def
          mult.commute[of "of_nat (length B)" "8 :: 64 word"])
  next
    case False
    let ?d1 = "zero_fill (64 - (length B + 1)) (length B + 1) ?d"
    have d1: "?d1 = B @ 128 # replicate (63 - length B) 0"
      using B1 AB(3) blk by (subst zero_fill_eq) simp_all
    have "store_bitlen (of_nat ?n) (zero_fill 56 0 ?d1) = replicate 56 0 @ be64 ?n"
      unfolding d1 using AB(3) False
      by (subst store_bitlen_be64) (simp_all add: zero_fill_eq)
    moreover have "run_blocks tr s ((B @ 128 # replicate (63 - length B) 0)
          @ (replicate 56 0 @ be64 ?n))
        = tr (tr s (B @ 128 # replicate (63 - length B) 0)) (replicate 56 0 @ be64 ?n)" for tr s
      using AB(3) by (subst run_blocks_one) simp_all
    ultimately show ?thesis
      using False AB n d1 by (simp add: sha256_final_def fips_sha256_def digest_fips fips_pad_split
          run_blocks_append sha256_transform_fips Let_def
          mult.commute[of "of_nat (length B)" "8 :: 64 word"])
  qed
qed

subsection \<open>The constants\<close>

text \<open>
  FIPS 180-4 takes the first 32 bits of the fractional parts of the cube roots of the first 64
  primes and of the square roots of the first 8. \<open>frac_root e p w\<close> says so in whole numbers:
  with the integer part \<open>n\<close> of the root, \<open>n * 2^32 + w\<close> is the floor of \<open>2^32\<close> times the root.
  A number below 361 is prime when it is not a proper multiple of 2, 3, 5, 7, 11, 13 or 17.
\<close>

definition int_root :: "nat \<Rightarrow> nat \<Rightarrow> nat" where
  "int_root e p = 1 + length (filter (\<lambda>n. n ^ e \<le> p) [2..<20])"

definition frac_root :: "nat \<Rightarrow> nat \<Rightarrow> 32 word \<Rightarrow> bool" where
  "frac_root e p w \<longleftrightarrow>
     (let c = int_root e p * 2 ^ 32 + unat w
      in c ^ e \<le> p * 2 ^ (32 * e) \<and> p * 2 ^ (32 * e) < (c + 1) ^ e)"

definition fips_primes :: "nat list" where
  "fips_primes =
     filter (\<lambda>p. list_all (\<lambda>d. p = d \<or> p mod d \<noteq> 0) [2, 3, 5, 7, 11, 13, 17]) [2..<312]"

lemma fips_primes_eq:
  "fips_primes =
     [2, 3, 5, 7, 11, 13, 17, 19, 23, 29, 31, 37, 41, 43, 47, 53, 59, 61, 67, 71, 73, 79, 83, 89,
      97, 101, 103, 107, 109, 113, 127, 131, 137, 139, 149, 151, 157, 163, 167, 173, 179, 181, 191,
      193, 197, 199, 211, 223, 227, 229, 233, 239, 241, 251, 257, 263, 269, 271, 277, 281, 283, 293,
      307, 311]"
  by (simp add: fips_primes_def)

text \<open>
  The round constants of the transform and the initial state that \<open>sha256_init\<close> stores are the
  ones FIPS 180-4 derives from the cube roots of the first 64 primes and the square roots of the
  first 8.
\<close>

theorem sha_constants_fips:
  "list_all2 (frac_root 3) fips_primes sha_k \<and>
   list_all2 (frac_root 2) (take 8 fips_primes) (hstate (sha256_init ctx))"
proof
  show "list_all2 (frac_root 3) fips_primes sha_k"
    by (simp add: fips_primes_eq sha_k_def frac_root_def int_root_def)
  show "list_all2 (frac_root 2) (take 8 fips_primes) (hstate (sha256_init ctx))"
    by (simp add: fips_primes_eq sha256_init_def sha_iv_def frac_root_def int_root_def)
qed

text \<open>
  The block transform (byte loads by shifts, a schedule grown in place, rotations by two shifts,
  eight registers shuffled 64 times) is the compression function of FIPS 180-4 on every state and
  block.
\<close>

theorem sha256_transform_is_fips_compress:
  "sha256_transform s d = fips_compress s d"
  by (simp only: sha256_transform_fips)

text \<open>
  C10. Hashing a file: whatever chunks the reads deliver and whatever the uninitialised buffer held,
  the digest is the FIPS 180-4 digest of the concatenation of the chunks.
\<close>

theorem sha256_chunks_correct:
  assumes "length (block ctx) = 64"
  shows "sha256_chunks ctx chunks = fips_sha256 (concat chunks)"
  unfolding sha256_chunks_def
  using sha256_final_spec[OF sha256_chunks_inv[OF sha_inv_init[OF assms], of chunks]] by simp

theorem sha256_chunks_correct_witness:
  "sha256_chunks \<lparr>bitlen = 0, hstate = [], block = replicate 64 7, datalen = 0\<rparr> [[97], [98, 99]]
   = fips_sha256 [97, 98, 99]"
  using sha256_chunks_correct
    [of "\<lparr>bitlen = 0, hstate = [], block = replicate 64 7, datalen = 0\<rparr>" "[[97], [98, 99]]"]
  by simp

text \<open>
  A digest has 32 bytes, and feeding a context in pieces is the same as feeding it at once.
\<close>

theorem sha256_stream_laws:
  "sha256_update (sha256_update ctx xs) ys = sha256_update ctx (xs @ ys)
   \<and> length (sha256_final ctx) = 32"
  by (simp add: sha256_update_def sha256_final_def sha_digest_def sha256_transform_def Let_def
      split: prod.splits)

end
