(* ===== verification/Files.thy ===== *)
theory Files
  imports World Sha256
begin

section \<open>Copying and hashing files (\<open>core/util.c\<close>)\<close>

text \<open>
  \<open>rw_copy_file\<close> and \<open>rw_sha256_file\<close>. A text is a list of characters, the hash works on bytes; the two
  views convert into each other without loss. The read loop of the hash hands over pieces of 65536
  bytes.
\<close>

definition str_bytes :: "string \<Rightarrow> byte list" where
  "str_bytes s = map (\<lambda>c. word_of_nat (chr_code c)) s"

definition byte_chr :: "byte \<Rightarrow> char" where
  "byte_chr b = char_of (unat b)"

definition bytes_str :: "byte list \<Rightarrow> string" where
  "bytes_str bs = map byte_chr bs"

lemma chr_code_byte_chr: "chr_code (byte_chr b) = unat b"
  using unsigned_less[of b, where ?'a = nat] by (simp add: chr_code_def byte_chr_def)

lemma str_bytes_bytes_str [simp]: "str_bytes (bytes_str bs) = bs"
  by (induction bs) (simp_all add: str_bytes_def bytes_str_def chr_code_byte_chr)

lemma bytes_str_str_bytes [simp]: "bytes_str (str_bytes s) = s"
proof (induction s)
  case (Cons c s)
  have "(of_char c :: nat) < 256" by simp
  then have "unat (word_of_nat (of_char c) :: byte) = of_char c"
    by (simp add: unat_of_nat take_bit_nat_eq_self)
  with Cons show ?case by (simp add: str_bytes_def bytes_str_def chr_code_def byte_chr_def)
qed (simp add: str_bytes_def bytes_str_def)

function chunks :: "nat \<Rightarrow> 'a list \<Rightarrow> 'a list list" where
  "chunks n xs = (if xs = [] \<or> n = 0 then [] else take n xs # chunks n (drop n xs))"
  by pat_completeness auto
termination by (relation "measure (\<lambda>(n, xs). length xs)") auto

declare chunks.simps [simp del]

lemma concat_chunks: "0 < n \<Longrightarrow> concat (chunks n xs) = xs"
proof (induction n xs rule: chunks.induct)
  case (1 n xs)
  then show ?case by (subst chunks.simps) simp
qed

definition blank_ctx :: sha256_ctx where
  "blank_ctx = \<lparr>bitlen = 0, hstate = [], block = replicate 64 0, datalen = 0\<rparr>"

text \<open>
  The 64 hexadecimal digits, or \<open>None\<close> where the file does not open. A read that fails after \<open>k\<close> bytes ends
  the loop like the end of the file: the digest is that of the bytes read so far, and nothing tells of it.
\<close>

definition rw_sha256_file :: "os \<Rightarrow> string \<Rightarrow> 'a world_scheme \<Rightarrow> string option \<times> 'a world_scheme" where
  "rw_sha256_file w path s =
     (let (r, s1) = sys_read w path s
      in case r of
           None \<Rightarrow> (None, s1)
         | Some txt \<Rightarrow>
             (let got = (case env_io_error w (clk s1) path of None \<Rightarrow> txt | Some k \<Rightarrow> take k txt)
              in (Some (concat (map hex2 (sha256_chunks blank_ctx (chunks 65536 (str_bytes got))))), tick s1)))"

lemma sha256_file_digest:
  "files s path = Some txt \<Longrightarrow> env_io_error w (Suc (clk s)) path = None \<Longrightarrow>
   fst (rw_sha256_file w path s) = Some (concat (map hex2 (fips_sha256 (str_bytes txt))))"
  using sha256_final_spec[OF sha256_chunks_inv[OF sha_inv_init[of blank_ctx],
      of "chunks 65536 (str_bytes txt)"]]
  by (simp add: rw_sha256_file_def sys_read_def sha256_chunks_def concat_chunks blank_ctx_def tick_def)

lemma sha256_file_read_error:
  "files s path = Some txt \<Longrightarrow> env_io_error w (Suc (clk s)) path = Some k \<Longrightarrow>
   fst (rw_sha256_file w path s) = Some (concat (map hex2 (fips_sha256 (str_bytes (take k txt)))))"
  using sha256_final_spec[OF sha256_chunks_inv[OF sha_inv_init[of blank_ctx],
      of "chunks 65536 (str_bytes (take k txt))"]]
  by (simp add: rw_sha256_file_def sys_read_def sha256_chunks_def concat_chunks blank_ctx_def tick_def)

text \<open>
  The loops of \<open>rw_copy_file\<close> write everything that was read, however short the writes are. A read or
  write that fails after so many bytes leaves the copied part behind and reports failure.
\<close>

definition rw_copy_file :: "os \<Rightarrow> string \<Rightarrow> string \<Rightarrow> 'a world_scheme \<Rightarrow> int \<times> 'a world_scheme" where
  "rw_copy_file w src dst s =
     (let (r, s1) = sys_read w src s
      in case r of
           None \<Rightarrow> (-1, s1)
         | Some txt \<Rightarrow>
             (let (ok, s2) = sys_fopen_w w dst s1
              in if \<not> ok then (-1, s2)
                 else case env_io_error w (clk s2) src of
                        None \<Rightarrow> (0, fprintf_to dst txt (tick s2))
                      | Some k \<Rightarrow> (-1, fprintf_to dst (take k txt) (tick s2))))"

lemma world_only_files:
  "world_only s (snd (rw_sha256_file w path s))" "world_only s (snd (rw_copy_file w src dst s))"
proof -
  show "world_only s (snd (rw_sha256_file w path s))"
    using world_only_calls(3)[of s w path]
    by (simp add: rw_sha256_file_def world_only_def tick_def split_beta Let_def split: option.split)
  obtain r s1 where r: "sys_read w src s = (r, s1)" by fastforce
  obtain ok s2 where o: "sys_fopen_w w dst s1 = (ok, s2)" by fastforce
  have "world_only s s1" using world_only_calls(3)[of s w src] r by simp
  moreover have "world_only s1 s2" using world_only_calls(9)[of s1 w dst] o by simp
  ultimately show "world_only s (snd (rw_copy_file w src dst s))"
    by (simp add: rw_copy_file_def r o world_only_def put_file_def fprintf_to_def tick_def
        split: option.split)
qed

end
