(* ===== verification/Memscan.thy ===== *)
theory Memscan
  imports Files Shellcode
begin

section \<open>Memory scanner (\<open>detect/memscan.c\<close>)\<close>

text \<open>
  The scan of a process's memory into a case directory: the parser of \<open>/proc/<pid>/maps\<close>, the choice
  of suspicious mappings, the header and string detectors and the dump of what was read. A finding is
  reported through \<open>rw_score_add\<close>, which may open a case and scan again; here that call is an
  argument \<open>add\<close> (a reason and points, the pid, the category "memory" and the configuration are
  fixed for one scan), and theory \<open>Cases\<close> closes the recursion. A call that does not return is \<open>None\<close>.
\<close>

definition SH_MEMSCAN_MAX_REGION_DUMP :: nat where
  "SH_MEMSCAN_MAX_REGION_DUMP = 1024 * 1024"

record map_region =
  mr_start :: nat
  mr_end :: nat
  mr_perms :: string
  mr_path :: string

subsection \<open>Parsing a line of the map\<close>

definition skip_word :: "string \<Rightarrow> string option" where
  "skip_word s = map_option snd (scan_word (length s) s)"

text \<open>\<open>%<w>[^\<newline>]\<close> after a blank of the format: the rest of the line, \<open>None\<close> when there is none.\<close>

definition scan_rest :: "nat \<Rightarrow> string \<Rightarrow> string option" where
  "scan_rest w s =
     (let r = take w (takeWhile (\<lambda>c. c \<noteq> newline) (skip_space s)) in if r = [] then None else Some r)"

definition scan_path :: "string \<Rightarrow> string option" where
  "scan_path s = Option.bind (skip_word s) (\<lambda>s1. Option.bind (skip_word s1)
     (\<lambda>s2. Option.bind (skip_word s2) (scan_rest 511)))"

definition clamp_ulong :: "nat \<Rightarrow> nat" where
  "clamp_ulong n = min n (2 ^ 64 - 1)"

definition parse_maps_line :: "limits \<Rightarrow> string \<Rightarrow> map_region option" where
  "parse_maps_line L line =
     (case scan_word 63 line of
        None \<Rightarrow> None
      | Some (rng, r1) \<Rightarrow>
          (case scan_word 7 r1 of
             None \<Rightarrow> None
           | Some (perms, r2) \<Rightarrow>
               (case scan_hex rng of
                  None \<Rightarrow> None
                | Some (a, t1) \<Rightarrow>
                    (case scan_lit ''-'' t1 of
                       None \<Rightarrow> None
                     | Some t2 \<Rightarrow>
                         (case scan_hex t2 of
                            None \<Rightarrow> None
                          | Some (b, _) \<Rightarrow>
                              Some \<lparr>mr_start = clamp_ulong a, mr_end = clamp_ulong b, mr_perms = perms,
                                    mr_path = (case scan_path r2 of
                                                 None \<Rightarrow> []
                                               | Some p \<Rightarrow> cstr_copy (max_path L) p)\<rparr>)))))"

definition interesting_mapping :: "map_region \<Rightarrow> bool" where
  "interesting_mapping r =
     (let has_x = CHR ''x'' \<in> set (mr_perms r);
          has_w = CHR ''w'' \<in> set (mr_perms r);
          has_path = mr_path r \<noteq> []
      in if has_x \<and> has_w then True
         else if has_x \<and> \<not> has_path then True
         else if has_x \<and> strstr (mr_path r) ''(deleted)'' then True
         else if has_x \<and> strstr (mr_path r) ''/memfd:'' then True
         else if has_x \<and> rw_suspicious_path (Some (mr_path r)) then True
         else False)"

subsection \<open>Looking at the bytes\<close>

text \<open>
  \<open>read_region\<close> repeats \<open>pread\<close> until the buffer is full or the file ends; an interrupted call is
  repeated, so a signal storm keeps it from returning. The first component of the result is \<open>None\<close>
  where the source returns -1.
\<close>

partial_function (option) read_region ::
  "os \<Rightarrow> string \<Rightarrow> nat \<Rightarrow> nat \<Rightarrow> byte list \<Rightarrow> nat \<Rightarrow> (byte list option \<times> nat) option" where
  "read_region w path start len done t =
     (if length done < len then
        (case env_pread w t path (start + length done) (len - length done) of
           PErr \<Rightarrow> Some (None, Suc t)
         | PIntr \<Rightarrow> read_region w path start len done (Suc t)
         | PBytes bs \<Rightarrow>
             if bs = [] then Some (Some done, Suc t)
             else read_region w path start len (done @ bs) (Suc t))
      else Some (Some done, t))"

definition sys_read_region ::
  "os \<Rightarrow> string \<Rightarrow> nat \<Rightarrow> nat \<Rightarrow> 'a world_scheme \<Rightarrow> (byte list option \<times> 'a world_scheme) option" where
  "sys_read_region w path start len s =
     map_option (\<lambda>(r, t). (r, s\<lparr>clk := t\<rparr>)) (read_region w path start len [] (clk s))"

definition has_elf_header :: "byte list \<Rightarrow> bool" where
  "has_elf_header buf \<longleftrightarrow> length buf \<ge> 4 \<and> buf ! 0 = 127 \<and> buf ! 1 = 69 \<and> buf ! 2 = 76 \<and> buf ! 3 = 70"

definition has_pe_header :: "byte list \<Rightarrow> bool" where
  "has_pe_header buf =
     (if length buf < 64 then False
      else if buf ! 0 \<noteq> 77 \<or> buf ! 1 \<noteq> 90 then False
      else (let peoff = unat (rd32_le (drop 60 buf))
            in if peoff + 4 > length buf then False
               else buf ! peoff = 80 \<and> buf ! (peoff + 1) = 69 \<and> buf ! (peoff + 2) = 0
                    \<and> buf ! (peoff + 3) = 0))"

definition hex_sample :: "byte list \<Rightarrow> string" where
  "hex_sample buf =
     (let n = (if length buf < 64 then length buf else 64)
      in concat (map (\<lambda>i. hex2 (buf ! i) @ [if (i + 1) mod 16 = 0 then newline else CHR '' '']) [0..<n])
         @ (if n mod 16 \<noteq> 0 then [newline] else []))"

definition marked_string :: "string \<Rightarrow> bool" where
  "marked_string s \<longleftrightarrow> strstr s ''http://'' \<or> strstr s ''https://'' \<or> strstr s ''/bin/''
     \<or> strstr s ''/tmp/'' \<or> strstr s ''socket'' \<or> strstr s ''connect'' \<or> strstr s ''exec''
     \<or> strstr s ''LD_PRELOAD'' \<or> strstr s ''memfd'' \<or> strstr s ''/dev/shm''"

text \<open>The loop of \<open>extract_interesting_strings\<close>; the second argument is the buffer \<open>s\<close> up to \<open>pos\<close>.\<close>

fun extract_loop :: "byte list \<Rightarrow> string \<Rightarrow> string" where
  "extract_loop [] s = (if length s \<ge> 5 then s @ [newline] else [])"
| "extract_loop (b # bs) s =
     (if (isprint b \<or> b = 9) \<and> length s + 1 < 512 then extract_loop bs (s @ [byte_chr b])
      else (if length s \<ge> 5 \<and> marked_string s then s @ [newline] else []) @ extract_loop bs [])"

definition interesting_strings :: "byte list \<Rightarrow> string" where
  "interesting_strings buf = extract_loop buf []"

definition dump_region :: "limits \<Rightarrow> os \<Rightarrow> string \<Rightarrow> nat \<Rightarrow> byte list \<Rightarrow> 'a world_scheme \<Rightarrow> 'a world_scheme" where
  "dump_region L w case_dir idx buf s =
     (let path = case_dir @ ''/mem_region_'' @ pad_zero 3 (show_nat idx) @ ''.bin''
      in if length path \<ge> max_path L then s
         else (let (ok, s1) = sys_fopen_w w path s
               in if ok then fprintf_to path (bytes_str buf) s1 else s1))"

subsection \<open>The scan\<close>

record scan_request =
  rq_pid :: pid
  rq_dir :: string
  rq_freeze :: bool
  rq_max_region :: nat

text \<open>The paths of one scan; these \<open>snprintf\<close>s are not checked and may cut the path.\<close>

definition findings_file :: "limits \<Rightarrow> string \<Rightarrow> string" where
  "findings_file L dir = cstr_copy (max_path L) (dir @ ''/memory_findings.txt'')"

definition strings_file :: "limits \<Rightarrow> string \<Rightarrow> string" where
  "strings_file L dir = cstr_copy (max_path L) (dir @ ''/memory_strings.txt'')"

definition map_text :: "map_region \<Rightarrow> string" where
  "map_text r = show_hex (mr_start r) @ ''-'' @ show_hex (mr_end r)"

text \<open>One indicator: a line in the findings file, the score, the count.\<close>

definition indicator ::
  "(string \<Rightarrow> int \<Rightarrow> 'a world_scheme \<Rightarrow> 'a world_scheme option) \<Rightarrow> string \<Rightarrow> bool \<Rightarrow> string \<Rightarrow> int
     \<Rightarrow> 'a world_scheme \<times> int \<Rightarrow> ('a world_scheme \<times> int) option" where
  "indicator add file c reason points st =
     (if c then map_option (\<lambda>s. (s, snd st + 1))
                  (add reason points (fprintf_to file (''indicator='' @ reason @ [newline]) (fst st)))
      else Some st)"

definition scan_shellcode ::
  "os \<Rightarrow> (string \<Rightarrow> int \<Rightarrow> 'a world_scheme \<Rightarrow> 'a world_scheme option) \<Rightarrow> string \<Rightarrow> byte list
     \<Rightarrow> 'a world_scheme \<times> int \<Rightarrow> ('a world_scheme \<times> int) option" where
  "scan_shellcode w add file buf st =
     (let sc = sh_shellcode_scan (env_uname w) (Some buf)
      in if finding_count sc > 0
         then map_option (\<lambda>s. (s, snd st + int (finding_count sc)))
                (add ''shellcode-like byte patterns in suspicious mapping''
                   (if sc_score sc \<ge> 60 then 60 else sc_score sc)
                   (fprintf_to file (concat (sh_shellcode_write_report sc)) (fst st)))
         else Some st)"

definition scan_indicators ::
  "os \<Rightarrow> (string \<Rightarrow> int \<Rightarrow> 'a world_scheme \<Rightarrow> 'a world_scheme option) \<Rightarrow> string \<Rightarrow> map_region
     \<Rightarrow> byte list \<Rightarrow> 'a world_scheme \<times> int \<Rightarrow> ('a world_scheme \<times> int) option" where
  "scan_indicators w add file r buf st =
     Option.bind (indicator add file (has_elf_header buf) ''ELF header in suspicious mapping'' 60 st)
     (\<lambda>st. Option.bind (indicator add file (has_pe_header buf) ''PE header in suspicious mapping'' 60 st)
     (\<lambda>st. Option.bind (indicator add file (CHR ''x'' \<in> set (mr_perms r) \<and> CHR ''w'' \<in> set (mr_perms r))
                          ''RWX mapping scanned'' 25 st)
     (\<lambda>st. Option.bind (indicator add file (strstr (mr_path r) ''/memfd:'')
                          ''executable memfd mapping scanned'' 35 st)
     (scan_shellcode w add file buf))))"

text \<open>
  The body of the loop over the map for a line that parses and is of interest. \<open>strings\<close> says
  whether the strings file is open; the state carries the count of findings and the region index.
\<close>

definition scan_region ::
  "limits \<Rightarrow> os \<Rightarrow> (string \<Rightarrow> int \<Rightarrow> 'a world_scheme \<Rightarrow> 'a world_scheme option) \<Rightarrow> scan_request \<Rightarrow> bool
     \<Rightarrow> map_region \<Rightarrow> 'a world_scheme \<times> int \<times> nat \<Rightarrow> ('a world_scheme \<times> int \<times> nat) option" where
  "scan_region L w add req strings r st = (case st of (s, n, idx) \<Rightarrow>
     let file = findings_file L (rq_dir req);
         region_len = (if mr_end r > mr_start r then mr_end r - mr_start r else 0)
     in if region_len = 0 then Some (s, n, idx)
        else
          let cap = (if rq_max_region req = 0 \<or> rq_max_region req > SH_MEMSCAN_MAX_REGION_DUMP
                     then SH_MEMSCAN_MAX_REGION_DUMP else rq_max_region req);
              to_read = (if region_len < cap then region_len else cap)
          in if \<not> env_malloc w (clk s) to_read
             then Some (fprintf_to file (''malloc failed region='' @ map_text r @ [newline]) (tick s), n, idx)
             else Option.bind (sys_read_region w (proc_path (rq_pid req) ''mem'') (mr_start r) to_read (tick s))
               (\<lambda>(got, s1).
                 if got = None \<or> got = Some []
                 then Some (fprintf_to file
                        (''read failed region='' @ map_text r @ '' perms='' @ mr_perms r @ '' path=''
                         @ mr_path r @ '' err='' @ env_strerror w (clk s1) @ [newline]) s1, n, idx)
                 else
                   let buf = the got;
                       s2 = fprintf_to file
                         ([newline] @ ''region='' @ map_text r @ '' read='' @ show_nat (length buf) @ ''/''
                          @ show_nat to_read @ '' perms='' @ mr_perms r @ '' path='' @ mr_path r
                          @ [newline] @ hex_sample buf) s1
                   in map_option (\<lambda>(s3, n3).
                        let s4 = (if strings
                                  then fprintf_to (strings_file L (rq_dir req))
                                    ([newline] @ ''# region='' @ map_text r @ '' perms='' @ mr_perms r
                                     @ '' path='' @ mr_path r @ [newline] @ interesting_strings buf) s3
                                  else s3)
                        in (dump_region L w (rq_dir req) idx buf s4, n3, idx + 1))
                      (scan_indicators w add file r buf (s2, n))))"

fun scan_lines ::
  "limits \<Rightarrow> os \<Rightarrow> (string \<Rightarrow> int \<Rightarrow> 'a world_scheme \<Rightarrow> 'a world_scheme option) \<Rightarrow> scan_request \<Rightarrow> bool
     \<Rightarrow> string list \<Rightarrow> 'a world_scheme \<times> int \<times> nat \<Rightarrow> ('a world_scheme \<times> int \<times> nat) option" where
  "scan_lines L w add req strings [] st = Some st"
| "scan_lines L w add req strings (l # ls) st =
     (case parse_maps_line L l of
        None \<Rightarrow> scan_lines L w add req strings ls st
      | Some r \<Rightarrow>
          if \<not> interesting_mapping r then scan_lines L w add req strings ls st
          else Option.bind (scan_region L w add req strings r st) (scan_lines L w add req strings ls))"

text \<open>Between the label \<open>out\<close>'s two uses: everything that needs the findings file.\<close>

definition scan_memory ::
  "limits \<Rightarrow> os \<Rightarrow> (string \<Rightarrow> int \<Rightarrow> 'a world_scheme \<Rightarrow> 'a world_scheme option) \<Rightarrow> scan_request
     \<Rightarrow> 'a world_scheme \<Rightarrow> (int \<times> 'a world_scheme) option" where
  "scan_memory L w add req s =
     (let file = findings_file L (rq_dir req);
          (now, s1) = sys_time w s;
          s2 = fprintf_to file (''memory scan pid='' @ show_int (rq_pid req) @ '' time='' @ show_int now
                                @ [newline]) s1;
          (maps, s3) = sys_read w (proc_path (rq_pid req) ''maps'') s2
      in case maps of
           None \<Rightarrow> Some (0, fprintf_to file (''maps unavailable: '' @ env_strerror w (clk s3) @ [newline]) s3)
         | Some txt \<Rightarrow>
             if \<not> env_open w (clk s3) (proc_path (rq_pid req) ''mem'')
             then Some (0, fprintf_to file (''mem unavailable: '' @ env_strerror w (clk s3) @ [newline]) (tick s3))
             else (let (strings, s4) = sys_fopen_a w (strings_file L (rq_dir req)) (tick s3)
                   in map_option (\<lambda>(s5, n, idx). (n, s5))
                        (scan_lines L w add req strings (fgets_lines 4096 txt) (s4, 0, 0))))"

definition SIGSTOP :: int where "SIGSTOP = 19"

definition SIGCONT :: int where "SIGCONT = 18"

definition sh_memscan_pid ::
  "limits \<Rightarrow> os \<Rightarrow> (string \<Rightarrow> int \<Rightarrow> 'a world_scheme \<Rightarrow> 'a world_scheme option) \<Rightarrow> scan_request
     \<Rightarrow> 'a world_scheme \<Rightarrow> (int \<times> 'a world_scheme) option" where
  "sh_memscan_pid L w add req s =
     (if rq_pid req \<le> 0 then Some (-1, s)
      else
        let (stopped, s1) = (if rq_freeze req then sys_kill w (rq_pid req) SIGSTOP s else (False, s));
            file = findings_file L (rq_dir req);
            (ok, s2) = sys_fopen_a w file s1
        in map_option (\<lambda>(n, s3). (n, if stopped then snd (sys_kill w (rq_pid req) SIGCONT s3) else s3))
             (if \<not> ok then Some (0, s2)
              else map_option (\<lambda>(n, s3).
                     (n, fprintf_to file ([newline] @ ''findings='' @ show_int n @ [newline]) s3))
                   (scan_memory L w add req s2)))"

subsection \<open>What the scanner needs of the score, and what it promises\<close>

lemma world_only_memscan [world_only_intros]:
  "world_only s (dump_region L w dir idx buf s)"
  "sys_read_region w path start len s = Some (r, s') \<Longrightarrow> world_only s s'"
  by (auto simp: dump_region_def Let_def split_beta world_only_def sys_read_region_def
      world_only_calls[unfolded world_only_def] split: if_splits)

text \<open>
  The interface between the scanner and the scoring: \<open>keeps\<close> is any property of the state that calls
  of the operating system and the reports of findings preserve. The scan then preserves it too.
\<close>

locale finding_keeper =
  fixes add :: "string \<Rightarrow> int \<Rightarrow> 'a world_scheme \<Rightarrow> 'a world_scheme option"
    and keeps :: "'a world_scheme \<Rightarrow> bool"
  assumes world: "keeps s \<Longrightarrow> world_only s s' \<Longrightarrow> keeps s'"
    and add_keeps: "keeps s \<Longrightarrow> add r p s = Some s' \<Longrightarrow> keeps s'"
begin

lemmas keeps_calls = world_only_calls[THEN world[rotated]] world_only_memscan(1)[THEN world[rotated]]

lemma indicator_keeps:
  "indicator add file c r p st = Some st' \<Longrightarrow> keeps (fst st) \<Longrightarrow> keeps (fst st') \<and> snd st \<le> snd st'"
  by (auto simp: indicator_def split: if_splits intro: add_keeps keeps_calls)

lemma scan_shellcode_keeps:
  "scan_shellcode w add file buf st = Some st' \<Longrightarrow> keeps (fst st) \<Longrightarrow> keeps (fst st') \<and> snd st \<le> snd st'"
  by (auto simp: scan_shellcode_def Let_def split: if_splits intro: add_keeps keeps_calls)

lemma scan_indicators_keeps:
  assumes "scan_indicators w add file r buf st = Some st'" "keeps (fst st)"
  shows "keeps (fst st') \<and> snd st \<le> snd st'"
  using assms unfolding scan_indicators_def
  by (auto simp: bind_eq_Some_conv dest!: indicator_keeps scan_shellcode_keeps)

lemma scan_region_keeps:
  assumes "scan_region L w add req strings r (s, n, idx) = Some (s', n', idx')" "keeps s"
  shows "keeps s' \<and> n \<le> n' \<and> idx \<le> idx'"
proof -
  have A: "keeps (tick s)" "\<And>p t. keeps (fprintf_to p t (tick s))"
    using assms(2) by (auto intro: keeps_calls)
  have R: "\<And>x s1 p a b. sys_read_region w p a b (tick s) = Some (x, s1) \<Longrightarrow> keeps s1"
    using world[OF A(1) world_only_memscan(2)] by blast
  show ?thesis
    using assms unfolding scan_region_def Let_def
    by (auto simp: bind_eq_Some_conv A intro!: keeps_calls dest!: scan_indicators_keeps R
        split: if_splits prod.splits)
qed

lemma scan_lines_keeps:
  "scan_lines L w add req strings ls (s, n, idx) = Some (s', n', idx') \<Longrightarrow> keeps s
   \<Longrightarrow> keeps s' \<and> n \<le> n' \<and> idx \<le> idx'"
proof (induction ls arbitrary: s n idx)
  case (Cons l ls)
  show ?case
  proof (cases "\<exists>r. parse_maps_line L l = Some r \<and> interesting_mapping r")
    case False
    with Cons show ?thesis by (auto split: option.splits if_splits)
  next
    case True
    then obtain r s1 n1 idx1 where "scan_region L w add req strings r (s, n, idx) = Some (s1, n1, idx1)"
      "scan_lines L w add req strings ls (s1, n1, idx1) = Some (s', n', idx')"
      using Cons.prems(1) by (auto simp: bind_eq_Some_conv)
    with scan_region_keeps[OF _ Cons.prems(2)] Cons.IH show ?thesis by (meson order_trans)
  qed
qed simp

lemma scan_memory_keeps:
  assumes "scan_memory L w add req s = Some (n, s')" "keeps s"
  shows "keeps s' \<and> 0 \<le> n"
  using assms unfolding scan_memory_def Let_def
  by (auto simp: split_beta intro!: keeps_calls dest!: scan_lines_keeps split: option.splits if_splits)

text \<open>The result of a scan is the number of findings, -1 where there was no process to scan.\<close>

theorem memscan_keeps:
  assumes "sh_memscan_pid L w add req s = Some (n, s')" "keeps s"
  shows "keeps s' \<and> (if rq_pid req \<le> 0 then n = -1 else 0 \<le> n)"
proof (cases "rq_pid req \<le> 0")
  case True
  with assms show ?thesis by (simp add: sh_memscan_pid_def)
next
  case False
  define s1 where "s1 = (if rq_freeze req then snd (sys_kill w (rq_pid req) SIGSTOP s) else s)"
  define s2 where "s2 = snd (sys_fopen_a w (findings_file L (rq_dir req)) s1)"
  have k: "keeps s2" using assms(2) by (auto simp: s1_def s2_def intro: keeps_calls)
  obtain m s3 where m: "n = m" "s' = s3 \<or> s' = snd (sys_kill w (rq_pid req) SIGCONT s3)"
    "(m = 0 \<and> s3 = s2) \<or> (\<exists>s4 f t. scan_memory L w add req s2 = Some (m, s4) \<and> s3 = fprintf_to f t s4)"
    using assms(1) False unfolding sh_memscan_pid_def Let_def s1_def s2_def
    by (auto simp: split_beta split: if_splits)
  have "keeps s3 \<and> 0 \<le> m" using m(3) k scan_memory_keeps by (auto intro: keeps_calls)
  with m False show ?thesis by (auto intro: keeps_calls)
qed

end


text \<open>
  What \<open>pread\<close> documents: it never returns more than was asked for, and a caller that repeats an
  interrupted call is not interrupted for ever.
\<close>

definition pread_ok :: "os \<Rightarrow> bool" where
  "pread_ok w \<longleftrightarrow> (\<forall>t path off n bs. env_pread w t path off n = PBytes bs \<longrightarrow> length bs \<le> n)
     \<and> (\<forall>t path off n. \<exists>k. env_pread w (t + k) path off n \<noteq> PIntr)"

lemma read_region_returns:
  assumes "pread_ok w" "length done \<le> len"
  shows "\<exists>r t'. read_region w path start len done t = Some (r, t') \<and> (\<forall>bs. r = Some bs \<longrightarrow> length bs \<le> len)"
  using assms(2)
proof (induction "len - length done" arbitrary: "done" t rule: less_induct)
  case less
  let ?ask = "\<lambda>t. env_pread w t path (start + length done) (len - length done)"
  let ?goal = "\<lambda>t. \<exists>r t'. read_region w path start len done t = Some (r, t')
    \<and> (\<forall>bs. r = Some bs \<longrightarrow> length bs \<le> len)"
  have answered: "?goal t" if "?ask t \<noteq> PIntr" for t
  proof (cases "length done < len \<and> (\<exists>bs. bs \<noteq> [] \<and> ?ask t = PBytes bs)")
    case True
    then obtain bs where bs: "bs \<noteq> []" "?ask t = PBytes bs" by blast
    then have "length bs \<le> len - length done" using assms(1) unfolding pread_ok_def by blast
    with True bs have "len - length (done @ bs) < len - length done" "length (done @ bs) \<le> len"
      by (cases bs; simp)+
    from less.hyps[OF this, of "Suc t"] bs True show ?thesis by (subst read_region.simps) auto
  qed (use that less.prems in \<open>subst read_region.simps; auto split: pread_result.splits\<close>)
  obtain k where "?ask (t + k) \<noteq> PIntr" using assms(1) unfolding pread_ok_def by blast
  then show ?case
  proof (induction k arbitrary: t)
    case 0
    then show ?case using answered[of t] by simp
  next
    case (Suc k)
    show ?case
    proof (cases "length done < len \<and> ?ask t = PIntr")
      case True
      with Suc.IH[of "Suc t"] Suc.prems show ?thesis by (subst read_region.simps) simp
    next
      case False
      with answered show ?thesis using less.prems by (cases "?ask t = PIntr") (subst read_region.simps, auto)
    qed
  qed
qed

lemma sys_read_region_returns:
  "pread_ok w \<Longrightarrow> \<exists>r s'. sys_read_region w path start len s = Some (r, s') \<and> (\<forall>bs. r = Some bs \<longrightarrow> length bs \<le> len)"
  using read_region_returns[of w "[]" len path start "clk s"] by (auto simp: sys_read_region_def)

locale finding_sink = finding_keeper +
  assumes add_returns: "keeps s \<Longrightarrow> add r p s \<noteq> None"
begin

lemma report_returns: "keeps s \<Longrightarrow> add r p (fprintf_to f t s) \<noteq> None"
  by (rule add_returns[OF keeps_calls(11)])

lemma indicator_returns: "keeps (fst st) \<Longrightarrow> indicator add fname c r p st \<noteq> None"
  using report_returns[of "fst st"] by (simp add: indicator_def)

lemma scan_shellcode_returns: "keeps (fst st) \<Longrightarrow> scan_shellcode w add fname buf st \<noteq> None"
  using report_returns[of "fst st"] by (simp add: scan_shellcode_def Let_def)

lemma scan_indicators_returns: "keeps (fst st) \<Longrightarrow> scan_indicators w add fname r buf st \<noteq> None"
  unfolding scan_indicators_def bind_eq_None_conv
  by (metis indicator_returns indicator_keeps scan_shellcode_returns option.exhaust_sel)

lemma scan_region_returns:
  assumes "pread_ok w" "keeps s"
  shows "scan_region L w add req strings r (s, n, idx) \<noteq> None"
proof -
  have read: "sys_read_region w p a b (tick s) \<noteq> None" for p a b
    using sys_read_region_returns[OF assms(1), of p a b "tick s"] by auto
  have "scan_indicators w add f1 r buf
      (fprintf_to f t (snd (the (sys_read_region w p a b (tick s)))), n) \<noteq> None" for f1 buf f t p a b
    using read[of p a b] world[OF keeps_calls(1)[OF assms(2)] world_only_memscan(2)]
    by (intro scan_indicators_returns) (auto intro: keeps_calls)
  with read show ?thesis
    unfolding scan_region_def Let_def prod.case
    by (simp add: bind_eq_None_conv split_beta del: not_None_eq)
qed

lemma scan_lines_returns:
  "pread_ok w \<Longrightarrow> keeps s \<Longrightarrow> scan_lines L w add req strings ls (s, n, idx) \<noteq> None"
proof (induction ls arbitrary: s n idx)
  case (Cons l ls)
  show ?case
  proof (cases "\<exists>r. parse_maps_line L l = Some r \<and> interesting_mapping r")
    case False
    with Cons show ?thesis by (auto split: option.splits if_splits)
  next
    case True
    then obtain r where r: "parse_maps_line L l = Some r" "interesting_mapping r" by blast
    obtain s1 n1 idx1 where s1: "scan_region L w add req strings r (s, n, idx) = Some (s1, n1, idx1)"
      using scan_region_returns[OF Cons.prems] by (metis not_None_eq prod_cases3)
    with scan_region_keeps[OF s1 Cons.prems(2)] Cons.IH[OF Cons.prems(1)] r show ?thesis by simp
  qed
qed simp

lemma scan_memory_returns:
  assumes "pread_ok w" "keeps s"
  shows "scan_memory L w add req s \<noteq> None"
proof -
  have "scan_lines L w add req b ls (snd (sys_fopen_a w p (tick (snd (sys_read w q
      (fprintf_to f t (snd (sys_time w s))))))), 0, 0) \<noteq> None" for b ls p q f t
    by (intro scan_lines_returns assms keeps_calls)
  then show ?thesis unfolding scan_memory_def Let_def split_beta
    by (simp split: option.splits del: not_None_eq)
qed

theorem memscan_returns:
  assumes "pread_ok w" "keeps s"
  shows "sh_memscan_pid L w add req s \<noteq> None"
  using assms(2) unfolding sh_memscan_pid_def Let_def split_beta
  by (simp add: scan_memory_returns[OF assms(1)] keeps_calls del: not_None_eq)

end

subsection \<open>A report function that answers more often\<close>

text \<open>
  \<open>returns_as x y\<close>: a computation that returns, returns the same when it is given more. The scan is
  monotone in its report function, so a scan that comes back with a bounded number of nested calls
  comes back with more of them, and the same.
\<close>

definition returns_as :: "'a option \<Rightarrow> 'a option \<Rightarrow> bool" where
  "returns_as x y \<longleftrightarrow> x = None \<or> y = x"

named_theorems mono_intros \<open>computations that are monotone in the report function\<close>

lemma returns_as_intros [mono_intros]:
  "returns_as x x"
  "returns_as x y \<Longrightarrow> returns_as (map_option h x) (map_option h y)"
  "returns_as x y \<Longrightarrow> (\<And>a. returns_as (k a) (k' a)) \<Longrightarrow> returns_as (Option.bind x k) (Option.bind y k')"
  "(b \<Longrightarrow> returns_as x y) \<Longrightarrow> (\<not> b \<Longrightarrow> returns_as x' y') \<Longrightarrow>
     returns_as (if b then x else x') (if b then y else y')"
  by (cases x; auto simp: returns_as_def)+

lemma returns_as_option [mono_intros]:
  "returns_as x y \<Longrightarrow> (\<And>a. returns_as (k a) (k' a)) \<Longrightarrow>
     returns_as (case v of None \<Rightarrow> x | Some a \<Rightarrow> k a) (case v of None \<Rightarrow> y | Some a \<Rightarrow> k' a)"
  by (cases v) simp_all

lemma returns_asD: "returns_as x y \<Longrightarrow> x = Some r \<Longrightarrow> y = Some r"
  by (auto simp: returns_as_def)

lemma scan_indicators_mono:
  assumes "\<And>r p s. returns_as (f r p s) (g r p s)"
  shows "returns_as (scan_indicators w f fn r buf st) (scan_indicators w g fn r buf st)"
  unfolding scan_indicators_def indicator_def scan_shellcode_def Let_def by (intro mono_intros assms)

lemma scan_region_mono:
  assumes "\<And>r p s. returns_as (f r p s) (g r p s)"
  shows "returns_as (scan_region L w f req strings r st) (scan_region L w g req strings r st)"
  unfolding scan_region_def Let_def split_beta by (intro mono_intros scan_indicators_mono assms)

lemma scan_lines_mono:
  assumes "\<And>r p s. returns_as (f r p s) (g r p s)"
  shows "returns_as (scan_lines L w f req strings ls st) (scan_lines L w g req strings ls st)"
proof (induction ls arbitrary: st)
  case (Cons l ls)
  show ?case unfolding scan_lines.simps by (intro mono_intros scan_region_mono assms Cons.IH)
qed (simp add: mono_intros)

lemma memscan_mono:
  assumes "\<And>r p s. returns_as (f r p s) (g r p s)"
  shows "returns_as (sh_memscan_pid L w f req s) (sh_memscan_pid L w g req s)"
  unfolding sh_memscan_pid_def scan_memory_def Let_def split_beta by (intro mono_intros scan_lines_mono assms)

subsection \<open>The strings of a region\<close>

definition text_byte :: "byte \<Rightarrow> bool" where
  "text_byte b \<longleftrightarrow> isprint b \<or> b = 9"

text \<open>The pieces of a region between bytes that are not text; there is always a last one.\<close>

fun onto_first :: "'a \<Rightarrow> 'a list list \<Rightarrow> 'a list list" where
  "onto_first b [] = [[b]]"
| "onto_first b (r # rs) = (b # r) # rs"

fun text_runs :: "byte list \<Rightarrow> byte list list" where
  "text_runs [] = [[]]"
| "text_runs (b # bs) =
     (if text_byte b then onto_first b (text_runs bs) else [] # text_runs bs)"

definition string_lines :: "byte list list \<Rightarrow> string" where
  "string_lines rs =
     concat (map (\<lambda>r. bytes_str r @ [newline])
       (filter (\<lambda>r. 5 \<le> length r \<and> marked_string (bytes_str r)) (butlast rs)
        @ filter (\<lambda>r. 5 \<le> length r) [last rs]))"

lemma onto_first_eq: "onto_first b rs = (b # (if rs = [] then [] else hd rs)) # tl rs"
  by (cases rs) simp_all

lemma text_runs_not_Nil [simp]: "text_runs bs \<noteq> []"
  by (cases bs) (auto simp: onto_first_eq)

lemma extract_loop_runs:
  "\<forall>r \<in> set ((p @ hd (text_runs bs)) # tl (text_runs bs)). length r \<le> 511 \<Longrightarrow>
   extract_loop bs (bytes_str p) = string_lines ((p @ hd (text_runs bs)) # tl (text_runs bs))"
proof (induction bs arbitrary: p)
  case Nil
  then show ?case by (simp add: string_lines_def bytes_str_def)
next
  case (Cons b bs)
  show ?case
  proof (cases "text_byte b")
    case True
    have "length p + 1 < 512" using Cons.prems True by (simp add: onto_first_eq)
    moreover have "bytes_str p @ [byte_chr b] = bytes_str (p @ [b])" by (simp add: bytes_str_def)
    ultimately show ?thesis using Cons.IH[of "p @ [b]"] Cons.prems True
      by (simp add: text_byte_def onto_first_eq) (simp add: bytes_str_def)
  next
    case False
    have "(\<forall>r \<in> set (([] @ hd (text_runs bs)) # tl (text_runs bs)). length r \<le> 511)"
      using Cons.prems False by (cases "text_runs bs") auto
    from Cons.IH[OF this] False show ?thesis
      by (cases "text_runs bs") (auto simp: string_lines_def text_byte_def bytes_str_def)
  qed
qed

text \<open>
  C29. What the strings file gets from a region without a piece of text above 511 bytes: of its pieces
  of printable bytes and tabs, in order, those of five bytes or more that contain one of the
  markers (a URL, a path, a call name), and the piece that ends the region with no look at the
  markers.
\<close>

theorem region_strings_reference:
  assumes "\<forall>r \<in> set (text_runs buf). length r \<le> 511"
  shows "interesting_strings buf =
    concat (map (\<lambda>r. bytes_str r @ [newline])
      (filter (\<lambda>r. 5 \<le> length r \<and> marked_string (bytes_str r)) (butlast (text_runs buf))
       @ filter (\<lambda>r. 5 \<le> length r) [last (text_runs buf)]))"
  using extract_loop_runs[of "[]" buf] assms
  by (simp add: interesting_strings_def string_lines_def bytes_str_def)

lemma region_strings_reference_witness:
  "interesting_strings (str_bytes (''/bin/sh'' @ [CHR 0x00] @ ''nothing'' @ [CHR 0x00] @ ''nothing''))
   = ''/bin/sh'' @ [newline] @ ''nothing'' @ [newline]"
proof -
  let ?buf = "str_bytes (''/bin/sh'' @ [CHR 0x00] @ ''nothing'' @ [CHR 0x00] @ ''nothing'')"
  have r: "text_runs ?buf = [str_bytes ''/bin/sh'', str_bytes ''nothing'', str_bytes ''nothing'']"
    by (simp add: str_bytes_def text_byte_def isprint_def chr_code_def)
  have l: "length (str_bytes s) = length s" for s by (simp add: str_bytes_def)
  have m: "marked_string ''/bin/sh''" "\<not> marked_string ''nothing''"
    by (simp_all add: marked_string_def)
  have "\<forall>r \<in> set (text_runs ?buf). length r \<le> 511" unfolding r by (simp add: l)
  from region_strings_reference[OF this] show ?thesis unfolding r by (simp add: l m)
qed

subsection \<open>The map of a process\<close>

text \<open>
  A line as \<open>show_map_vma\<close> of the kernel prints it: addresses and offset with at least eight digits, the four
  permission letters, device and inode, then always a blank. A path is filled up with blanks to column 72 and one
  more; a mapping without a path ends behind the blank of the inode.
\<close>

definition map_perms :: "bool \<Rightarrow> bool \<Rightarrow> bool \<Rightarrow> bool \<Rightarrow> string" where
  "map_perms rd wr ex sh =
     [if rd then CHR ''r'' else CHR ''-'', if wr then CHR ''w'' else CHR ''-'',
      if ex then CHR ''x'' else CHR ''-'', if sh then CHR ''s'' else CHR ''p'']"

definition map_head :: "nat \<Rightarrow> nat \<Rightarrow> string \<Rightarrow> nat \<Rightarrow> nat \<Rightarrow> nat \<Rightarrow> nat \<Rightarrow> string" where
  "map_head a b perms off major minor ino =
     pad_zero 8 (show_hex a) @ ''-'' @ pad_zero 8 (show_hex b) @ '' '' @ perms @ '' '' @ pad_zero 8 (show_hex off)
     @ '' '' @ pad_zero 2 (show_hex major) @ '':'' @ pad_zero 2 (show_hex minor) @ '' '' @ show_nat ino @ '' ''"

definition map_line :: "nat \<Rightarrow> nat \<Rightarrow> string \<Rightarrow> nat \<Rightarrow> nat \<Rightarrow> nat \<Rightarrow> nat \<Rightarrow> string \<Rightarrow> string" where
  "map_line a b perms off major minor ino path =
     (let h = map_head a b perms off major minor ino
      in h @ (if path = [] then [] else replicate (72 - length h) (CHR '' '') @ '' '' @ path) @ [newline])"

lemma pad_hex_word: "word_text (pad_zero w (show_hex n))"
  using pad_hex_digits[of w n] by (auto simp: word_text_def list_all_iff isxdigit_not_space)

lemma show_nat_word: "word_text (show_nat n)"
  using show_nat_digits[of n] by (auto simp: word_text_def show_nat_def list_all_iff isdigit_not_space)

lemma word_text_join: "word_text v \<Longrightarrow> word_text u \<Longrightarrow> \<not> isspace c \<Longrightarrow> word_text (v @ c # u)"
  by (simp add: word_text_def)

lemma skip_word_text:
  assumes "word_text v" "r = [] \<or> isspace (hd r)" "skip_space s = v @ r"
  shows "skip_word s = Some r"
proof -
  have "length (v @ r) \<le> length s" unfolding assms(3)[symmetric] skip_space_def by (rule length_dropWhile_le)
  then have "length v \<le> length s" by simp
  from scan_word_text[OF assms(1) this assms(2,3)] show ?thesis by (simp add: skip_word_def)
qed

lemma map_range_word: "word_text (pad_zero 8 (show_hex a) @ CHR ''-'' # pad_zero 8 (show_hex b))"
  by (intro word_text_join pad_hex_word) (simp add: isspace_def chr_code_def)

lemma map_line_words:
  assumes "newline \<notin> set path" "path = [] \<or> \<not> isspace (hd path)" "length path \<le> 511"
  shows "\<exists>r0 r1. map_line a b (map_perms rd wr ex sh) off major minor ino path
        = (pad_zero 8 (show_hex a) @ CHR ''-'' # pad_zero 8 (show_hex b)) @ r0
      \<and> isspace (hd r0) \<and> scan_word 7 r0 = Some (map_perms rd wr ex sh, r1)
      \<and> scan_path r1 = (if path = [] then None else Some path)"
proof -
  let ?P = "map_perms rd wr ex sh" and ?off = "pad_zero 8 (show_hex off)"
  let ?dev = "pad_zero 2 (show_hex major) @ CHR '':'' # pad_zero 2 (show_hex minor)"
  define pad where "pad = 72 - length (map_head a b ?P off major minor ino)"
  define r4 where "r4 = CHR '' '' # (if path = [] then [] else replicate pad (CHR '' '') @ CHR '' '' # path) @ [newline]"
  define r3 where "r3 = CHR '' '' # show_nat ino @ r4"
  define r2 where "r2 = CHR '' '' # ?dev @ r3"
  define r1 where "r1 = CHR '' '' # ?off @ r2"
  define r0 where "r0 = CHR '' '' # ?P @ r1"
  note rs = r0_def r1_def r2_def r3_def
  have line: "map_line a b ?P off major minor ino path
      = (pad_zero 8 (show_hex a) @ CHR ''-'' # pad_zero 8 (show_hex b)) @ r0"
    by (simp add: map_line_def Let_def flip: pad_def) (simp add: map_head_def rs r4_def)
  have sp: "isspace (hd r0)" "isspace (hd r1)" "isspace (hd r2)" "isspace (hd r3)" "isspace (hd r4)"
    by (simp_all add: rs r4_def)
  have wd: "word_text ?dev" by (intro word_text_join pad_hex_word) (simp add: isspace_def chr_code_def)
  have wp: "word_text ?P" "length ?P \<le> 7" by (simp_all add: map_perms_def word_text_def isspace_def chr_code_def)
  have w2: "scan_word 7 r0 = Some (?P, r1)"
    by (rule scan_word_text[OF wp])
       (simp_all only: sp r0_def skip_space_word_text[OF wp(1)] skip_space_blank isspace_blank simp_thms)
  have w3: "skip_word r1 = Some r2" "skip_word r2 = Some r3" "skip_word r3 = Some r4"
    by (rule skip_word_text[OF pad_hex_word[of 8 off]], simp add: sp, simp_all add: r1_def skip_space_word_text pad_hex_word)
       (rule skip_word_text[OF wd], simp add: sp, simp_all add: r2_def skip_space_word_text[OF wd, simplified],
        rule skip_word_text[OF show_nat_word], simp add: sp, simp_all add: r3_def skip_space_word_text[OF show_nat_word])
  have w4: "scan_rest 511 r4 = (if path = [] then None else Some path)"
  proof (cases "path = []")
    case True
    then show ?thesis by (simp add: scan_rest_def r4_def) (simp add: skip_space_def)
  next
    case False
    then have "skip_space r4 = path @ [newline]"
      using assms(2) by (cases path) (simp_all add: r4_def skip_space_pad, simp add: skip_space_def)
    moreover have "takeWhile (\<lambda>c. c \<noteq> newline) (path @ [newline]) = path"
      using assms(1) by (subst takeWhile_append2) auto
    ultimately show ?thesis using False assms(3) by (simp add: scan_rest_def Let_def)
  qed
  have "scan_path r1 = (if path = [] then None else Some path)"
    unfolding scan_path_def w3 bind.simps w4 ..
  with line sp(1) w2 show ?thesis by blast
qed

text \<open>
  C18. The parser reads back what the kernel prints: range, permissions and path of every mapping below
  \<open>2^64\<close>, with a path or without one, whatever offset, device and inode are. A path counts as the kernel escapes
  it: without a newline, not starting with white space, and of at most 511 bytes and less than the program's
  limit for paths, which is what the parser has room for.
\<close>

theorem maps_line_roundtrip:
  assumes "a < 2 ^ 64" "b < 2 ^ 64" "newline \<notin> set path" "path = [] \<or> \<not> isspace (hd path)"
    "length path \<le> 511" "length path < max_path L"
  shows "parse_maps_line L (map_line a b (map_perms rd wr ex sh) off major minor ino path) =
     Some \<lparr>mr_start = a, mr_end = b, mr_perms = map_perms rd wr ex sh, mr_path = path\<rparr>"
proof -
  let ?A = "pad_zero 8 (show_hex a)" and ?B = "pad_zero 8 (show_hex b)"
  obtain r0 r1 where r: "map_line a b (map_perms rd wr ex sh) off major minor ino path = (?A @ CHR ''-'' # ?B) @ r0"
      "isspace (hd r0)" "scan_word 7 r0 = Some (map_perms rd wr ex sh, r1)"
      "scan_path r1 = (if path = [] then None else Some path)"
    using map_line_words[OF assms(3-5)] by blast
  have hl: "length (show_hex n) \<le> 16" if "n < 2 ^ 64" for n using that by (intro show_hex_length) simp_all
  have lr: "length (?A @ CHR ''-'' # ?B) \<le> 63"
    using hl[OF assms(1)] hl[OF assms(2)] by (simp add: length_pad_zero)
  have w1: "scan_word 63 ((?A @ CHR ''-'' # ?B) @ r0) = Some (?A @ CHR ''-'' # ?B, r0)"
    by (rule scan_word_text[OF map_range_word lr _ skip_space_word_text[OF map_range_word]]) (simp add: r(2))
  have h1: "scan_hex (?A @ CHR ''-'' # ?B) = Some (a, CHR ''-'' # ?B)"
    by (rule scan_hex_pad) (simp add: isxdigit_def isdigit_def chr_code_def tolower_def)
  have h2: "scan_hex ?B = Some (b, [])" using scan_hex_pad[of "[]" 8 b] by simp
  show ?thesis
    unfolding parse_maps_line_def r(1) w1 option.case prod.case r(3) h1
    using assms(1,2,6) r(4) h2 by (simp add: scan_lit_def clamp_ulong_def cstr_copy_def)
qed

text \<open>Two lines of a real map: one with a path, one without.\<close>

lemma maps_line_roundtrip_witness:
  "map (parse_maps_line small_limits)
     [''00400000-00452000 r-xp 00000000 08:02 173521                             /usr/bin/dbus'' @ [newline],
      ''00e03000-00e24000 rwxp 00000000 00:00 0 '' @ [newline]] =
   [Some \<lparr>mr_start = 4194304, mr_end = 4530176, mr_perms = ''r-xp'', mr_path = ''/usr/bin/dbus''\<rparr>,
    Some \<lparr>mr_start = 14692352, mr_end = 14827520, mr_perms = ''rwxp'', mr_path = []\<rparr>]"
proof -
  have R: "replicate 27 (CHR '' '') = ''                           ''" "replicate 6 (CHR ''0'') = ''000000''" "replicate 2 (CHR ''0'') = ''00''"
    "replicate 7 (CHR ''0'') = ''0000000''"
    by code_simp+
  note P = maps_line_roundtrip[where L = small_limits]
  have "map_line 4194304 4530176 (map_perms True False True False) 0 8 2 173521 ''/usr/bin/dbus''
      = ''00400000-00452000 r-xp 00000000 08:02 173521                             /usr/bin/dbus'' @ [newline]"
    "map_line 14692352 14827520 (map_perms True True True False) 0 0 0 0 []
      = ''00e03000-00e24000 rwxp 00000000 00:00 0 '' @ [newline]"
    by (simp_all add: map_line_def map_head_def map_perms_def pad_zero_def show_hex_def show_nat_def show_base.simps
        digit_char_def Let_def R)
  moreover have "map_perms True False True False = ''r-xp''" "map_perms True True True False = ''rwxp''"
    by (simp_all add: map_perms_def)
  ultimately show ?thesis
    using P[of 4194304 4530176 "''/usr/bin/dbus''" True False True False 0 8 2 173521]
      P[of 14692352 14827520 "[]" True True True False 0 0 0 0]
    by (simp add: newline_def isspace_def chr_code_def small_limits_def)
qed

subsection \<open>Stopping and continuing\<close>

text \<open>
  C30. A process that the scan has stopped is continued: if the scan returns, whatever it found and
  whatever the reports of its findings sent in between, SIGCONT to the process is the last signal.
\<close>

theorem memscan_resumes:
  assumes "0 < rq_pid req" "rq_freeze req" "env_kill w (clk s) (rq_pid req) SIGSTOP"
    "sh_memscan_pid L w add req s = Some (n, s')"
  shows "last (sent s') = (rq_pid req, SIGCONT)"
  using assms unfolding sh_memscan_pid_def Let_def
  by (auto simp: sys_kill_def tick_def split_beta)

lemma memscan_resumes_witness:
  "last (sent (snd (the (sh_memscan_pid small_limits idle_os (\<lambda>_ _. Some)
     \<lparr>rq_pid = 7, rq_dir = ''d'', rq_freeze = True, rq_max_region = 0\<rparr>
     \<lparr>clk = 0, files = (\<lambda>_. None), sent = []\<rparr>)))) = (7, SIGCONT)"
proof -
  let ?req = "\<lparr>rq_pid = 7, rq_dir = ''d'', rq_freeze = True, rq_max_region = 0\<rparr>"
  let ?s = "\<lparr>clk = 0, files = (\<lambda>_. None), sent = []\<rparr> :: world"
  have "finding_sink (\<lambda>_ _. Some) (\<lambda>_. True)" by unfold_locales auto
  from finding_sink.memscan_returns[OF this, where w = idle_os and s = ?s and req = ?req and L = small_limits]
  obtain n s' where r: "sh_memscan_pid small_limits idle_os (\<lambda>_ _. Some) ?req ?s = Some (n, s')"
    by (auto simp: pread_ok_def idle_os_def)
  from memscan_resumes[OF _ _ _ r] show ?thesis by (simp add: r) (simp add: idle_os_def)
qed

end
