(* ===== verification/Cases.thy ===== *)
theory Cases
  imports Score Memscan
begin

section \<open>Cases (\<open>case/case.c\<close>) and the end of \<open>rw_score_add\<close>\<close>

text \<open>
  A case is a directory that collects what is known about one process. Scoring a process can open
  its case, opening the case scans the process's memory, and what the scan finds is scored again: a
  recursion through three files, closed here. \<open>rw_score_add\<close> takes the number of nested calls it may
  make; the theorem \<open>score_add_returns\<close> below shows that two are enough, because the case is
  registered before its memory is scanned.
\<close>

definition RW_MAX_CASES :: nat where
  "RW_MAX_CASES = 512"

record case_rec =
  cs_pid :: pid
  cs_max_score :: int
  cs_dir :: string

record sys = scoring +
  cases :: "case_rec list"

definition find_case :: "pid \<Rightarrow> case_rec list \<Rightarrow> nat option" where
  "find_case pid cs = find_idx (\<lambda>c. cs_pid c = pid) cs"

definition rw_case_has :: "pid \<Rightarrow> 'a sys_scheme \<Rightarrow> bool" where
  "rw_case_has pid s \<longleftrightarrow> find_case pid (cases s) \<noteq> None"

definition mkdir_if_needed :: "os \<Rightarrow> string \<Rightarrow> 'a world_scheme \<Rightarrow> int \<times> 'a world_scheme" where
  "mkdir_if_needed w path s = (let (ok, s1) = sys_mkdir w path s in (if ok then 0 else -1, s1))"

text \<open>The directory of the case at an index.\<close>

definition case_dir_at :: "nat \<Rightarrow> 'a sys_scheme \<Rightarrow> string" where
  "case_dir_at i s = cs_dir (cases s ! i)"

subsection \<open>Evidence\<close>

definition write_proc_file_to_case ::
  "limits \<Rightarrow> os \<Rightarrow> pid \<Rightarrow> string \<Rightarrow> string \<Rightarrow> 'a sys_scheme \<Rightarrow> 'a sys_scheme" where
  "write_proc_file_to_case L w pid name dst_name s = (case find_case pid (cases s) of
     None \<Rightarrow> s
   | Some i \<Rightarrow>
       (case path_in (max_path L) (case_dir_at i s) dst_name of
          None \<Rightarrow> s
        | Some dst \<Rightarrow>
            (let (rc, s1) = rw_copy_file w (proc_path pid name) dst s
             in if rc \<noteq> 0
                then (let (ok, s2) = sys_fopen_w w dst s1
                      in if ok then fprintf_to dst (name @ '' unavailable: '' @ env_strerror w (clk s2)
                                                    @ [newline]) s2
                         else s2)
                else s1)))"

fun fd_lines :: "limits \<Rightarrow> os \<Rightarrow> string \<Rightarrow> string \<Rightarrow> string list \<Rightarrow> 'a world_scheme \<Rightarrow> 'a world_scheme" where
  "fd_lines L w fd_dir out [] s = s"
| "fd_lines L w fd_dir out (d # ds) s =
     (if take 1 d = ''.'' then fd_lines L w fd_dir out ds s
      else case path_in (max_path L) fd_dir d of
             None \<Rightarrow> fd_lines L w fd_dir out ds s
           | Some fd_path \<Rightarrow>
               (let (r, s1) = rw_read_link_path w fd_path (max_path L) s
                in fd_lines L w fd_dir out ds
                     (case r of None \<Rightarrow> s1
                      | Some target \<Rightarrow> fprintf_to out (d @ '' -> '' @ target @ [newline]) s1)))"

definition write_fd_listing_to_case :: "limits \<Rightarrow> os \<Rightarrow> pid \<Rightarrow> 'a sys_scheme \<Rightarrow> 'a sys_scheme" where
  "write_fd_listing_to_case L w pid s = (case find_case pid (cases s) of
     None \<Rightarrow> s
   | Some i \<Rightarrow>
       (case path_in (max_path L) (case_dir_at i s) ''fds.txt'' of
          None \<Rightarrow> s
        | Some out \<Rightarrow>
            (let (ok, s1) = sys_fopen_w w out s
             in if \<not> ok then s1
                else (let (dir, s2) = sys_opendir w (proc_path pid ''fd'') s1
                      in case dir of
                           None \<Rightarrow> fprintf_to out (''fd directory unavailable: '' @ env_strerror w (clk s2)
                                                  @ [newline]) s2
                         | Some names \<Rightarrow> fd_lines L w (proc_path pid ''fd'') out names s2))))"

definition dump_exe_to_case :: "limits \<Rightarrow> os \<Rightarrow> pid \<Rightarrow> 'a sys_scheme \<Rightarrow> 'a sys_scheme" where
  "dump_exe_to_case L w pid s = (case find_case pid (cases s) of
     None \<Rightarrow> s
   | Some i \<Rightarrow>
       (case path_in (max_path L) (case_dir_at i s) ''exe.dump'' of
          None \<Rightarrow> s
        | Some dst \<Rightarrow>
            (let (rc, s1) = rw_copy_file w (proc_path pid ''exe'') dst s
             in if rc \<noteq> 0 then s1
                else (let (hash, s2) = rw_sha256_file w dst s1
                      in case hash of
                           None \<Rightarrow> s2
                         | Some h \<Rightarrow>
                             (case path_in (max_path L) (case_dir_at i s2) ''exe.sha256'' of
                                None \<Rightarrow> s2
                              | Some hp \<Rightarrow> write_if_open w hp (h @ ''  exe.dump'' @ [newline]) s2)))))"

text \<open>The four reports that both \<open>snapshot_case\<close> and \<open>rw_case_event\<close> write.\<close>

definition write_reports :: "limits \<Rightarrow> os \<Rightarrow> pid \<Rightarrow> string \<Rightarrow> 'a sys_scheme \<Rightarrow> 'a sys_scheme" where
  "write_reports L w pid dir s =
     (let s1 = snd (rw_lineage_write_case L w pid (Some dir) s);
          s2 = snd (rw_event_write_timeline L w pid (Some dir) s1)
      in snd (rw_score_write_case L w pid (Some dir) s2))"

definition snapshot_case ::
  "limits \<Rightarrow> os \<Rightarrow> (string \<Rightarrow> int \<Rightarrow> 'a sys_scheme \<Rightarrow> 'a sys_scheme option) \<Rightarrow> pid \<Rightarrow> 'a sys_scheme
     \<Rightarrow> 'a sys_scheme option" where
  "snapshot_case L w add pid s =
     (let s1 = write_proc_file_to_case L w pid ''cmdline'' ''cmdline.bin'' s;
          s2 = write_proc_file_to_case L w pid ''status'' ''status.txt'' s1;
          s3 = write_proc_file_to_case L w pid ''maps'' ''maps.txt'' s2;
          s4 = write_proc_file_to_case L w pid ''environ'' ''environ.bin'' s3;
          s5 = write_fd_listing_to_case L w pid s4;
          s6 = dump_exe_to_case L w pid s5
      in case find_case pid (cases s) of
           None \<Rightarrow> Some s6
         | Some i \<Rightarrow>
             map_option snd (sh_memscan_pid L w add
               \<lparr>rq_pid = pid, rq_dir = case_dir_at i s6, rq_freeze = False,
                rq_max_region = SH_MEMSCAN_MAX_REGION_DUMP\<rparr>
               (write_reports L w pid (case_dir_at i s6) s6)))"

subsection \<open>Opening\<close>

definition dir_stamp_fmt :: string where
  "dir_stamp_fmt = ''%Y%m%d_%H%M%S''"

definition append_case ::
  "pid \<Rightarrow> int \<times> string \<Rightarrow> case_rec list \<Rightarrow> (case_rec list \<times> nat) option" where
  "append_case pid c cs =
     (if length cs \<ge> RW_MAX_CASES then None
      else Some (cs @ [\<lparr>cs_pid = pid, cs_max_score = fst c, cs_dir = snd c\<rparr>], length cs))"

text \<open>
  The directories, then the table entry: the first half of \<open>create_case\<close>, up to \<open>g_case_count++\<close>.
  \<open>None\<close> is the NULL that every failure returns.
\<close>

definition register_case ::
  "limits \<Rightarrow> os \<Rightarrow> rw_config option \<Rightarrow> pid \<Rightarrow> int \<Rightarrow> 'a sys_scheme \<Rightarrow> nat option \<times> 'a sys_scheme" where
  "register_case L w cfg pid score s =
     (if length (cases s) \<ge> RW_MAX_CASES then (None, s)
      else
        let base = (case cfg of Some c \<Rightarrow> str_or (log_dir c) ''logs'' | None \<Rightarrow> ''logs'')
        in case path_in (max_path L) base ''cases'' of
             None \<Rightarrow> (None, s)
           | Some cases_dir \<Rightarrow>
               (let (rc1, s1) = mkdir_if_needed w base s
                in if rc1 \<noteq> 0 then (None, s1)
                   else
                     let (rc2, s2) = mkdir_if_needed w cases_dir s1
                     in if rc2 \<noteq> 0 then (None, s2)
                        else
                          let (ts, s3) = case_timestamp w dir_stamp_fmt s2
                          in case path_in (max_path L) cases_dir
                                    (''pid_'' @ show_int pid @ ''_'' @ ts) of
                               None \<Rightarrow> (None, s3)
                             | Some dir \<Rightarrow>
                                 (let (rc3, s4) = mkdir_if_needed w dir s3
                                  in if rc3 \<noteq> 0 then (None, s4)
                                     else case append_case pid (score, dir) (cases s4) of
                                            None \<Rightarrow> (None, s4)
                                          | Some (cs, i) \<Rightarrow> (Some i, s4\<lparr>cases := cs\<rparr>))))"

definition case_log :: "limits \<Rightarrow> os \<Rightarrow> string \<Rightarrow> string \<Rightarrow> (string \<Rightarrow> string) \<Rightarrow> 'a world_scheme \<Rightarrow> 'a world_scheme" where
  "case_log L w dir name line s = (case path_in (max_path L) dir name of
     None \<Rightarrow> s
   | Some path \<Rightarrow>
       (let (ok, s1) = sys_fopen_a w path s
        in if \<not> ok then s1
           else (let (ts, s2) = case_timestamp w human_fmt s1 in fprintf_to path (line ts) s2)))"

definition announce_case ::
  "limits \<Rightarrow> os \<Rightarrow> pid \<Rightarrow> int \<Rightarrow> string \<Rightarrow> string option \<Rightarrow> 'a sys_scheme \<Rightarrow> 'a sys_scheme" where
  "announce_case L w pid score dir reason s =
     (let why = (case reason of Some r \<Rightarrow> r | None \<Rightarrow> ''<none>'');
          (exe, s1) = rw_read_exe_path w pid (max_path L) s;
          s2 = case_log L w dir ''case.log''
                 (\<lambda>ts. ''['' @ ts @ ''] [CASE_OPEN] pid='' @ show_int pid @ '' score='' @ show_int score
                      @ '' exe='' @ exe @ '' reason='' @ why @ [newline]) s1
      in rw_log_alert L w (''case opened pid='' @ show_int pid @ '' score='' @ show_int score
           @ '' dir='' @ dir @ '' reason='' @ why) s2)"

definition create_case ::
  "limits \<Rightarrow> os \<Rightarrow> (string \<Rightarrow> int \<Rightarrow> 'a sys_scheme \<Rightarrow> 'a sys_scheme option) \<Rightarrow> rw_config option \<Rightarrow> pid \<Rightarrow> int
     \<Rightarrow> string option \<Rightarrow> 'a sys_scheme \<Rightarrow> (nat option \<times> 'a sys_scheme) option" where
  "create_case L w add cfg pid score reason s =
     (case register_case L w cfg pid score s of
        (None, s1) \<Rightarrow> Some (None, s1)
      | (Some i, s1) \<Rightarrow>
          map_option (\<lambda>s2. (Some i, s2))
            (snapshot_case L w add pid (announce_case L w pid score (case_dir_at i s1) reason s1)))"

definition get_or_create_case ::
  "limits \<Rightarrow> os \<Rightarrow> (string \<Rightarrow> int \<Rightarrow> 'a sys_scheme \<Rightarrow> 'a sys_scheme option) \<Rightarrow> rw_config option \<Rightarrow> pid \<Rightarrow> int
     \<Rightarrow> string option \<Rightarrow> 'a sys_scheme \<Rightarrow> (nat option \<times> 'a sys_scheme) option" where
  "get_or_create_case L w add cfg pid score reason s = (case find_case pid (cases s) of
     Some i \<Rightarrow>
       Some (Some i, if score > cs_max_score (cases s ! i)
                     then s\<lparr>cases := (cases s)[i := (cases s ! i)\<lparr>cs_max_score := score\<rparr>]\<rparr> else s)
   | None \<Rightarrow>
       if score < threshold_or 60 cfg then Some (None, s)
       else create_case L w add cfg pid score reason s)"

subsection \<open>Events and actions\<close>

definition case_vlog ::
  "limits \<Rightarrow> os \<Rightarrow> string \<Rightarrow> int \<Rightarrow> string option \<Rightarrow> string \<Rightarrow> 'a world_scheme \<Rightarrow> 'a world_scheme" where
  "case_vlog L w dir score category txt s =
     case_log L w dir ''case.log''
       (\<lambda>ts. ''['' @ ts @ ''] ['' @ (case category of Some c \<Rightarrow> c | None \<Rightarrow> ''EVENT'') @ ''] score=''
            @ show_int score @ '' '' @ cstr_copy 4096 txt @ [newline]) s"

definition rw_case_event ::
  "limits \<Rightarrow> os \<Rightarrow> (string \<Rightarrow> int \<Rightarrow> 'a sys_scheme \<Rightarrow> 'a sys_scheme option) \<Rightarrow> rw_config option \<Rightarrow> pid \<Rightarrow> int
     \<Rightarrow> string option \<Rightarrow> string \<Rightarrow> 'a sys_scheme \<Rightarrow> 'a sys_scheme option" where
  "rw_case_event L w add cfg pid score category txt s =
     map_option (\<lambda>(r, s1). case r of
         None \<Rightarrow> s1
       | Some i \<Rightarrow>
           write_reports L w pid (case_dir_at i s1) (case_vlog L w (case_dir_at i s1) score category txt s1))
       (get_or_create_case L w add cfg pid score (Some (str_or category ''event'')) s)"

definition rw_case_action ::
  "limits \<Rightarrow> os \<Rightarrow> (string \<Rightarrow> int \<Rightarrow> 'a sys_scheme \<Rightarrow> 'a sys_scheme option) \<Rightarrow> rw_config option \<Rightarrow> pid
     \<Rightarrow> string option \<Rightarrow> int \<Rightarrow> string \<Rightarrow> 'a sys_scheme \<Rightarrow> 'a sys_scheme option" where
  "rw_case_action L w add cfg pid action result txt s =
     (let act = (case action of Some a \<Rightarrow> a | None \<Rightarrow> ''action'');
          detail = cstr_copy 2048 txt;
          entry = ''action='' @ act @ '' result='' @ show_int result @ '' detail='' @ detail
      in Option.bind (get_or_create_case L w add cfg pid 100 (Some act) s)
           (\<lambda>(r, s1). case r of
               None \<Rightarrow> Some s1
             | Some i \<Rightarrow>
                 rw_case_event L w add cfg pid 100 (Some ''ACTION'') entry
                   (case_log L w (case_dir_at i s1) ''actions.log''
                      (\<lambda>ts. ''['' @ ts @ ''] '' @ entry @ [newline]) s1)))"

subsection \<open>\<open>rw_score_add\<close>\<close>

text \<open>The part after the entry has its new score: messages, then the case.\<close>

definition report_score ::
  "limits \<Rightarrow> os \<Rightarrow> (string \<Rightarrow> int \<Rightarrow> 'a sys_scheme \<Rightarrow> 'a sys_scheme option) \<Rightarrow> rw_config option \<Rightarrow> pid
     \<Rightarrow> string option \<Rightarrow> string option \<Rightarrow> int \<Rightarrow> finding \<Rightarrow> nat \<Rightarrow> 'a sys_scheme \<Rightarrow> 'a sys_scheme option" where
  "report_score L w add cfg pid category reason points f i s =
     (let threshold = threshold_or 60 cfg;
          p = scores s ! i;
          s1 = rw_log_score L w (score_log_text pid points threshold category reason f p) s;
          s2 = rw_event_addf w pid (Some (str_or category ''score''))
                 (score_event_text points threshold reason f p) s1
      in if ps_score p \<ge> threshold
         then (let s3 = (if \<not> ps_case_opened p
                         then rw_log_alert L w
                                (''case threshold crossed pid='' @ show_int pid @ '' risk='' @ show_int (ps_score p)
                                 @ '' threshold='' @ show_int threshold
                                 @ '' category='' @ str_or category ''unknown''
                                 @ '' reason='' @ str_or reason ''unknown'')
                                (upd_score i (\<lambda>p. p\<lparr>ps_case_opened := True\<rparr>) s2)
                         else s2)
               in rw_case_event L w add cfg pid (ps_score p) (Some (str_or category ''SCORE''))
                    (score_case_text points reason f p) s3)
         else if rw_case_has pid s2
         then rw_case_event L w add cfg pid (ps_score p) (Some (str_or category ''SCORE''))
                (''below_threshold_update '' @ score_case_text points reason f p) s2
         else Some s2)"

fun rw_score_add ::
  "nat \<Rightarrow> limits \<Rightarrow> os \<Rightarrow> rw_config option \<Rightarrow> pid \<Rightarrow> string option \<Rightarrow> string option \<Rightarrow> string option
     \<Rightarrow> string option \<Rightarrow> int \<Rightarrow> 'a sys_scheme \<Rightarrow> (int \<times> 'a sys_scheme) option" where
  "rw_score_add 0 L w cfg pid comm exe category reason points s = None"
| "rw_score_add (Suc n) L w cfg pid comm exe category reason points s =
     (if pid \<le> 0 \<or> points \<le> 0 then Some (0, s)
      else case get_or_create_proc L w pid comm exe s of
             (None, s1) \<Rightarrow> Some (0, s1)
           | (Some i, s1) \<Rightarrow>
               (let (f, s2) = score_finding L w cfg pid comm exe category reason points i s1
                in map_option (\<lambda>s3. (ps_score (scores s3 ! i), s3))
                     (report_score L w
                        (\<lambda>reason points s. map_option snd
                           (rw_score_add n L w cfg pid None None (Some ''memory'') (Some reason) points s))
                        cfg pid category reason points f i s2)))"

text \<open>The call with which a memory scan reports a finding: no name, no path, category "memory".\<close>

definition memory_finding ::
  "nat \<Rightarrow> limits \<Rightarrow> os \<Rightarrow> rw_config option \<Rightarrow> pid \<Rightarrow> string \<Rightarrow> int \<Rightarrow> 'a sys_scheme \<Rightarrow> 'a sys_scheme option" where
  "memory_finding n L w cfg pid reason points s =
     map_option snd (rw_score_add n L w cfg pid None None (Some ''memory'') (Some reason) points s)"

end
