(* ===== verification/System.thy ===== *)
theory System
  imports Cases
begin

section \<open>The core as one system\<close>

text \<open>
  What the operations of score, case and memory scan do together: which parts of the state each one
  leaves alone, that every operation keeps the tables well formed, that the recursion between the three
  ends, when a case is opened, and what holds in every reachable state.
\<close>

subsection \<open>What the operations leave alone\<close>

lemmas world_more_calls = world_only_calls[unfolded world_only_def] world_only_files[unfolded world_only_def]
  world_only_write_if_open[unfolded world_only_def]

lemma world_only_fd_lines: "world_only s (fd_lines L w dir out ds s)"
  unfolding world_only_def
  by (induction ds arbitrary: s) (auto simp: Let_def split_beta world_more_calls split: option.splits)

lemma world_only_evidence:
  "world_only s (write_proc_file_to_case L w pid name dst s)"
  "world_only s (write_fd_listing_to_case L w pid s)"
  "world_only s (dump_exe_to_case L w pid s)"
  unfolding write_proc_file_to_case_def write_fd_listing_to_case_def dump_exe_to_case_def
    Let_def split_beta world_only_def
  by (auto split: option.splits simp: world_more_calls world_only_fd_lines[unfolded world_only_def])

lemma world_only_case_log [world_only_intros]: "world_only s (case_log L w dir name line s)"
  unfolding case_log_def Let_def split_beta world_only_def
  by (auto split: option.splits simp: world_more_calls)

lemma world_only_case_vlog [world_only_intros]: "world_only s (case_vlog L w dir score category txt s)"
  unfolding case_vlog_def by (rule world_only_case_log)

lemma announce_case_only: "logger_only s (announce_case L w pid score dir reason s)"
  unfolding announce_case_def Let_def split_beta
  by (rule logger_only_trans[OF world_only_logger rw_log_only(2)])
     (rule world_only_trans[OF world_only_calls(14) world_only_case_log])

lemma world_only_reports:
  "world_only s (snd (rw_event_write_timeline L w pid dir s))"
  "world_only t (snd (rw_score_write_case L w pid dir t))"
  unfolding rw_event_write_timeline_def rw_score_write_case_def Let_def split_beta world_only_def
  by (auto simp: world_more_calls split: option.splits)

text \<open>The reports of a case touch clock, files and the process table.\<close>

lemma write_reports_frame:
  assumes "limits_ok L"
  shows "lin_only s (write_reports L w pid dir s)" "lin_grows L s (write_reports L w pid dir s)"
proof -
  define s1 where "s1 = snd (rw_lineage_write_case L w pid (Some dir) s)"
  have w: "world_only s1 (write_reports L w pid dir s)"
    unfolding write_reports_def Let_def s1_def by (rule world_only_trans[OF world_only_reports])
  have "lin_only s s1" unfolding s1_def by (rule write_case_only) simp
  then show "lin_only s (write_reports L w pid dir s)" using w by (rule lin_only_world)
  have "lin_grows L s s1" unfolding s1_def by (rule write_case_grows[OF assms])
  then show "lin_grows L s (write_reports L w pid dir s)" using w by (rule lin_grows_world)
qed

subsection \<open>The tables of the whole program\<close>

interpretation casetab: slot_table cs_pid RW_MAX_CASES find_case append_case
  by unfold_locales (auto simp: find_case_def append_case_def split: if_splits)

text \<open>
  \<open>sys_inv\<close>: every table is well formed. \<open>sys_grows\<close>: an operation keeps that and only ever appends
  entries, so that an index (a pointer into \<open>g_scores\<close> or \<open>g_cases\<close>) still names the same process and
  the same directory after it, whatever it called in between. The static variables of the modules on
  top of the core, which are the rest of the record, it leaves alone.
\<close>

definition sys_inv :: "limits \<Rightarrow> 'a sys_scheme \<Rightarrow> bool" where
  "sys_inv L s \<longleftrightarrow> lin_ok L (nodes s) \<and> ring_ok (evs s) \<and> scores_ok L (scores s)
     \<and> table_ok cs_pid RW_MAX_CASES (cases s)"

definition case_key :: "case_rec \<Rightarrow> pid \<times> string" where
  "case_key c = (cs_pid c, cs_dir c)"

definition sys_grows :: "limits \<Rightarrow> 'a sys_scheme \<Rightarrow> 'a sys_scheme \<Rightarrow> bool" where
  "sys_grows L s s' \<longleftrightarrow> (sys_inv L s \<longrightarrow> sys_inv L s')
     \<and> prefix (map case_key (cases s)) (map case_key (cases s'))
     \<and> prefix (map ps_pid (scores s)) (map ps_pid (scores s'))
     \<and> sys.more s' = sys.more s"

named_theorems sys_grows_intros \<open>operations that keep every table well formed and growing\<close>

lemma sys_grows_refl [simp]: "sys_grows L s s"
  by (simp add: sys_grows_def)

lemma sys_grows_trans: "sys_grows L s t \<Longrightarrow> sys_grows L t u \<Longrightarrow> sys_grows L s u"
  unfolding sys_grows_def by (metis prefix_order.trans)

lemma prefix_map_nth:
  "prefix (map f xs) (map f ys) \<Longrightarrow> i < length xs \<Longrightarrow> i < length ys \<and> f (ys ! i) = f (xs ! i)"
  by (auto simp: prefix_def) (metis length_map nth_append nth_map length_append trans_less_add1)+

lemma sys_grows_case:
  assumes "sys_grows L s s'" "i < length (cases s)"
  shows "i < length (cases s')" "case_dir_at i s' = case_dir_at i s" "cs_pid (cases s' ! i) = cs_pid (cases s ! i)"
  using prefix_map_nth[of case_key "cases s" "cases s'" i] assms
  by (auto simp: sys_grows_def case_key_def case_dir_at_def)

lemma sys_grows_score:
  assumes "sys_grows L s s'" "i < length (scores s)"
  shows "i < length (scores s')" "ps_pid (scores s' ! i) = ps_pid (scores s ! i)"
  using prefix_map_nth[of ps_pid "scores s" "scores s'" i] assms by (auto simp: sys_grows_def)

lemma lin_only_fields:
  "lin_only s s' \<Longrightarrow> evs s' = evs s \<and> scores s' = scores s \<and> wl s' = wl s \<and> cases s' = cases s
     \<and> sys.more s' = sys.more s"
  by (cases s; cases s') (simp add: lin_only_def)

lemma logger_only_nodes: "logger_only s s' \<Longrightarrow> nodes s' = nodes s"
  by (cases s; cases s') (simp add: logger_only_def)

lemma sys_grows_lin: "lin_only s s' \<Longrightarrow> lin_grows L s s' \<Longrightarrow> sys_grows L s s'"
  using lin_only_fields[of s s'] by (simp add: sys_grows_def sys_inv_def lin_grows_def)

lemma sys_grows_logger: "logger_only s s' \<Longrightarrow> sys_grows L s s'"
  by (rule sys_grows_lin[OF logger_only_lin lin_grows_eq[OF logger_only_nodes]])

lemma sys_grows_world: "world_only s s' \<Longrightarrow> sys_grows L s s'"
  by (rule sys_grows_logger[OF world_only_logger])

lemma sys_grows_event: "sys_grows L s (rw_event_add w pid category detail s)"
proof -
  have "nodes (rw_event_add w pid category detail s) = nodes s \<and>
    scores (rw_event_add w pid category detail s) = scores s \<and>
    cases (rw_event_add w pid category detail s) = cases s \<and>
    sys.more (rw_event_add w pid category detail s) = sys.more s"
    by (simp add: rw_event_add_def sys_time_def tick_def)
  then show ?thesis
    by (auto simp: sys_grows_def sys_inv_def rw_event_add_evs ring_add_ok)
qed

lemma sys_grows_upd_score:
  assumes "\<And>p. score_ok L p \<Longrightarrow> score_ok L (f p)" "\<And>p. ps_pid (f p) = ps_pid p"
  shows "sys_grows L s (upd_score i f s)"
proof -
  have "scores_ok L (scores s) \<Longrightarrow> scores_ok L ((scores s)[i := f (scores s ! i)])"
    using assms by (intro scores_ok_update) (auto dest: scores_ok_nth)
  moreover have "map ps_pid ((scores s)[i := f (scores s ! i)]) = map ps_pid (scores s)"
    using assms(2) by (cases "i < length (scores s)")
      (simp_all add: map_update list_update_same_conv list_update_beyond)
  moreover have "cases (upd_score i f s) = cases s" "sys.more (upd_score i f s) = sys.more s"
    by (simp_all add: upd_score_def)
  ultimately show ?thesis by (simp add: sys_grows_def sys_inv_def)
qed

lemma find_case_grows:
  assumes "sys_grows L s s'" "find_case pid (cases s) = Some i"
  shows "find_case pid (cases s') = Some i"
proof -
  obtain ks where ks: "map case_key (cases s') = map case_key (cases s) @ ks"
    using assms(1) by (auto simp: sys_grows_def prefix_def)
  have f: "find_case pid cs = find_idx (\<lambda>k. fst k = pid) (map case_key cs)" for cs
    unfolding find_case_def by (rule find_idx_cong) (simp add: case_key_def o_def)
  show ?thesis using assms(2) unfolding f ks by (simp add: find_idx_append)
qed

definition adds_grow :: "limits \<Rightarrow> (string \<Rightarrow> int \<Rightarrow> 'a sys_scheme \<Rightarrow> 'a sys_scheme option) \<Rightarrow> bool" where
  "adds_grow L add \<longleftrightarrow> (\<forall>r p s s'. add r p s = Some s' \<longrightarrow> sys_grows L s s')"

lemma keeps_sys_grows: "adds_grow L add \<Longrightarrow> finding_keeper add (sys_grows L s0)"
  by unfold_locales (auto simp: adds_grow_def intro: sys_grows_trans sys_grows_world)

lemma register_case_spec:
  assumes "register_case L w cfg pid score s = (r, s')" "find_case pid (cases s) = None"
  shows "(r = None \<and> world_only s s') \<or>
    (\<exists>dir t. r = Some (length (cases s)) \<and> world_only s t
       \<and> s' = t\<lparr>cases := cases s @ [\<lparr>cs_pid = pid, cs_max_score = score, cs_dir = dir\<rparr>]\<rparr>
       \<and> length (cases s) < RW_MAX_CASES \<and> length dir < max_path L)"
proof (cases r)
  case None
  with assms(1) show ?thesis
    unfolding register_case_def Let_def split_beta mkdir_if_needed_def append_case_def
    by (auto simp: world_only_def world_more_calls split: if_splits option.splits)
next
  case (Some i)
  let ?base = "case cfg of Some c \<Rightarrow> str_or (log_dir c) ''logs'' | None \<Rightarrow> ''logs''"
  obtain cd where cd: "path_in (max_path L) ?base ''cases'' = Some cd"
    using assms(1) Some unfolding register_case_def Let_def by (auto split: if_splits option.splits)
  define s1 where "s1 = snd (mkdir_if_needed w ?base s)"
  define s2 where "s2 = snd (mkdir_if_needed w cd s1)"
  define t0 where "t0 = case_timestamp w dir_stamp_fmt s2"
  obtain dir where dir: "path_in (max_path L) cd (''pid_'' @ show_int pid @ ''_'' @ fst t0) = Some dir"
    using assms(1) Some cd unfolding register_case_def Let_def split_beta s2_def s1_def t0_def
    by (auto split: if_splits option.splits)
  define t where "t = snd (mkdir_if_needed w dir (snd t0))"
  have w: "world_only s t"
    unfolding t_def t0_def s2_def s1_def mkdir_if_needed_def world_only_def
    by (simp add: world_more_calls Let_def split_beta)
  have c: "cases t = cases s" using lin_only_fields[OF world_only_lin[OF w]] by simp
  have "i = length (cases s)" "s' = t\<lparr>cases := cases s @ [\<lparr>cs_pid = pid, cs_max_score = score, cs_dir = dir\<rparr>]\<rparr>"
    "length (cases s) < RW_MAX_CASES"
    using assms(1) Some cd dir c unfolding register_case_def Let_def split_beta append_case_def
    unfolding t_def t0_def s2_def s1_def by (auto split: if_splits)
  moreover have "length dir < max_path L" using dir unfolding path_in_Some by blast
  ultimately show ?thesis using Some w by blast
qed

lemma register_case_grows:
  assumes "register_case L w cfg pid score s = (r, s')" "find_case pid (cases s) = None"
  shows "sys_grows L s s'" "r = Some i \<Longrightarrow> find_case pid (cases s') = Some i"
proof -
  consider (none) "r = None" "world_only s s'"
    | (new) dir t where "r = Some (length (cases s))" "world_only s t"
        "s' = t\<lparr>cases := cases s @ [\<lparr>cs_pid = pid, cs_max_score = score, cs_dir = dir\<rparr>]\<rparr>"
        "length (cases s) < RW_MAX_CASES"
    using register_case_spec[OF assms] by blast
  then have "sys_grows L s s' \<and> (r = Some i \<longrightarrow> find_case pid (cases s') = Some i)"
  proof cases
    case none
    then show ?thesis by (simp add: sys_grows_world)
  next
    case new
    have ap: "append_case pid (score, dir) (cases s) = Some (cases s', length (cases s))"
      using new by (simp add: append_case_def)
    have "sys_grows L t s'"
      using casetab.create_ok[OF _ assms(2) ap] lin_only_fields[OF world_only_lin[OF new(2)]] new(3)
      by (auto simp: sys_grows_def sys_inv_def)
    then show ?thesis using sys_grows_trans[OF sys_grows_world[OF new(2)]]
        casetab.find_create(1)[OF assms(2) ap] new(1) by auto
  qed
  then show "sys_grows L s s'" "r = Some i \<Longrightarrow> find_case pid (cases s') = Some i" by blast+
qed

lemma snapshot_evidence:
  "world_only s (dump_exe_to_case L w pid (write_fd_listing_to_case L w pid
     (write_proc_file_to_case L w pid n4 d4 (write_proc_file_to_case L w pid n3 d3
       (write_proc_file_to_case L w pid n2 d2 (write_proc_file_to_case L w pid n1 d1 s))))))"
  by (meson world_only_evidence world_only_trans)

lemma snapshot_case_grows:
  assumes "limits_ok L" "adds_grow L add"
    "snapshot_case L w add pid s = Some s'"
  shows "sys_grows L s s'"
proof -
  define s6 where "s6 = dump_exe_to_case L w pid (write_fd_listing_to_case L w pid
     (write_proc_file_to_case L w pid ''environ'' ''environ.bin''
       (write_proc_file_to_case L w pid ''maps'' ''maps.txt''
         (write_proc_file_to_case L w pid ''status'' ''status.txt''
           (write_proc_file_to_case L w pid ''cmdline'' ''cmdline.bin'' s)))))"
  have g: "sys_grows L s s6" unfolding s6_def by (rule sys_grows_world[OF snapshot_evidence])
  show ?thesis
  proof (cases "find_case pid (cases s)")
    case None
    with assms(3) g show ?thesis by (simp add: snapshot_case_def s6_def Let_def)
  next
    case (Some i)
    let ?t = "write_reports L w pid (case_dir_at i s6) s6"
    obtain n where "sh_memscan_pid L w add \<lparr>rq_pid = pid, rq_dir = case_dir_at i s6, rq_freeze = False,
        rq_max_region = SH_MEMSCAN_MAX_REGION_DUMP\<rparr> ?t = Some (n, s')"
      using assms(3) Some unfolding snapshot_case_def Let_def s6_def[symmetric] by auto
    moreover have "sys_grows L s ?t"
      by (rule sys_grows_trans[OF g sys_grows_lin[OF write_reports_frame[OF assms(1)]]])
    ultimately show ?thesis
      using finding_keeper.memscan_keeps[OF keeps_sys_grows[OF assms(2)]] by blast
  qed
qed

lemma create_case_grows:
  assumes "limits_ok L" "adds_grow L add"
    "find_case pid (cases s) = None" "create_case L w add cfg pid score reason s = Some (r, s')"
  shows "sys_grows L s s' \<and> (\<forall>i. r = Some i \<longrightarrow> find_case pid (cases s') = Some i)"
proof -
  obtain r1 s1 where r1: "register_case L w cfg pid score s = (r1, s1)" by fastforce
  note g1 = register_case_grows[OF r1 assms(3)]
  show ?thesis
  proof (cases r1)
    case None
    with assms(4) r1 g1(1) show ?thesis by (simp add: create_case_def)
  next
    case (Some i)
    let ?t = "announce_case L w pid score (case_dir_at i s1) reason s1"
    have s2: "snapshot_case L w add pid ?t = Some s'" "r = Some i"
      using assms(4) r1 Some by (auto simp: create_case_def)
    have "sys_grows L s1 s'"
      using snapshot_case_grows[OF assms(1,2) s2(1)] sys_grows_logger[OF announce_case_only]
      by (blast intro: sys_grows_trans)
    with g1 Some s2(2) show ?thesis by (blast intro: sys_grows_trans find_case_grows)
  qed
qed

lemma raise_max_grows:
  "sys_grows L s (s\<lparr>cases := (cases s)[i := (cases s ! i)\<lparr>cs_max_score := m\<rparr>]\<rparr>)"
proof -
  let ?cs = "(cases s)[i := (cases s ! i)\<lparr>cs_max_score := m\<rparr>]"
  have "map case_key ?cs = map case_key (cases s)"
    by (cases "i < length (cases s)")
       (simp_all add: map_update list_update_same_conv list_update_beyond case_key_def)
  moreover have "table_ok cs_pid RW_MAX_CASES (cases s) \<Longrightarrow> table_ok cs_pid RW_MAX_CASES ?cs"
    by (rule casetab.update_ok) simp_all
  ultimately show ?thesis by (simp add: sys_grows_def sys_inv_def)
qed

lemma get_or_create_case_grows:
  assumes "limits_ok L" "adds_grow L add"
    "get_or_create_case L w add cfg pid score reason s = Some (r, s')"
  shows "sys_grows L s s' \<and> (\<forall>i. r = Some i \<longrightarrow> find_case pid (cases s') = Some i)"
proof (cases "find_case pid (cases s)")
  case None
  show ?thesis
  proof (cases "score < threshold_or 60 cfg")
    case False
    then show ?thesis using assms(3) None create_case_grows[OF assms(1,2) None]
      by (simp add: get_or_create_case_def)
  qed (use assms(3) None in \<open>simp add: get_or_create_case_def\<close>)
next
  case (Some i)
  then have s': "s' = s \<or> s' = s\<lparr>cases := (cases s)[i := (cases s ! i)\<lparr>cs_max_score := score\<rparr>]\<rparr>" "r = Some i"
    using assms(3) by (auto simp: get_or_create_case_def split: if_splits)
  then have "sys_grows L s s'" using raise_max_grows by auto
  with s'(2) Some show ?thesis by (blast intro: find_case_grows)
qed

lemma rw_case_event_grows:
  assumes "limits_ok L" "adds_grow L add"
    "rw_case_event L w add cfg pid score category txt s = Some s'"
  shows "sys_grows L s s'"
proof -
  obtain r s1 where g: "get_or_create_case L w add cfg pid score (Some (str_or category ''event'')) s = Some (r, s1)"
    "s' = (case r of None \<Rightarrow> s1 | Some i \<Rightarrow>
       write_reports L w pid (case_dir_at i s1) (case_vlog L w (case_dir_at i s1) score category txt s1))"
    using assms(3) by (auto simp: rw_case_event_def)
  have "sys_grows L t (write_reports L w pid dir (case_vlog L w d score category txt t))" for dir d t
    by (rule sys_grows_trans[OF sys_grows_world[OF world_only_case_vlog]
          sys_grows_lin[OF write_reports_frame[OF assms(1)]]])
  with g get_or_create_case_grows[OF assms(1,2) g(1)] show ?thesis
    by (auto split: option.splits intro: sys_grows_trans)
qed

lemma rw_case_action_grows:
  assumes "limits_ok L" "adds_grow L add"
    "rw_case_action L w add cfg pid action result txt s = Some s'"
  shows "sys_grows L s s'"
proof -
  obtain r s1 where g: "get_or_create_case L w add cfg pid 100 (Some (case action of Some a \<Rightarrow> a | None \<Rightarrow> ''action'')) s
      = Some (r, s1)"
    using assms(3) by (auto simp: rw_case_action_def Let_def bind_eq_Some_conv)
  note g1 = get_or_create_case_grows[OF assms(1,2) g, THEN conjunct1]
  show ?thesis
  proof (cases r)
    case None
    with assms(3) g g1 show ?thesis by (simp add: rw_case_action_def Let_def)
  next
    case (Some i)
    then obtain n l t where "rw_case_event L w add cfg pid 100 (Some ''ACTION'') t
        (case_log L w (case_dir_at i s1) n l s1) = Some s'"
      using assms(3) g by (auto simp: rw_case_action_def Let_def)
    from sys_grows_trans[OF sys_grows_world[OF world_only_case_log] rw_case_event_grows[OF assms(1,2) this]]
    show ?thesis by (rule sys_grows_trans[OF g1])
  qed
qed

lemma get_or_create_proc_grows:
  assumes "limits_ok L" "get_or_create_proc L w pid comm exe s = (r, s')"
  shows "sys_grows L s s' \<and> cases s' = cases s
    \<and> (\<forall>i. r = Some i \<longrightarrow> i < length (scores s') \<and> ps_pid (scores s' ! i) = pid)"
proof (cases "find_proc pid (scores s)")
  case (Some i)
  with assms(2) sctab.find_SomeD[OF Some] show ?thesis by (auto simp: get_or_create_proc_def)
next
  case None
  then have c: "create_proc L w pid comm exe s = (r, s')" using assms(2) by (simp add: get_or_create_proc_def)
  have frame: "nodes s' = nodes s \<and> evs s' = evs s \<and> cases s' = cases s \<and> sys.more s' = sys.more s"
    using c unfolding create_proc_def
    by (auto simp: Let_def split_beta sys_time_def tick_def rw_read_exe_path_def rw_read_link_path_def
        split: if_splits option.splits)
  have "(r = None \<and> scores s' = scores s)
      \<or> (\<exists>p. r = Some (length (scores s)) \<and> scores s' = scores s @ [p] \<and> ps_pid p = pid)"
    using c unfolding create_proc_def append_score_def new_score_def
    by (auto simp: Let_def split_beta sys_time_def tick_def rw_read_exe_path_def rw_read_link_path_def
        split: if_splits option.splits)
  moreover have "scores_ok L (scores s) \<Longrightarrow> scores_ok L (scores s')"
    using create_proc_spec[OF assms(1) _ None c] by auto
  ultimately show ?thesis using frame by (auto simp: sys_grows_def sys_inv_def)
qed

lemma score_finding_frame:
  assumes "score_finding L w cfg pid comm exe category reason points i s = (f, s')"
  shows "nodes s' = nodes s \<and> evs s' = evs s \<and> cases s' = cases s \<and> files s' = files s
    \<and> sys.more s' = sys.more s \<and> map ps_pid (scores s') = map ps_pid (scores s)"
proof -
  have u: "map ps_pid (ps[i := p]) = map ps_pid ps" if "ps_pid p = ps_pid (ps ! i)" for ps p
    using that by (cases "i < length ps") (simp_all add: map_update list_update_same_conv list_update_beyond)
  have n: "cases (upd_score i g t) = cases t" "files (upd_score i g t) = files t"
    "sys.more (upd_score i g t) = sys.more t" for g t
    by (simp_all add: upd_score_def)
  have d: "nodes (decay_proc w i s) = nodes s" "evs (decay_proc w i s) = evs s"
    "cases (decay_proc w i s) = cases s" "files (decay_proc w i s) = files s"
    "sys.more (decay_proc w i s) = sys.more s"
    by (simp_all add: decay_proc_def sys_time_def tick_def n)
  have dp: "map ps_pid (scores (decay_proc w i s)) = map ps_pid (scores s)"
    by (simp add: decay_proc_scores u)
  have a: "ps_pid (apply_finding f fl fs now p) = ps_pid p" for f fl fs now p
    by (simp add: apply_finding_def recompute_score_def Let_def)
  have up: "map ps_pid (scores (upd_score i g t)) = map ps_pid (scores t)" if "\<And>p. ps_pid (g p) = ps_pid p" for g t
    by (simp add: u that)
  show ?thesis using assms dp
    by (auto simp: score_finding_def Let_def split_beta sys_time_def tick_def n d a up
        simp del: upd_score_fields(1))
qed

lemma score_finding_grows:
  assumes "limits_ok L" "i < length (scores s)"
    "score_finding L w cfg pid comm exe category reason points i s = (f, s')"
  shows "sys_grows L s s'"
proof -
  have "scores_ok L (scores s')" if ok: "scores_ok L (scores s)"
    using score_finding_spec[OF assms(1) ok assms(2,3)] scores_ok_update[OF ok] by metis
  then show ?thesis using score_finding_frame[OF assms(3)] by (simp add: sys_grows_def sys_inv_def)
qed

lemma report_score_grows:
  assumes "limits_ok L" "adds_grow L add"
    "report_score L w add cfg pid category reason points f i s = Some s'"
  shows "sys_grows L s s'"
proof -
  let ?p = "scores s ! i"
  define s2 where "s2 = rw_event_addf w pid (Some (str_or category ''score''))
     (score_event_text points (threshold_or 60 cfg) reason f ?p)
     (rw_log_score L w (score_log_text pid points (threshold_or 60 cfg) category reason f ?p) s)"
  have g2: "sys_grows L s s2"
    unfolding s2_def rw_event_addf_def
    by (rule sys_grows_trans[OF sys_grows_logger[OF rw_log_only(6)] sys_grows_event])
  have case_ev: "sys_grows L s s'" if "sys_grows L s t" "rw_case_event L w add cfg pid sc c m t = Some s'" for sc c m t
    by (rule sys_grows_trans[OF that(1) rw_case_event_grows[OF assms(1,2) that(2)]])
  have "sys_grows L s2 (rw_log_alert L w m (upd_score i (\<lambda>p. p\<lparr>ps_case_opened := True\<rparr>) s2))" for m
    by (rule sys_grows_trans[OF sys_grows_upd_score sys_grows_logger[OF rw_log_only(2)]])
       (simp_all add: score_ok_def)
  note g3 = sys_grows_trans[OF g2 this]
  show ?thesis
  proof (cases "ps_score ?p \<ge> threshold_or 60 cfg")
    case True
    then show ?thesis using assms(3) case_ev[OF g3] case_ev[OF g2]
      unfolding report_score_def Let_def s2_def[symmetric] by (auto split: if_splits)
  next
    case False
    then show ?thesis using assms(3) g2 case_ev[OF g2]
      unfolding report_score_def Let_def s2_def[symmetric] by (auto split: if_splits)
  qed
qed

theorem rw_score_add_grows:
  fixes s s' :: "'a sys_scheme"
  shows "limits_ok L \<Longrightarrow> rw_score_add n L w cfg pid comm exe category reason points s = Some (v, s')
   \<Longrightarrow> sys_grows L s s'"
proof (induction n arbitrary: pid comm exe category reason points s v s')
  case (Suc n)
  let ?add = "\<lambda>reason points (s :: 'a sys_scheme). map_option snd
    (rw_score_add n L w cfg pid None None (Some ''memory'') (Some reason) points s)"
  have ag: "adds_grow L ?add" using Suc.IH[OF Suc.prems(1)] by (auto simp: adds_grow_def)
  show ?case
  proof (cases "pid \<le> 0 \<or> points \<le> 0")
    case False
    obtain r s1 where r: "get_or_create_proc L w pid comm exe s = (r, s1)" by fastforce
    note g1 = get_or_create_proc_grows[OF Suc.prems(1) r]
    show ?thesis
    proof (cases r)
      case None
      with Suc.prems(2) r g1 False show ?thesis by simp
    next
      case (Some i)
      obtain f s2 where f: "score_finding L w cfg pid comm exe category reason points i s1 = (f, s2)" by fastforce
      have "report_score L w ?add cfg pid category reason points f i s2 = Some s'"
        using Suc.prems(2) r f Some False by auto
      from report_score_grows[OF Suc.prems(1) ag this] score_finding_grows[OF Suc.prems(1) _ f] g1 Some
      show ?thesis by (blast intro: sys_grows_trans)
    qed
  qed (use Suc.prems(2) in simp)
qed simp

subsection \<open>The recursion ends\<close>

lemma rw_case_event_mono:
  assumes "\<And>r p s. returns_as (f r p s) (g r p s)"
  shows "returns_as (rw_case_event L w f cfg pid score category m s) (rw_case_event L w g cfg pid score category m s)"
  unfolding rw_case_event_def get_or_create_case_def create_case_def snapshot_case_def Let_def split_beta
  by (intro mono_intros memscan_mono assms)

lemma report_score_mono:
  assumes "\<And>r p s. returns_as (f r p s) (g r p s)"
  shows "returns_as (report_score L w f cfg pid category reason points fi i s)
    (report_score L w g cfg pid category reason points fi i s)"
  unfolding report_score_def Let_def by (intro mono_intros rw_case_event_mono assms)

lemma score_add_Suc:
  "rw_score_add (Suc n) L w cfg pid comm exe category reason points s =
     (if pid \<le> 0 \<or> points \<le> 0 then Some (0, s)
      else case fst (get_or_create_proc L w pid comm exe s) of
             None \<Rightarrow> Some (0, snd (get_or_create_proc L w pid comm exe s))
           | Some i \<Rightarrow> map_option (\<lambda>s3. (ps_score (scores s3 ! i), s3))
               (report_score L w (memory_finding n L w cfg pid) cfg pid category reason points
                  (fst (score_finding L w cfg pid comm exe category reason points i
                          (snd (get_or_create_proc L w pid comm exe s)))) i
                  (snd (score_finding L w cfg pid comm exe category reason points i
                          (snd (get_or_create_proc L w pid comm exe s))))))"
  by (simp add: memory_finding_def[abs_def] Let_def split_beta split: option.split)

declare rw_score_add.simps(2) [simp del]

lemma rw_score_add_mono_Suc:
  "returns_as (rw_score_add n L w cfg pid comm exe category reason points s)
     (rw_score_add (Suc n) L w cfg pid comm exe category reason points s)"
proof (induction n arbitrary: pid comm exe category reason points s)
  case (Suc n)
  have "returns_as (memory_finding n L w cfg pid r p t) (memory_finding (Suc n) L w cfg pid r p t)" for r p and t :: "'a sys_scheme"
    unfolding memory_finding_def by (intro mono_intros Suc.IH)
  then show ?case unfolding score_add_Suc by (intro mono_intros report_score_mono)
qed (simp add: returns_as_def)

lemma rw_score_add_fuel:
  "m \<le> n \<Longrightarrow> rw_score_add m L w cfg pid comm exe category reason points s = Some r
   \<Longrightarrow> rw_score_add n L w cfg pid comm exe category reason points s = Some r"
  by (induction n rule: dec_induct) (simp_all add: returns_asD[OF rw_score_add_mono_Suc])

text \<open>A process that has a case is scored without opening one, so without a scan.\<close>

lemma rw_case_event_present:
  "rw_case_has pid s \<Longrightarrow> rw_case_event L w add cfg pid score category m s \<noteq> None"
  by (auto simp: rw_case_has_def rw_case_event_def get_or_create_case_def)

lemma case_frame:
  "cases (rw_log_score L w m s) = cases s" "cases (rw_log_alert L w m s) = cases s"
  "cases (rw_event_addf w pid c m s) = cases s" "cases (upd_score i f s) = cases s"
  by (simp_all add: rw_event_addf_def rw_event_add_def sys_time_def tick_def upd_score_def
      lin_only_fields[OF logger_only_lin[OF rw_log_only(6)]] lin_only_fields[OF logger_only_lin[OF rw_log_only(2)]])

lemma report_score_present:
  "rw_case_has pid s \<Longrightarrow> report_score L w add cfg pid category reason points f i s \<noteq> None"
  by (simp add: report_score_def Let_def rw_case_event_present rw_case_has_def case_frame del: not_None_eq)

lemma score_prep_cases:
  assumes "limits_ok L"
  shows "cases (snd (get_or_create_proc L w pid comm exe s)) = cases s"
    "cases (snd (score_finding L w cfg pid comm exe category reason points i t)) = cases t"
proof -
  obtain r s1 where "get_or_create_proc L w pid comm exe s = (r, s1)" by fastforce
  with get_or_create_proc_grows[OF assms this] show "cases (snd (get_or_create_proc L w pid comm exe s)) = cases s" by simp
  obtain f s2 where "score_finding L w cfg pid comm exe category reason points i t = (f, s2)" by fastforce
  with score_finding_frame[OF this]
  show "cases (snd (score_finding L w cfg pid comm exe category reason points i t)) = cases t" by simp
qed

lemma rw_score_add_present:
  assumes "limits_ok L" "rw_case_has pid s"
  shows "rw_score_add (Suc n) L w cfg pid comm exe category reason points s \<noteq> None"
proof -
  have "report_score L w (memory_finding n L w cfg pid) cfg pid category reason points
      (fst (score_finding L w cfg pid comm exe category reason points i (snd (get_or_create_proc L w pid comm exe s)))) i
      (snd (score_finding L w cfg pid comm exe category reason points i (snd (get_or_create_proc L w pid comm exe s)))) \<noteq> None" for i
    by (rule report_score_present) (use assms(2) in \<open>simp add: rw_case_has_def score_prep_cases[OF assms(1)]\<close>)
  then show ?thesis unfolding score_add_Suc by (simp split: option.split del: not_None_eq)
qed

interpretation score_sink:
  finding_sink "memory_finding (Suc n) L w cfg pid" "\<lambda>s. limits_ok L \<and> rw_case_has pid s"
  for n L w cfg pid
proof unfold_locales
  fix s s' :: "'a sys_scheme"
  assume k: "limits_ok L \<and> rw_case_has pid s"
  have step: "limits_ok L \<and> rw_case_has pid s'" if "sys_grows L s s'"
    using k find_case_grows[OF that] by (auto simp: rw_case_has_def)
  then show "limits_ok L \<and> rw_case_has pid s'" if "world_only s s'"
    using that sys_grows_world by blast
  show "limits_ok L \<and> rw_case_has pid s'" if "memory_finding (Suc n) L w cfg pid r p s = Some s'" for r p
    using that k by (auto simp: memory_finding_def intro!: step[THEN conjunct2] rw_score_add_grows)
  show "memory_finding (Suc n) L w cfg pid r p s \<noteq> None" for r p
    using k by (simp add: memory_finding_def rw_score_add_present del: not_None_eq)
qed

lemma snapshot_case_returns:
  assumes "limits_ok L" "pread_ok w"
  shows "snapshot_case L w (memory_finding (Suc n) L w cfg pid) pid s \<noteq> None"
proof (cases "find_case pid (cases s)")
  case (Some i)
  define s6 where "s6 = dump_exe_to_case L w pid (write_fd_listing_to_case L w pid
     (write_proc_file_to_case L w pid ''environ'' ''environ.bin''
       (write_proc_file_to_case L w pid ''maps'' ''maps.txt''
         (write_proc_file_to_case L w pid ''status'' ''status.txt''
           (write_proc_file_to_case L w pid ''cmdline'' ''cmdline.bin'' s)))))"
  have "sys_grows L s (write_reports L w pid (case_dir_at i s6) s6)"
    unfolding s6_def by (rule sys_grows_trans[OF sys_grows_world[OF snapshot_evidence]
        sys_grows_lin[OF write_reports_frame[OF assms(1)]]])
  from find_case_grows[OF this Some] have "rw_case_has pid (write_reports L w pid (case_dir_at i s6) s6)"
    by (simp add: rw_case_has_def)
  with Some show ?thesis unfolding snapshot_case_def Let_def s6_def[symmetric]
    by (simp add: score_sink.memscan_returns[OF assms(2)] assms(1) del: not_None_eq)
qed (simp add: snapshot_case_def Let_def)

lemma rw_case_event_returns:
  assumes "limits_ok L" "pread_ok w"
  shows "rw_case_event L w (memory_finding (Suc n) L w cfg pid) cfg pid score category m s \<noteq> None"
  by (auto simp: rw_case_event_def get_or_create_case_def create_case_def snapshot_case_returns[OF assms]
      simp del: not_None_eq split: option.splits prod.splits)

lemma report_score_returns:
  assumes "limits_ok L" "pread_ok w"
  shows "report_score L w (memory_finding (Suc n) L w cfg pid) cfg pid category reason points f i s \<noteq> None"
  by (simp add: report_score_def Let_def rw_case_event_returns[OF assms] del: not_None_eq)

lemma score_add_two:
  assumes "limits_ok L" "pread_ok w"
  shows "\<exists>v s'. rw_score_add 2 L w cfg pid comm exe category reason points s = Some (v, s')"
proof -
  have "rw_score_add (Suc (Suc 0)) L w cfg pid comm exe category reason points s \<noteq> None"
    unfolding score_add_Suc[of "Suc 0"]
    by (simp add: report_score_returns[OF assms] split: option.split del: not_None_eq)
  then show ?thesis by (auto simp: numeral_2_eq_2)
qed

text \<open>
  C22. \<open>rw_score_add\<close> comes back, whatever the state, the finding and the answers of the system, as long as
  \<open>pread\<close> keeps its contract: one nested level of calls is enough, because a case is registered
  before the memory of its process is scanned, so that what the scan finds opens no further case.
  More levels never change the result.
\<close>

theorem score_add_returns:
  assumes "limits_ok L" "pread_ok w"
  shows "\<exists>v s'. \<forall>n\<ge>2. rw_score_add n L w cfg pid comm exe category reason points s = Some (v, s')"
proof -
  obtain v s' where "rw_score_add 2 L w cfg pid comm exe category reason points s = Some (v, s')"
    using score_add_two[OF assms] by blast
  then show ?thesis using rw_score_add_fuel by blast
qed

definition sys_start :: "os \<Rightarrow> sys" where
  "sys_start w = scoring.extend (eventlog.extend (event_start w) (scoring.fields wl_start []))
     \<lparr>cases = []\<rparr>"

lemma score_add_returns_witness:
  "\<exists>v s'. rw_score_add 2 small_limits idle_os None 7 None None (Some ''memory'') (Some ''ELF'') 60 (sys_start idle_os) = Some (v, s')"
proof -
  have "pread_ok idle_os" by (simp add: pread_ok_def idle_os_def)
  from score_add_returns[OF small_limits_ok this] show ?thesis by fastforce
qed

subsection \<open>When a case is opened\<close>

text \<open>Reports about a process that has a case never change the list of cases.\<close>

definition same_cases :: "'a sys_scheme \<Rightarrow> 'b sys_scheme \<Rightarrow> bool" where
  "same_cases s s' \<longleftrightarrow> map case_key (cases s') = map case_key (cases s)"

lemma same_cases_trans: "same_cases s t \<Longrightarrow> same_cases t u \<Longrightarrow> same_cases s u"
  by (simp add: same_cases_def)

lemma same_cases_has: "same_cases s s' \<Longrightarrow> rw_case_has pid s' = rw_case_has pid s"
proof -
  have f: "find_case pid cs = find_idx (\<lambda>k. fst k = pid) (map case_key cs)" for cs
    unfolding find_case_def by (rule find_idx_cong) (simp add: case_key_def o_def)
  show "same_cases s s' \<Longrightarrow> rw_case_has pid s' = rw_case_has pid s"
    by (simp add: same_cases_def rw_case_has_def f)
qed

lemma same_cases_lin: "lin_only s s' \<Longrightarrow> same_cases s s'"
  using lin_only_fields[of s s'] by (simp add: same_cases_def)

lemma rw_case_event_same:
  assumes "limits_ok L" "rw_case_has pid s" "rw_case_event L w add cfg pid score category m s = Some s'"
  shows "same_cases s s'"
proof -
  obtain i where i: "find_case pid (cases s) = Some i" using assms(2) by (auto simp: rw_case_has_def)
  define t where "t = (if score > cs_max_score (cases s ! i)
      then s\<lparr>cases := (cases s)[i := (cases s ! i)\<lparr>cs_max_score := score\<rparr>]\<rparr> else s)"
  have "same_cases s t"
    by (cases "i < length (cases s)")
       (simp_all add: t_def same_cases_def map_update list_update_same_conv list_update_beyond case_key_def)
  moreover have "s' = write_reports L w pid (case_dir_at i t) (case_vlog L w (case_dir_at i t) score category m t)"
    using assms(3) i by (simp add: rw_case_event_def get_or_create_case_def t_def)
  ultimately show ?thesis
    using same_cases_lin[OF world_only_lin[OF world_only_case_vlog]]
      same_cases_lin[OF write_reports_frame(1)[OF assms(1)]] by (metis same_cases_trans)
qed

lemma report_score_same:
  assumes "limits_ok L" "rw_case_has pid s \<or> ps_score (scores s ! i) < threshold_or 60 cfg"
    "report_score L w add cfg pid category reason points f i s = Some s'"
  shows "same_cases s s'"
proof -
  let ?p = "scores s ! i"
  define s2 where "s2 = rw_event_addf w pid (Some (str_or category ''score''))
     (score_event_text points (threshold_or 60 cfg) reason f ?p)
     (rw_log_score L w (score_log_text pid points (threshold_or 60 cfg) category reason f ?p) s)"
  have 2: "same_cases s s2" by (simp add: s2_def same_cases_def case_frame)
  have ev: "same_cases s s'" if "same_cases s t" "rw_case_has pid s" "rw_case_event L w add cfg pid sc c m t = Some s'" for sc c m t
    using that rw_case_event_same[OF assms(1)] same_cases_has[OF that(1)] same_cases_trans by blast
  have 3: "same_cases s (rw_log_alert L w m (upd_score i (\<lambda>p. p\<lparr>ps_case_opened := True\<rparr>) s2))" for m
    using 2 by (simp add: same_cases_def case_frame)
  show ?thesis
  proof (cases "ps_score ?p \<ge> threshold_or 60 cfg")
    case True
    then show ?thesis using assms(2,3) ev[OF 3] ev[OF 2]
      unfolding report_score_def Let_def s2_def[symmetric] by (auto split: if_splits)
  next
    case False
    then show ?thesis using assms(3) 2 ev[OF 2] same_cases_has[OF 2]
      unfolding report_score_def Let_def s2_def[symmetric] by (auto split: if_splits)
  qed
qed

lemma rw_score_add_same:
  assumes "limits_ok L" "rw_case_has pid s"
    "rw_score_add n L w cfg pid comm exe category reason points s = Some (v, s')"
  shows "same_cases s s'"
proof (cases n)
  case (Suc m)
  show ?thesis
  proof (cases "pid \<le> 0 \<or> points \<le> 0 \<or> fst (get_or_create_proc L w pid comm exe s) = None")
    case True
    then show ?thesis using assms(3) unfolding Suc score_add_Suc
      by (auto simp: same_cases_def score_prep_cases(1)[OF assms(1)] split: if_splits)
  next
    case False
    then obtain i where i: "fst (get_or_create_proc L w pid comm exe s) = Some i" by auto
    let ?t = "snd (score_finding L w cfg pid comm exe category reason points i (snd (get_or_create_proc L w pid comm exe s)))"
    have t: "same_cases s ?t" by (simp add: same_cases_def score_prep_cases[OF assms(1)])
    have "rw_case_has pid ?t" using same_cases_has[OF t] assms(2) by simp
    with assms(3) i False show ?thesis unfolding Suc score_add_Suc
      by (auto intro: same_cases_trans[OF t report_score_same[OF assms(1)]])
  qed
qed (use assms(3) in simp)

lemma keeps_same_cases:
  assumes "limits_ok L"
  shows "finding_keeper (memory_finding n L w cfg pid) (\<lambda>s. rw_case_has pid s \<and> same_cases s0 s)"
proof unfold_locales
  fix s s' :: "'a sys_scheme"
  assume k: "rw_case_has pid s \<and> same_cases s0 s"
  have step: "rw_case_has pid s' \<and> same_cases s0 s'" if "same_cases s s'"
    using k same_cases_has[OF that] that by (auto intro: same_cases_trans)
  then show "rw_case_has pid s' \<and> same_cases s0 s'" if "world_only s s'"
    using that same_cases_lin[OF world_only_lin] by blast
  show "rw_case_has pid s' \<and> same_cases s0 s'" if "memory_finding n L w cfg pid r p s = Some s'" for r p
    using that k by (intro step) (auto simp: memory_finding_def intro: rw_score_add_same[OF assms])
qed

text \<open>The state in which \<open>rw_score_add\<close> decides about a case, and the entry it decides on.\<close>

definition scored :: "limits \<Rightarrow> os \<Rightarrow> rw_config option \<Rightarrow> pid \<Rightarrow> string option \<Rightarrow> string option \<Rightarrow> string option
    \<Rightarrow> string option \<Rightarrow> int \<Rightarrow> nat \<Rightarrow> 'a sys_scheme \<Rightarrow> 'a sys_scheme" where
  "scored L w cfg pid comm exe category reason points i s =
     snd (score_finding L w cfg pid comm exe category reason points i (snd (get_or_create_proc L w pid comm exe s)))"

text \<open>
  C3. No case is opened for a process whose score is below the threshold: the list of cases (whose they
  are and where they live) is then the same before and after, whatever the system answers.
\<close>

theorem no_case_below_threshold:
  assumes "limits_ok L" "fst (get_or_create_proc L w pid comm exe s) = Some i"
    "ps_score (scores (scored L w cfg pid comm exe category reason points i s) ! i) < threshold_or 60 cfg"
    "rw_score_add n L w cfg pid comm exe category reason points s = Some (v, s')"
  shows "map (\<lambda>c. (cs_pid c, cs_dir c)) (cases s') = map (\<lambda>c. (cs_pid c, cs_dir c)) (cases s)"
proof (cases n)
  case (Suc m)
  have "same_cases s s'"
  proof (cases "pid \<le> 0 \<or> points \<le> 0")
    case True
    then show ?thesis using assms(4) unfolding Suc score_add_Suc by (auto simp: same_cases_def)
  next
    case False
    let ?t = "scored L w cfg pid comm exe category reason points i s"
    have t: "same_cases s ?t" by (simp add: same_cases_def score_prep_cases[OF assms(1)] scored_def)
    from assms(2-4) False show ?thesis unfolding Suc score_add_Suc
      by (auto simp flip: scored_def intro: same_cases_trans[OF t report_score_same[OF assms(1)]])
  qed
  then show ?thesis by (simp add: same_cases_def case_key_def[abs_def])
qed (use assms(4) in simp)

lemma register_case_opens:
  assumes "\<And>t p. env_mkdir w t p" "length (cases s) < RW_MAX_CASES"
    "base = (case cfg of Some c \<Rightarrow> str_or (log_dir c) ''logs'' | None \<Rightarrow> ''logs'')"
    "\<And>t. length (base @ ''/cases/pid_'' @ show_int pid @ ''_'' @ env_strftime w dir_stamp_fmt t) < max_path L"
  shows "\<exists>now s1. register_case L w cfg pid score s = (Some (length (cases s)), s1)
    \<and> cases s1 = cases s @ [\<lparr>cs_pid = pid, cs_max_score = score,
        cs_dir = base @ ''/cases/pid_'' @ show_int pid @ ''_'' @ env_strftime w dir_stamp_fmt now\<rparr>]"
proof -
  have mk: "mkdir_if_needed w p t = (0, snd (sys_mkdir w p t))" for p and t :: "'a sys_scheme"
    by (simp add: mkdir_if_needed_def sys_mkdir_def assms(1))
  have cd: "path_in (max_path L) base ''cases'' = Some (base @ ''/cases'')"
    using assms(4)[of 0] by (simp add: path_in_Some)
  have d: "path_in (max_path L) (base @ ''/cases'') (''pid_'' @ show_int pid @ ''_'' @ env_strftime w dir_stamp_fmt t)
      = Some (base @ ''/cases/pid_'' @ show_int pid @ ''_'' @ env_strftime w dir_stamp_fmt t)" for t
    using assms(4)[of t] by (simp add: path_in_Some)
  have c: "cases (snd (sys_mkdir w p t)) = cases t" "cases (snd (sys_time w t)) = cases t" for p and t :: "'a sys_scheme"
    by (simp_all add: sys_mkdir_def sys_time_def tick_def)
  show ?thesis
    using assms(2) unfolding register_case_def assms(3)[symmetric] Let_def cd option.case mk prod.case
    by (simp only: fst_conv snd_conv simp_thms if_False case_timestamp_def Let_def split_beta d option.case mk
        prod.case append_case_def c not_le[symmetric] if_True) (auto simp: c append_case_def)
qed

lemma snapshot_case_same:
  assumes "limits_ok L" "rw_case_has pid s"
    "snapshot_case L w (memory_finding n L w cfg pid) pid s = Some s'"
  shows "same_cases s s'"
proof -
  define s6 where "s6 = dump_exe_to_case L w pid (write_fd_listing_to_case L w pid
     (write_proc_file_to_case L w pid ''environ'' ''environ.bin''
       (write_proc_file_to_case L w pid ''maps'' ''maps.txt''
         (write_proc_file_to_case L w pid ''status'' ''status.txt''
           (write_proc_file_to_case L w pid ''cmdline'' ''cmdline.bin'' s)))))"
  obtain i where i: "find_case pid (cases s) = Some i" using assms(2) by (auto simp: rw_case_has_def)
  let ?t = "write_reports L w pid (case_dir_at i s6) s6"
  have t: "same_cases s ?t"
    unfolding s6_def by (rule same_cases_trans[OF same_cases_lin[OF world_only_lin[OF snapshot_evidence]]
        same_cases_lin[OF write_reports_frame(1)[OF assms(1)]]])
  obtain m where "sh_memscan_pid L w (memory_finding n L w cfg pid) \<lparr>rq_pid = pid, rq_dir = case_dir_at i s6,
      rq_freeze = False, rq_max_region = SH_MEMSCAN_MAX_REGION_DUMP\<rparr> ?t = Some (m, s')"
    using assms(3) i unfolding snapshot_case_def Let_def s6_def[symmetric] by auto
  from finding_keeper.memscan_keeps[OF keeps_same_cases[OF assms(1)] this, of s] t assms(2)
  show ?thesis by (simp add: same_cases_has)
qed

lemma rw_case_event_opens:
  assumes "limits_ok L" "find_case pid (cases s) = None" "threshold_or 60 cfg \<le> score"
    "\<And>t p. env_mkdir w t p" "length (cases s) < RW_MAX_CASES"
    "base = (case cfg of Some c \<Rightarrow> str_or (log_dir c) ''logs'' | None \<Rightarrow> ''logs'')"
    "\<And>t. length (base @ ''/cases/pid_'' @ show_int pid @ ''_'' @ env_strftime w dir_stamp_fmt t) < max_path L"
    "rw_case_event L w (memory_finding n L w cfg pid) cfg pid score category m s = Some s'"
  shows "\<exists>now. map case_key (cases s') = map case_key (cases s)
    @ [(pid, base @ ''/cases/pid_'' @ show_int pid @ ''_'' @ env_strftime w dir_stamp_fmt now)]"
proof -
  obtain now s1 where s1: "register_case L w cfg pid score s = (Some (length (cases s)), s1)"
    "cases s1 = cases s @ [\<lparr>cs_pid = pid, cs_max_score = score,
        cs_dir = base @ ''/cases/pid_'' @ show_int pid @ ''_'' @ env_strftime w dir_stamp_fmt now\<rparr>]"
    using register_case_opens[OF assms(4-7)] by blast
  let ?t = "announce_case L w pid score (case_dir_at (length (cases s)) s1) (Some (str_or category ''event'')) s1"
  obtain s2 where s2: "snapshot_case L w (memory_finding n L w cfg pid) pid ?t = Some s2"
    "s' = write_reports L w pid (case_dir_at (length (cases s)) s2)
       (case_vlog L w (case_dir_at (length (cases s)) s2) score category m s2)"
    using assms(2,3,8) s1(1) by (auto simp: rw_case_event_def get_or_create_case_def create_case_def)
  have t: "same_cases s1 ?t" by (rule same_cases_lin[OF logger_only_lin[OF announce_case_only]])
  have "rw_case_has pid s1"
    using register_case_grows(2)[OF s1(1) assms(2) refl] by (simp add: rw_case_has_def)
  with t have "rw_case_has pid ?t" by (simp add: same_cases_has)
  note s = snapshot_case_same[OF assms(1) this s2(1)]
  have "same_cases s2 s'" unfolding s2(2)
    by (rule same_cases_trans[OF same_cases_lin[OF world_only_lin[OF world_only_case_vlog]]
        same_cases_lin[OF write_reports_frame(1)[OF assms(1)]]])
  with t s have "same_cases s1 s'" by (blast intro: same_cases_trans)
  then show ?thesis using s1(2) by (auto simp: same_cases_def case_key_def)
qed

lemma report_score_at_threshold:
  assumes "threshold_or 60 cfg \<le> ps_score (scores s ! i)"
  shows "\<exists>s3 c m. cases s3 = cases s \<and> report_score L w add cfg pid category reason points f i s =
    rw_case_event L w add cfg pid (ps_score (scores s ! i)) c m s3"
  using assms unfolding report_score_def Let_def if_P[OF assms]
  by (intro exI conjI[rotated]) (rule refl, simp add: case_frame)

text \<open>
  C2. A finding that lifts a process to the threshold opens its case: the call returns, and the list of
  cases has grown by exactly one, of this process, in a directory named after the pid and the time
  below \<open>cases\<close> in the log directory. What it takes is that the directories can be made, that the
  path fits its buffer and that the table is not full.
\<close>

theorem case_opens_at_threshold:
  assumes "limits_ok L" "pread_ok w" "\<And>t p. env_mkdir w t p"
    "\<And>t. length (base @ ''/cases/pid_'' @ show_int pid @ ''_'' @ env_strftime w dir_stamp_fmt t) < max_path L"
    "base = (case cfg of Some c \<Rightarrow> str_or (log_dir c) ''logs'' | None \<Rightarrow> ''logs'')"
    "0 < pid" "0 < points" "length (cases s) < RW_MAX_CASES" "find_case pid (cases s) = None"
    "fst (get_or_create_proc L w pid comm exe s) = Some i"
    "threshold_or 60 cfg \<le> ps_score (scores (scored L w cfg pid comm exe category reason points i s) ! i)"
  shows "\<exists>v s' now. rw_score_add 2 L w cfg pid comm exe category reason points s = Some (v, s')
    \<and> map (\<lambda>c. (cs_pid c, cs_dir c)) (cases s') = map (\<lambda>c. (cs_pid c, cs_dir c)) (cases s)
        @ [(pid, base @ ''/cases/pid_'' @ show_int pid @ ''_'' @ env_strftime w dir_stamp_fmt now)]"
proof -
  let ?t = "scored L w cfg pid comm exe category reason points i s"
  let ?f = "fst (score_finding L w cfg pid comm exe category reason points i
              (snd (get_or_create_proc L w pid comm exe s)))"
  let ?add = "memory_finding (Suc 0) L w cfg pid"
  have ct: "cases ?t = cases s" by (simp add: score_prep_cases[OF assms(1)] scored_def)
  obtain s' where s': "report_score L w ?add cfg pid category reason points ?f i ?t = Some s'"
    using report_score_returns[OF assms(1,2)] by blast
  from report_score_at_threshold[OF assms(11)] obtain s3 c m where s3: "cases s3 = cases s"
    "report_score L w ?add cfg pid category reason points ?f i ?t =
       rw_case_event L w ?add cfg pid (ps_score (scores ?t ! i)) c m s3"
    unfolding ct by blast
  have "rw_score_add 2 L w cfg pid comm exe category reason points s = Some (ps_score (scores s' ! i), s')"
    using s' assms(6,7,10) unfolding numeral_2_eq_2 score_add_Suc by (simp flip: scored_def)
  moreover obtain now where "map case_key (cases s') = map case_key (cases s)
    @ [(pid, base @ ''/cases/pid_'' @ show_int pid @ ''_'' @ env_strftime w dir_stamp_fmt now)]"
    using rw_case_event_opens[OF assms(1) _ assms(11) assms(3) _ assms(5,4)] s' s3 assms(8,9) by metis
  ultimately show ?thesis unfolding case_key_def[abs_def] by blast
qed

lemma sys_start_fields [simp]:
  "nodes (sys_start w) = []" "evs (sys_start w) = ring_init" "scores (sys_start w) = []" "cases (sys_start w) = []"
  "wl (sys_start w) = wl_start" "clk (sys_start w) = 0"
  by (simp_all add: sys_start_def event_start_def lineage_start_def logger_start_def scoring.defs eventlog.defs lineage.defs logger.defs)

lemma start_first_entry:
  "get_or_create_proc small_limits idle_os 7 None None (sys_start idle_os) = (Some 0,
     (sys_start idle_os)\<lparr>scores := [new_score small_limits 7 1000 None ''<unknown>''], clk := 2\<rparr>)"
  by (simp add: get_or_create_proc_def find_proc_def create_proc_def RW_MAX_PROCS_def sys_time_def
      rw_read_exe_path_def rw_read_link_path_def idle_os_def tick_def append_score_def cstr_copy_def small_limits_def)

lemma apply_finding_floor: "0 \<le> m \<Longrightarrow> m \<le> 100 \<Longrightarrow> m \<le> ps_score (apply_finding f m fl now p)"
  by (auto simp: apply_finding_def recompute_score_def clamp_int_def Let_def)

lemma record_event_score [simp]: "ps_score (record_event L f c r p) = ps_score p"
  by (simp add: record_event_def)

lemma start_first_score:
  "60 \<le> ps_score (scores (scored small_limits idle_os None 7 None None (Some ''memory'') (Some ''RWX'') 60 0 
      (sys_start idle_os)) ! 0)"
proof -
  have w: "snd (weigh_finding None x 7 (Some ''memory'') (Some ''RWX'') 60 p) = 75" for x p
    by (simp add: weigh_finding_def default_floor_for_finding_def contains_ci_def Let_def)
  have le: "60 \<le> ps_score (apply_finding f (snd (weigh_finding None x 7 (Some ''memory'') (Some ''RWX'') 60 q)) fl now p)"
    for f x q fl now p
    using apply_finding_floor[of 75 f fl now p] unfolding w by simp
  show ?thesis
    unfolding scored_def start_first_entry snd_conv score_finding_def decay_proc_def sys_time_def tick_def
      Let_def split_beta by (simp add: le)
qed

lemma case_opens_at_threshold_witness:
  "\<exists>v s' now. rw_score_add 2 small_limits idle_os None 7 None None (Some ''memory'') (Some ''RWX'') 60 (sys_start idle_os)
     = Some (v, s') \<and> map (\<lambda>c. (cs_pid c, cs_dir c)) (cases s') =
       map (\<lambda>c. (cs_pid c, cs_dir c)) (cases (sys_start idle_os))
       @ [(7, ''logs'' @ ''/cases/pid_'' @ show_int 7 @ ''_'' @ env_strftime idle_os dir_stamp_fmt now)]"
proof (rule case_opens_at_threshold[where i = 0])
  show "pread_ok idle_os" by (simp add: pread_ok_def idle_os_def)
  show "length (''logs'' @ ''/cases/pid_'' @ show_int 7 @ ''_'' @ env_strftime idle_os dir_stamp_fmt t) < max_path small_limits" for t
    using show_nat_length[of 7] by (simp add: idle_os_def small_limits_def show_int_def)
  show "threshold_or 60 None \<le> ps_score (scores (scored small_limits idle_os None 7 None None (Some ''memory'')
      (Some ''RWX'') 60 0 (sys_start idle_os)) ! 0)"
    using start_first_score by (simp add: threshold_or_def)
  show "env_mkdir idle_os t p" for t p by (simp add: idle_os_def)
qed (simp_all add: small_limits_ok RW_MAX_CASES_def find_case_def start_first_entry)

lemma start_low_score:
  "ps_score (scores (scored small_limits idle_os None 7 None None (Some ''memory'') (Some ''x'') 1 0 
      (sys_start idle_os)) ! 0) < threshold_or 60 None"
proof -
  let ?p = "new_score small_limits 7 1000 None ''<unknown>''"
  have d: "decay_loop now ?p = ?p" if "now < 1030" for now
    using that by (subst decay_loop.simps) (simp add: new_score_def RW_DECAY_SECONDS_def)
  have r: "rename_proc small_limits None None p = p" for p by (simp add: rename_proc_def)
  have w: "weigh_finding None x 7 (Some ''memory'') (Some ''x'') 1 ?p =
     (\<lparr>fi_cat = Memory, fi_before = 0, fi_points = 1, fi_whitelisted = False, fi_why = []\<rparr>, 0)" for x
    by (simp add: weigh_finding_def classify_category_def normalized_points_def default_floor_for_finding_def
        contains_ci_def Let_def new_score_def)
  have f: "classify_flags (Some ''memory'') (Some ''x'') = 0"
    by (simp add: classify_flags_def contains_ci_def)
  have cb: "compute_correlation_bonus 0 = 0" by code_simp
  have cw: "compute_weighted_score ((\<lambda>_. 0)(Memory := 1)) = 0" by code_simp
  have "ps_score (apply_finding \<lparr>fi_cat = Memory, fi_before = 0, fi_points = 1, fi_whitelisted = False, fi_why = []\<rparr>
      0 0 now ?p) = 0" for now
    by (simp add: apply_finding_def recompute_score_def Let_def new_score_def cb cw clamp_int_def)
  then show ?thesis
    unfolding scored_def start_first_entry snd_conv score_finding_def decay_proc_def sys_time_def tick_def
      Let_def by (simp add: idle_os_def d w f r threshold_or_def)
qed

lemma idle_pread_ok: "pread_ok idle_os"
  by (simp add: pread_ok_def idle_os_def)

lemma no_case_below_threshold_witness:
  "map (\<lambda>c. (cs_pid c, cs_dir c)) (cases (snd (the (rw_score_add 2 small_limits idle_os None 7 None None
     (Some ''memory'') (Some ''x'') 1 (sys_start idle_os))))) = []"
proof -
  obtain v s' where r: "rw_score_add 2 small_limits idle_os None 7 None None
     (Some ''memory'') (Some ''x'') 1 (sys_start idle_os) = Some (v, s')"
    using score_add_two[OF small_limits_ok idle_pread_ok] by blast
  from no_case_below_threshold[OF small_limits_ok _ start_low_score r] show ?thesis
    by (simp add: r start_first_entry)
qed

subsection \<open>Without a case directory\<close>

lemma register_case_fails:
  assumes "\<And>t p. \<not> env_mkdir w t p"
  shows "\<exists>s1. register_case L w cfg pid score s = (None, s1) \<and> world_only s s1"
proof -
  have "mkdir_if_needed w p t = (-1, snd (sys_mkdir w p t))" for p and t :: "'a sys_scheme"
    by (simp add: mkdir_if_needed_def sys_mkdir_def assms)
  then show ?thesis
    unfolding register_case_def Let_def by (auto simp: world_only_calls split: option.split)
qed

text \<open>
  C31. When no directory can be made (a full disk, no permission), scoring goes on without cases: every
  finding returns with the score of its process, the entry holds what the finding made of it and
  differs only in the mark that the threshold was crossed, and no case enters the table.
\<close>

theorem score_survives_case_failure:
  assumes "limits_ok L" "\<And>t p. \<not> env_mkdir w t p" "0 < pid" "0 < points" "find_case pid (cases s) = None"
    "fst (get_or_create_proc L w pid comm exe s) = Some i" "0 < n"
  shows "let t = scored L w cfg pid comm exe category reason points i s; p = scores t ! i in
    \<exists>s'. rw_score_add n L w cfg pid comm exe category reason points s = Some (ps_score p, s')
      \<and> cases s' = cases s
      \<and> scores s' = (scores t)[i := p\<lparr>ps_case_opened := ps_case_opened p \<or> threshold_or 60 cfg \<le> ps_score p\<rparr>]"
proof -
  define t where "t = scored L w cfg pid comm exe category reason points i s"
  let ?p = "scores t ! i"
  let ?f = "fst (score_finding L w cfg pid comm exe category reason points i
              (snd (get_or_create_proc L w pid comm exe s)))"
  obtain m where n: "n = Suc m" using assms(7) by (cases n) auto
  let ?add = "memory_finding m L w cfg pid"
  have ct: "cases t = cases s" by (simp add: score_prep_cases[OF assms(1)] scored_def t_def)
  have sc: "scores (rw_log_score L w msg u) = scores u" "scores (rw_log_alert L w msg u) = scores u"
    "scores (rw_event_addf w pid c msg u) = scores u" for msg c and u :: "'a sys_scheme"
    by (simp_all add: rw_event_addf_def rw_event_add_def sys_time_def tick_def
      lin_only_fields[OF logger_only_lin[OF rw_log_only(6)]] lin_only_fields[OF logger_only_lin[OF rw_log_only(2)]])
  have ev: "\<exists>s1. rw_case_event L w ?add cfg pid score c msg u = Some s1 \<and> cases s1 = cases s \<and> scores s1 = X"
    if "cases u = cases s" "scores u = X" for score c msg u X
  proof -
    obtain s1 where s1: "register_case L w cfg pid score u = (None, s1)" "world_only u s1"
      using register_case_fails[OF assms(2)] by blast
    have f: "find_case pid (cases u) = None" using that(1) assms(5) by simp
    show ?thesis using lin_only_fields[OF world_only_lin[OF s1(2)]] f that
      by (simp add: rw_case_event_def get_or_create_case_def create_case_def s1(1))
  qed
  have "\<exists>s'. report_score L w ?add cfg pid category reason points ?f i t = Some s' \<and> cases s' = cases s
      \<and> scores s' = (scores t)[i := ?p\<lparr>ps_case_opened := ps_case_opened ?p \<or> threshold_or 60 cfg \<le> ps_score ?p\<rparr>]"
  proof (cases "threshold_or 60 cfg \<le> ps_score ?p")
    case True
    have same: "ps_case_opened q \<Longrightarrow> q\<lparr>ps_case_opened := True\<rparr> = q" for q by (cases q) simp
    show ?thesis
    proof (cases "ps_case_opened ?p")
      case True
      then show ?thesis using \<open>threshold_or 60 cfg \<le> ps_score ?p\<close>
        by (simp add: report_score_def Let_def same) (rule ev; simp add: case_frame sc ct)
    next
      case False
      then show ?thesis using True
        by (simp add: report_score_def Let_def) (rule ev; simp add: case_frame sc ct)
    qed
  next
    case False
    then show ?thesis by (simp add: report_score_def Let_def case_frame sc ct rw_case_has_def assms(5))
  qed
  then obtain s' where "report_score L w ?add cfg pid category reason points ?f i t = Some s'" "cases s' = cases s"
    "scores s' = (scores t)[i := ?p\<lparr>ps_case_opened := ps_case_opened ?p \<or> threshold_or 60 cfg \<le> ps_score ?p\<rparr>]" by blast
  moreover have "i < length (scores t)"
  proof -
    obtain r u where u: "get_or_create_proc L w pid comm exe s = (r, u)" by fastforce
    obtain f v where v: "score_finding L w cfg pid comm exe category reason points i u = (f, v)" by fastforce
    show ?thesis using get_or_create_proc_grows[OF assms(1) u] score_finding_frame[OF v] assms(6) u v
      by (auto simp: t_def scored_def dest: map_eq_imp_length_eq)
  qed
  ultimately show ?thesis using assms(3,4,6) unfolding n score_add_Suc Let_def t_def[symmetric]
    by (auto simp flip: scored_def t_def)
qed

lemma score_survives_case_failure_witness:
  "let w = idle_os\<lparr>env_mkdir := (\<lambda>_ _. False)\<rparr> in
   cases (snd (the (rw_score_add 1 small_limits w None 7 None None (Some ''memory'') (Some ''RWX'') 60 (sys_start w)))) = []"
proof -
  let ?w = "idle_os\<lparr>env_mkdir := (\<lambda>_ _. False)\<rparr>"
  have g: "fst (get_or_create_proc small_limits ?w 7 None None (sys_start ?w)) = Some 0"
    by (simp add: get_or_create_proc_def find_proc_def create_proc_def RW_MAX_PROCS_def sys_time_def
        rw_read_exe_path_def rw_read_link_path_def tick_def append_score_def split_beta)
  have "find_case 7 (cases (sys_start ?w)) = None" by (simp add: find_case_def)
  from score_survives_case_failure[OF small_limits_ok _ _ _ this g, of 60 1 None "Some ''memory''" "Some ''RWX''"]
  show ?thesis by (auto simp: Let_def)
qed

subsection \<open>The dump of the executable\<close>

lemma fprintf_fresh:
  "files s p = Some [] \<Longrightarrow> files (fprintf_to p t s) = (files s)(p \<mapsto> t)"
  by (simp add: fprintf_to_def put_file_def file_text_def)

text \<open>
  C32. The checksum a case keeps is the one of the dump it keeps: when \<open>/proc/<pid>/exe\<close> reads to some
  text without an error, \<open>exe.dump\<close> holds that text and \<open>exe.sha256\<close> its SHA-256 as FIPS 180-4 defines
  it, in the format of \<open>sha256sum -c\<close>.
\<close>

theorem case_dump_hash:
  assumes "find_case pid (cases s) = Some i" "\<And>t p. env_open w t p" "\<And>t. env_io_error w t = (\<lambda>_. None)"
    "length (case_dir_at i s @ ''/exe.sha256'') < max_path L"
    "fst (sys_read w (proc_path pid ''exe'') s) = Some T"
  shows "let s' = dump_exe_to_case L w pid s; d = case_dir_at i s in
     files s' (d @ ''/exe.dump'') = Some T
   \<and> files s' (d @ ''/exe.sha256'') =
       Some (concat (map hex2 (fips_sha256 (str_bytes T))) @ ''  exe.dump'' @ [newline])"
proof -
  let ?d = "case_dir_at i s"
  let ?dump = "?d @ ''/exe.dump''" and ?sum = "?d @ ''/exe.sha256''"
  obtain s1 where s1: "sys_read w (proc_path pid ''exe'') s = (Some T, s1)"
    using assms(5) by (cases "sys_read w (proc_path pid ''exe'') s") auto
  define s2 where "s2 = fprintf_to ?dump T (tick (put_file ?dump [] (tick s1)))"
  have p1: "path_in (max_path L) ?d ''exe.dump'' = Some ?dump" "path_in (max_path L) ?d ''exe.sha256'' = Some ?sum"
    using assms(4) by (simp_all add: path_in_Some)
  have c: "rw_copy_file w (proc_path pid ''exe'') ?dump s = (0, s2)"
    by (simp add: rw_copy_file_def s1 sys_fopen_w_def assms(2,3) s2_def)
  have f2: "files s2 ?dump = Some T"
    by (simp add: s2_def fprintf_to_def put_file_def file_text_def world_simps)
  obtain s3 where s3: "rw_sha256_file w ?dump s2 = (Some (concat (map hex2 (fips_sha256 (str_bytes T)))), s3)"
    using sha256_file_digest[OF f2, of w] assms(3) by (cases "rw_sha256_file w ?dump s2") auto
  then have f3: "files s3 = files s2"
    by (auto simp: rw_sha256_file_def sys_read_def split_beta Let_def tick_def split: option.splits)
  have "world_only s s3" using world_only_trans[OF _ world_only_files(1)] world_only_files(2) c s3
    by (metis snd_conv)
  from lin_only_fields[OF world_only_lin[OF this]] have d3: "case_dir_at i s3 = ?d" by (simp add: case_dir_at_def)
  have "dump_exe_to_case L w pid s = write_if_open w ?sum
      (concat (map hex2 (fips_sha256 (str_bytes T))) @ ''  exe.dump'' @ [newline]) s3"
    unfolding dump_exe_to_case_def assms(1) option.case p1 Let_def c prod.case s3 d3 by simp
  then show ?thesis
    using f2 f3 by (simp add: Let_def write_if_open_def sys_fopen_w_def assms(2) fprintf_to_def put_file_def file_text_def world_simps)
qed

lemma case_dump_hash_witness:
  "let w = idle_os\<lparr>env_read := (\<lambda>_ _. Some ''abc'')\<rparr>;
       s = (sys_start w)\<lparr>cases := [\<lparr>cs_pid = 7, cs_max_score = 60, cs_dir = ''d''\<rparr>]\<rparr>
   in files (dump_exe_to_case small_limits w 7 s) ''d/exe.dump'' = Some ''abc''"
proof -
  let ?w = "idle_os\<lparr>env_read := (\<lambda>_ _. Some ''abc'')\<rparr>"
  let ?s = "(sys_start ?w)\<lparr>cases := [\<lparr>cs_pid = 7, cs_max_score = 60, cs_dir = ''d''\<rparr>]\<rparr>"
  have "find_case 7 (cases ?s) = Some 0" by (simp add: find_case_def)
  from case_dump_hash[OF this, of ?w small_limits "''abc''"]
  show ?thesis by (simp add: Let_def idle_os_def case_dir_at_def small_limits_def sys_read_def sys_start_def
      event_start_def lineage_start_def logger_start_def scoring.defs eventlog.defs lineage.defs logger.defs)
qed

subsection \<open>Every reachable state\<close>

lemma decay_all_grows:
  fixes s :: "'a sys_scheme"
  shows "sys_grows L s (rw_score_decay_all w s)"
proof -
  have one: "sys_grows L t (decay_proc w i t)" for t :: "'a sys_scheme" and i
  proof -
    have "decay_proc w i t = t \<or> decay_proc w i t =
        upd_score i (decay_loop (env_time w (clk t))) (tick t)"
      by (simp add: decay_proc_def sys_time_def tick_def upd_score_def)
    moreover have "sys_grows L t (upd_score i (decay_loop now) (tick t))" for now
      by (rule sys_grows_trans[OF sys_grows_world[OF world_only_calls(1)] sys_grows_upd_score])
         (simp_all add: decay_loop_ok)
    ultimately show ?thesis by auto
  qed
  have "sys_grows L s (fold (decay_proc w) is t)" if "sys_grows L s t" for "is" and t :: "'a sys_scheme"
    using that by (induction "is" arbitrary: t) (simp_all add: sys_grows_trans[OF _ one])
  then show ?thesis by (simp add: rw_score_decay_all_def)
qed

text \<open>
  One step of the program as the modules see it: a finding, a decay pass, an event, a note about a
  process, a case event or action, a poll of the whitelist, or anything that only touches clock, files
  and log. The environment and the configuration may change from step to step.
\<close>

inductive sys_step :: "limits \<Rightarrow> sys \<Rightarrow> sys \<Rightarrow> bool" for L where
  st_score: "rw_score_add n L w cfg pid comm exe category reason points s = Some (v, s') \<Longrightarrow> sys_step L s s'"
| st_decay: "sys_step L s (rw_score_decay_all w s)"
| st_event: "sys_step L s (rw_event_add w pid category detail s)"
| st_fork: "sys_step L s (rw_lineage_record_fork L w parent child s)"
| st_exec: "sys_step L s (rw_lineage_record_exec L w pid s)"
| st_exit: "sys_step L s (rw_lineage_record_exit L w pid code s)"
| st_observe: "sys_step L s (rw_lineage_observe_pid L w pid s)"
| st_refresh: "sys_step L s (rw_lineage_refresh_procfs L w s)"
| st_case_event: "rw_case_event L w (memory_finding n L w cfg pid) cfg pid score category m s = Some s' \<Longrightarrow> sys_step L s s'"
| st_case_action: "rw_case_action L w (memory_finding n L w cfg pid) cfg pid act res m s = Some s' \<Longrightarrow> sys_step L s s'"
| st_whitelist: "sys_step L s (s\<lparr>wl := x\<rparr>)"
| st_logger: "logger_only s s' \<Longrightarrow> sys_step L s s'"

lemma memory_finding_grows: "limits_ok L \<Longrightarrow> adds_grow L (memory_finding n L w cfg pid)"
  by (auto simp: adds_grow_def memory_finding_def intro: rw_score_add_grows)

lemma lineage_grows:
  assumes "limits_ok L"
  shows "sys_grows L s (rw_lineage_record_fork L w parent child s)" "sys_grows L s (rw_lineage_record_exec L w pid s)"
    "sys_grows L s (rw_lineage_record_exit L w pid code s)" "sys_grows L s (rw_lineage_observe_pid L w pid s)"
    "sys_grows L s (rw_lineage_refresh_procfs L w s)"
  by (rule sys_grows_lin; intro lin_only_intros lin_grows_intros lin_only_refl lin_grows_refl assms)+

lemma sys_step_grows: "limits_ok L \<Longrightarrow> sys_step L s s' \<Longrightarrow> sys_grows L s s'"
proof (rotate_tac, induction rule: sys_step.induct)
  case (st_whitelist s x)
  show ?case by (simp add: sys_grows_def sys_inv_def)
qed (auto intro: rw_score_add_grows decay_all_grows sys_grows_event sys_grows_logger
    rw_case_event_grows[OF _ memory_finding_grows] rw_case_action_grows[OF _ memory_finding_grows]
    lineage_grows)

text \<open>
  In every state the program reaches from its start, whatever the system answered on the way: no pid
  has two entries in the process table, the score table or the case table, the tables and the event
  ring stay within their arrays, every score, bucket and floor is between 0 and 100 and every string
  fits its buffer.
\<close>

theorem tables_ok:
  assumes "limits_ok L" "(sys_step L)\<^sup>*\<^sup>* (sys_start w) s"
  shows "lin_ok L (nodes s) \<and> ring_ok (evs s) \<and> scores_ok L (scores s) \<and> table_ok cs_pid RW_MAX_CASES (cases s)"
proof -
  have "sys_grows L (sys_start w) s"
    using assms(2) by (induction rule: rtranclp_induct) (auto intro: sys_grows_trans sys_step_grows[OF assms(1)])
  moreover have "sys_inv L (sys_start w)" by (simp add: sys_inv_def table_ok_def)
  ultimately show ?thesis by (simp add: sys_grows_def sys_inv_def)
qed

lemma tables_ok_witness:
  "scores_ok small_limits (scores (snd (the (rw_score_add 2 small_limits idle_os None 7 None None
     (Some ''memory'') (Some ''RWX'') 60 (sys_start idle_os)))))"
proof -
  obtain v s' where r: "rw_score_add 2 small_limits idle_os None 7 None None
     (Some ''memory'') (Some ''RWX'') 60 (sys_start idle_os) = Some (v, s')"
    using score_add_two[OF small_limits_ok idle_pread_ok] by blast
  from tables_ok[OF small_limits_ok r_into_rtranclp[of "sys_step small_limits", OF st_score[OF r]]] show ?thesis by (simp add: r)
qed

end
