(* ===== verification/Report.thy ===== *)
theory Report
  imports System "HOL-Library.Monad_Syntax"
begin

section \<open>Reporting: what every detector does with a finding\<close>

text \<open>
  The detectors share one way to report: add to the score of a process, then, if the process has a case,
  put the details into its case log. The calls here are those of theory \<open>Cases\<close> with the number of
  nested levels that \<open>score_add_returns\<close> shows to be enough. A handler is a function of the state into
  an option; \<open>None\<close> would be a call that never returns. \<open>runs\<close> is the contract that every handler
  of a detector meets: it returns when \<open>pread\<close> keeps its contract, and it keeps every table well formed.
\<close>

definition score_add ::
  "limits \<Rightarrow> os \<Rightarrow> rw_config option \<Rightarrow> pid \<Rightarrow> string option \<Rightarrow> string option \<Rightarrow> string \<Rightarrow> string \<Rightarrow> int
     \<Rightarrow> 'a sys_scheme \<Rightarrow> 'a sys_scheme option" where
  "score_add L w cfg pid comm exe category reason points s =
     map_option snd (rw_score_add 2 L w cfg pid comm exe (Some category) (Some reason) points s)"

text \<open>\<open>if (rw_case_has(pid)) rw_case_event(pid, score, cfg, category, ...)\<close>\<close>

definition case_detail ::
  "limits \<Rightarrow> os \<Rightarrow> rw_config option \<Rightarrow> pid \<Rightarrow> int \<Rightarrow> string \<Rightarrow> string \<Rightarrow> 'a sys_scheme \<Rightarrow> 'a sys_scheme option" where
  "case_detail L w cfg pid score category txt s =
     (if rw_case_has pid s
      then rw_case_event L w (memory_finding 1 L w cfg pid) cfg pid score (Some category) txt s
      else Some s)"

definition case_action ::
  "limits \<Rightarrow> os \<Rightarrow> rw_config option \<Rightarrow> pid \<Rightarrow> string \<Rightarrow> int \<Rightarrow> string \<Rightarrow> 'a sys_scheme \<Rightarrow> 'a sys_scheme option" where
  "case_action L w cfg pid action result txt s =
     rw_case_action L w (memory_finding 1 L w cfg pid) cfg pid (Some action) result txt s"

subsection \<open>The contract of a handler\<close>

definition runs :: "limits \<Rightarrow> os \<Rightarrow> 'a sys_scheme \<Rightarrow> 'a sys_scheme option \<Rightarrow> bool" where
  "runs L w s r \<longleftrightarrow> (\<forall>s'. r = Some s' \<longrightarrow> sys_grows L s s') \<and> (pread_ok w \<longrightarrow> r \<noteq> None)"

named_theorems runs_intros \<open>handlers that return and keep the tables\<close>

lemma runs_Some [runs_intros]: "sys_grows L s t \<Longrightarrow> runs L w s (Some t)"
  by (simp add: runs_def)

lemma runs_bind [runs_intros]:
  assumes "runs L w s x" "\<And>t. sys_grows L s t \<Longrightarrow> runs L w t (f t)"
  shows "runs L w s (Option.bind x f)"
  using assms unfolding runs_def by (cases x) (auto intro: sys_grows_trans)

text \<open>A handler with a result beside the state.\<close>

lemma runs_bind_snd:
  assumes "runs L w s (map_option snd x)" "\<And>v t. sys_grows L s t \<Longrightarrow> runs L w t (map_option snd (f (v, t)))"
  shows "runs L w s (map_option snd (Option.bind x f))"
proof (cases x)
  case (Some y)
  with assms(1) have "sys_grows L s (snd y)" by (simp add: runs_def)
  with assms(2)[OF this, of "fst y"] Some show ?thesis unfolding runs_def by (auto intro: sys_grows_trans)
qed (use assms(1) in \<open>simp add: runs_def\<close>)

lemma runs_bind_snd2:
  assumes "runs L w s (map_option (\<lambda>r. snd (snd r)) x)"
    "\<And>b v t. sys_grows L s t \<Longrightarrow> runs L w t (map_option snd (f (b, v, t)))"
  shows "runs L w s (map_option snd (Option.bind x f))"
proof (cases x)
  case (Some y)
  with assms(1) have "sys_grows L s (snd (snd y))" by (simp add: runs_def)
  with assms(2)[OF this, of "fst y" "fst (snd y)"] Some show ?thesis
    unfolding runs_def by (auto intro: sys_grows_trans)
qed (use assms(1) in \<open>simp add: runs_def\<close>)

lemma runs_if [runs_intros]:
  "(b \<Longrightarrow> runs L w s x) \<Longrightarrow> (\<not> b \<Longrightarrow> runs L w s y) \<Longrightarrow> runs L w s (if b then x else y)"
  by simp

lemma runs_from: "sys_grows L s t \<Longrightarrow> runs L w t x \<Longrightarrow> runs L w s x"
  unfolding runs_def by (auto intro: sys_grows_trans)

declare sys_grows_refl [runs_intros]

lemma sys_grows_snd [runs_intros]: "sys_grows L s t \<Longrightarrow> sys_grows L s (snd (v, t))"
  by simp

text \<open>
  Each step is stated from the state \<open>s\<close> in which a handler starts to the state \<open>t\<close> that it has reached,
  so that a handler is proved by applying the rules along its text.
\<close>

lemma sys_grows_if [runs_intros]:
  "(b \<Longrightarrow> sys_grows L s t) \<Longrightarrow> (\<not> b \<Longrightarrow> sys_grows L s u) \<Longrightarrow> sys_grows L s (if b then t else u)"
  by simp

lemma sys_grows_logs [runs_intros]:
  assumes "sys_grows L s t"
  shows "sys_grows L s (rw_log_info L w m t)" "sys_grows L s (rw_log_alert L w m t)"
    "sys_grows L s (rw_log_network L w m t)" "sys_grows L s (rw_log_injection L w m t)"
    "sys_grows L s (rw_log_event L w m t)" "sys_grows L s (rw_log_score L w m t)"
  by (rule sys_grows_trans[OF assms sys_grows_logger], rule rw_log_only)+

lemma sys_grows_addf [runs_intros]: "sys_grows L s t \<Longrightarrow> sys_grows L s (rw_event_addf w pid c m t)"
  unfolding rw_event_addf_def by (erule sys_grows_trans) (rule sys_grows_event)

lemmas sys_grows_world_calls [runs_intros] =
  world_only_calls[THEN sys_grows_world, THEN sys_grows_trans[rotated]]

lemma sys_grows_lineage [runs_intros]:
  assumes "limits_ok L" "sys_grows L s t"
  shows "sys_grows L s (rw_lineage_record_fork L w parent child t)" "sys_grows L s (rw_lineage_record_exec L w pid t)"
    "sys_grows L s (rw_lineage_record_exit L w pid code t)" "sys_grows L s (rw_lineage_observe_pid L w pid t)"
    "sys_grows L s (rw_lineage_refresh_procfs L w t)"
  by (rule sys_grows_trans[OF assms(2)], rule lineage_grows[OF assms(1)])+

lemma runs_score_add [runs_intros]:
  assumes "limits_ok L" "sys_grows L s t"
  shows "runs L w s (score_add L w cfg pid comm exe category reason points t)"
proof (rule runs_from[OF assms(2)])
  show "runs L w t (score_add L w cfg pid comm exe category reason points t)"
    using score_add_two[of L w cfg pid comm exe "Some category" "Some reason" points t] assms(1)
    by (auto simp: runs_def score_add_def intro: rw_score_add_grows)
qed

lemma runs_case_detail [runs_intros]:
  assumes "limits_ok L" "sys_grows L s t"
  shows "runs L w s (case_detail L w cfg pid score category m t)"
proof (rule runs_from[OF assms(2)], cases "rw_case_has pid t")
  case True
  then show "runs L w t (case_detail L w cfg pid score category m t)"
    using rw_case_event_present[OF True, of L w "memory_finding 1 L w cfg pid" cfg score "Some category" m]
    by (auto simp: runs_def case_detail_def
        intro: rw_case_event_grows[OF assms(1) memory_finding_grows[OF assms(1)]])
qed (simp add: case_detail_def runs_Some)

lemma rw_case_action_returns:
  assumes "limits_ok L" "pread_ok w"
  shows "rw_case_action L w (memory_finding (Suc n) L w cfg pid) cfg pid act res m s \<noteq> None"
proof -
  have "get_or_create_case L w (memory_finding (Suc n) L w cfg pid) cfg pid 100 r s \<noteq> None" for r
    by (auto simp: get_or_create_case_def create_case_def snapshot_case_returns[OF assms]
        simp del: not_None_eq split: option.splits prod.splits)
  then show ?thesis
    by (auto simp: rw_case_action_def Let_def bind_eq_None_conv rw_case_event_returns[OF assms]
        simp del: not_None_eq split: option.splits prod.splits)
qed

lemma runs_case_action [runs_intros]:
  assumes "limits_ok L" "sys_grows L s t"
  shows "runs L w s (case_action L w cfg pid action res m t)"
proof (rule runs_from[OF assms(2)])
  show "runs L w t (case_action L w cfg pid action res m t)"
    using rw_case_action_returns[OF assms(1), of w 0 cfg pid "Some action" res m t]
    by (auto simp: runs_def case_action_def simp del: not_None_eq
        intro: rw_case_action_grows[OF assms(1) memory_finding_grows[OF assms(1)]])
qed

text \<open>Handlers that count their findings: the count is a result beside the state.\<close>

lemma runs_counts [runs_intros]:
  "sys_grows L s t \<Longrightarrow> runs L w s (map_option snd (Some (v, t)))"
  "runs L w s x \<Longrightarrow> (\<And>t. sys_grows L s t \<Longrightarrow> runs L w t (map_option snd (f t)))
   \<Longrightarrow> runs L w s (map_option snd (Option.bind x f))"
  "(b \<Longrightarrow> runs L w s (map_option snd y)) \<Longrightarrow> (\<not> b \<Longrightarrow> runs L w s (map_option snd z))
   \<Longrightarrow> runs L w s (map_option snd (if b then y else z))"
  by (auto simp: runs_Some map_option_bind intro: runs_bind)

subsection \<open>Findings that open a case\<close>

text \<open>
  A finding with a floor lifts the score of its process to that floor, unless the whitelist dampens it.
  Where the floor reaches the threshold the process has a case afterwards, as long as the directory can be
  made and neither table is full. \<open>tables_grow\<close> carries such a case through whatever follows.
\<close>

definition whitelist_off :: "rw_config option \<Rightarrow> bool" where
  "whitelist_off cfg \<longleftrightarrow> (case cfg of Some c \<Rightarrow> \<not> enable_whitelist c | None \<Rightarrow> True)"

definition case_base :: "rw_config option \<Rightarrow> string" where
  "case_base cfg = (case cfg of Some c \<Rightarrow> str_or (log_dir c) ''logs'' | None \<Rightarrow> ''logs'')"

definition case_dir_fits :: "limits \<Rightarrow> os \<Rightarrow> rw_config option \<Rightarrow> pid \<Rightarrow> bool" where
  "case_dir_fits L w cfg pid \<longleftrightarrow>
     (\<forall>t. length (case_base cfg @ ''/cases/pid_'' @ show_int pid @ ''_'' @ env_strftime w dir_stamp_fmt t) < max_path L)"

lemma case_has_pids: "rw_case_has pid s \<longleftrightarrow> pid \<in> fst ` set (map case_key (cases s))"
  by (auto simp: rw_case_has_def find_case_def find_idx_None case_key_def image_iff split: option.splits)

text \<open>What every operation does to the two tables that are never emptied while the monitor runs.\<close>

definition tables_grow :: "'a sys_scheme \<Rightarrow> 'a sys_scheme \<Rightarrow> bool" where
  "tables_grow s s' \<longleftrightarrow> prefix (map case_key (cases s)) (map case_key (cases s'))
     \<and> prefix (map ps_pid (scores s)) (map ps_pid (scores s'))"

definition tables_full :: "'a sys_scheme \<Rightarrow> bool" where
  "tables_full s \<longleftrightarrow> RW_MAX_CASES \<le> length (cases s) \<or> RW_MAX_PROCS \<le> length (scores s)"

lemma tables_grow_refl [simp]: "tables_grow s s"
  by (simp add: tables_grow_def)

lemma tables_grow_trans: "tables_grow s t \<Longrightarrow> tables_grow t u \<Longrightarrow> tables_grow s u"
  unfolding tables_grow_def by (blast intro: prefix_order.order_trans)

lemma sys_grows_tables: "sys_grows L s s' \<Longrightarrow> tables_grow s s'"
  by (simp add: sys_grows_def tables_grow_def)

lemma tables_grow_has: "tables_grow s s' \<Longrightarrow> rw_case_has pid s \<Longrightarrow> rw_case_has pid s'"
  unfolding case_has_pids tables_grow_def using set_mono_prefix by blast

lemma tables_grow_room: "tables_grow s s' \<Longrightarrow> \<not> tables_full s' \<Longrightarrow> \<not> tables_full s"
  by (auto simp: tables_grow_def tables_full_def not_le dest!: prefix_length_le)

lemma scored_floor:
  assumes "limits_ok L" "whitelist_off cfg" "fst (get_or_create_proc L w pid comm exe s) = Some i"
    "m = default_floor_for_finding category reason points"
  shows "m \<le> ps_score (scores (scored L w cfg pid comm exe category reason points i s) ! i)"
proof -
  let ?t = "snd (get_or_create_proc L w pid comm exe s)"
  have i: "i < length (scores ?t)"
    using get_or_create_proc_grows[OF assms(1), of w pid comm exe s "Some i" ?t] assms(3) by (simp add: prod_eq_iff)
  have w: "snd (weigh_finding cfg x pid category reason points p) = m" for x p
    using assms(2,4) by (cases cfg) (simp_all add: weigh_finding_def whitelist_off_def Let_def)
  have m: "0 \<le> m" "m \<le> 100" unfolding assms(4) by (simp_all add: default_floor_for_finding_def)
  have le: "m \<le> ps_score (apply_finding f (snd (weigh_finding cfg x pid category reason points q)) fl now p)" for f x q fl now p
    unfolding w by (rule apply_finding_floor[OF m])
  show ?thesis
    unfolding scored_def score_finding_def Let_def split_beta
    using i by (simp add: le decay_proc_scores sys_time_def tick_def)
qed

lemma score_add_tables:
  "limits_ok L \<Longrightarrow> score_add L w cfg pid comm exe category reason points s = Some s' \<Longrightarrow> tables_grow s s'"
  using runs_score_add[OF _ sys_grows_refl, of L w s cfg pid comm exe category reason points]
  by (auto simp: runs_def intro: sys_grows_tables)

text \<open>A finding whose floor reaches the threshold leaves its process with a case, while the tables have room.\<close>

lemma score_add_opens:
  assumes "limits_ok L" "pread_ok w" "\<And>t p. env_mkdir w t p" "case_dir_fits L w cfg pid" "0 < pid" "0 < points"
    "whitelist_off cfg" "threshold_or 60 cfg \<le> default_floor_for_finding (Some category) (Some reason) points"
    "score_add L w cfg pid comm exe category reason points s = Some s'"
    "\<not> tables_full s'"
  shows "rw_case_has pid s'"
proof (cases "rw_case_has pid s")
  case True
  then show ?thesis using score_add_tables[OF assms(1,9)] by (rule tables_grow_has[rotated])
next
  case False
  have room: "length (cases s) < RW_MAX_CASES" "length (scores s) < RW_MAX_PROCS"
    using tables_grow_room[OF score_add_tables[OF assms(1,9)] assms(10)] by (simp_all add: tables_full_def)
  then obtain i where i: "fst (get_or_create_proc L w pid comm exe s) = Some i"
    by (cases "find_proc pid (scores s)") (auto simp: get_or_create_proc_def create_proc_def append_score_def Let_def split_beta
        sys_time_def tick_def)
  let ?t = "scored L w cfg pid comm exe (Some category) (Some reason) points i s"
  let ?f = "fst (score_finding L w cfg pid comm exe (Some category) (Some reason) points i
              (snd (get_or_create_proc L w pid comm exe s)))"
  have ct: "cases ?t = cases s" by (simp add: score_prep_cases[OF assms(1)] scored_def)
  have th: "threshold_or 60 cfg \<le> ps_score (scores ?t ! i)"
    using scored_floor[OF assms(1,7) i refl] assms(8) by (rule order_trans[rotated])
  have s': "report_score L w (memory_finding (Suc 0) L w cfg pid) cfg pid (Some category) (Some reason) points ?f i ?t = Some s'"
    using assms(5,6,9) i unfolding score_add_def numeral_2_eq_2 score_add_Suc by (auto simp flip: scored_def)
  from report_score_at_threshold[OF th] s' obtain s3 c m where s3: "cases s3 = cases s"
    "rw_case_event L w (memory_finding (Suc 0) L w cfg pid) cfg pid (ps_score (scores ?t ! i)) c m s3 = Some s'"
    unfolding ct by metis
  have "\<exists>now. map case_key (cases s') = map case_key (cases s3)
      @ [(pid, case_base cfg @ ''/cases/pid_'' @ show_int pid @ ''_'' @ env_strftime w dir_stamp_fmt now)]"
    by (rule rw_case_event_opens[OF assms(1) _ th assms(3) _ _ _ s3(2)])
      (use False room s3(1) assms(4) in \<open>simp_all add: rw_case_has_def case_base_def case_dir_fits_def\<close>)
  then obtain d where e: "map case_key (cases s') = map case_key (cases s3) @ [(pid, d)]" by blast
  show ?thesis unfolding case_has_pids e by simp
qed

subsection \<open>\<open>rw_syscall_alert\<close> of \<open>core/util.c\<close>\<close>

definition rw_syscall_alert ::
  "limits \<Rightarrow> os \<Rightarrow> rw_config option \<Rightarrow> pid \<Rightarrow> string option \<Rightarrow> string option \<Rightarrow> string option
     \<Rightarrow> 'a sys_scheme \<Rightarrow> 'a sys_scheme option" where
  "rw_syscall_alert L w cfg pid comm kind detail s =
     (let safe_comm = str_or comm ''<unknown>'';
          safe_kind = str_or kind ''suspicious_syscall'';
          safe_detail = str_or detail [];
          what = ''pid='' @ show_int pid @ '' comm='' @ safe_comm @ '' kind='' @ safe_kind
                 @ '' detail='' @ safe_detail;
          s1 = rw_log_alert L w (''suspicious syscall '' @ what) s;
          s2 = (if (case cfg of None \<Rightarrow> True | Some c \<Rightarrow> log_syscalls c)
                then rw_log_event L w (''suspicious_syscall '' @ what) s1 else s1);
          score = (if strstr safe_kind ''ptrace'' \<or> strstr safe_kind ''process_vm_writev''
                      \<or> strstr safe_kind ''mprotect'' \<or> strstr safe_kind ''mmap'' then 85 else 75)
      in do {
           s3 \<leftarrow> score_add L w cfg pid (Some safe_comm) None ''SYSCALL'' safe_kind score s2;
           case_detail L w cfg pid score ''SYSCALL_DETAIL''
             (''comm='' @ safe_comm @ '' kind='' @ safe_kind @ '' detail='' @ safe_detail) s3
         })"

lemma runs_syscall_alert [runs_intros]:
  assumes "limits_ok L" "sys_grows L s t"
  shows "runs L w s (rw_syscall_alert L w cfg pid comm kind detail t)"
  unfolding rw_syscall_alert_def Let_def by (intro runs_intros assms)

end
