(* ===== verification/Inject.thy ===== *)
theory Inject
  imports Report
begin

section \<open>Injection scanner (\<open>detect/inject.c\<close>)\<close>

text \<open>
  The scan of one process's memory map and status for signs of injected code, and the scan of every
  process. The console lines of the source are left out, and with them the argument \<open>verbose\<close>, which
  decides about nothing else.
\<close>

definition map_fields :: "string \<Rightarrow> string \<times> string" where
  "map_fields line = (case Option.bind (skip_word line) (scan_word 7) of
     None \<Rightarrow> ([], [])
   | Some (perms, r) \<Rightarrow> (perms, case scan_path r of None \<Rightarrow> [] | Some p \<Rightarrow> p))"

definition injection_reason :: "string \<Rightarrow> string \<Rightarrow> string option" where
  "injection_reason perms map_path =
     (let has_r = CHR ''r'' \<in> set perms;
          has_w = CHR ''w'' \<in> set perms;
          has_x = CHR ''x'' \<in> set perms;
          has_path = map_path \<noteq> []
      in if has_r \<and> has_w \<and> has_x then Some ''RWX memory mapping''
         else if has_x \<and> \<not> has_path then None
         else if has_x \<and> strstr map_path ''(deleted)'' then Some ''deleted executable mapping''
         else if has_x \<and> strstr map_path ''/memfd:'' then Some ''executable memfd mapping''
         else if has_x \<and> rw_suspicious_path (Some map_path)
         then Some ''executable mapping from suspicious path''
         else None)"

text \<open>One line of the map, and one of the status file; both count a finding.\<close>

definition map_finding ::
  "limits \<Rightarrow> os \<Rightarrow> rw_config option \<Rightarrow> pid \<Rightarrow> string \<Rightarrow> string \<Rightarrow> int \<times> 'a sys_scheme
     \<Rightarrow> (int \<times> 'a sys_scheme) option" where
  "map_finding L w cfg pid exe line st = (case st of (n, s) \<Rightarrow>
     let (perms, map_path) = map_fields line
     in case injection_reason perms map_path of
          None \<Rightarrow> Some (n, s)
        | Some reason \<Rightarrow> do {
            s2 \<leftarrow> score_add L w cfg pid None (Some exe) ''INJECTION'' reason 80
              (rw_log_injection L w (''pid='' @ show_int pid @ '' exe='' @ exe @ '' reason='' @ reason
                 @ '' map='' @ line) s);
            s3 \<leftarrow> case_detail L w cfg pid 80 ''INJECTION_DETAIL''
              (''exe='' @ exe @ '' reason='' @ reason @ '' map='' @ line) s2;
            Some (n + 1, s3)
          })"

definition tracer_pid :: "string \<Rightarrow> int" where
  "tracer_pid line = (case scan_lit ''TracerPid:'' line of
     None \<Rightarrow> 0
   | Some r \<Rightarrow> (case scan_int r of None \<Rightarrow> 0 | Some (v, _) \<Rightarrow> c_int v))"

definition status_finding ::
  "limits \<Rightarrow> os \<Rightarrow> rw_config option \<Rightarrow> pid \<Rightarrow> string \<Rightarrow> string \<Rightarrow> int \<times> 'a sys_scheme
     \<Rightarrow> (int \<times> 'a sys_scheme) option" where
  "status_finding L w cfg pid exe line st = (case st of (n, s) \<Rightarrow>
     let tracer = tracer_pid line
     in if tracer = 0 then Some (n, s)
        else do {
          s2 \<leftarrow> score_add L w cfg pid None (Some exe) ''INJECTION'' ''process is being ptraced'' 90
            (rw_log_injection L w (''pid='' @ show_int pid @ '' exe='' @ exe
               @ '' reason=process is being ptraced tracer='' @ show_int tracer) s);
          s3 \<leftarrow> case_detail L w cfg pid 90 ''INJECTION_DETAIL''
            (''exe='' @ exe @ '' reason=process is being ptraced tracer='' @ show_int tracer) s2;
          Some (n + 1, s3)
        })"

fun each_line ::
  "(string \<Rightarrow> 'b \<Rightarrow> 'b option) \<Rightarrow> string list \<Rightarrow> 'b \<Rightarrow> 'b option" where
  "each_line f [] st = Some st"
| "each_line f (l # ls) st = Option.bind (f l st) (each_line f ls)"

definition scan_file_lines ::
  "os \<Rightarrow> string \<Rightarrow> (string \<Rightarrow> int \<times> 'a sys_scheme \<Rightarrow> (int \<times> 'a sys_scheme) option) \<Rightarrow> int \<times> 'a sys_scheme
     \<Rightarrow> (bool \<times> int \<times> 'a sys_scheme) option" where
  "scan_file_lines w path f st = (case st of (n, s) \<Rightarrow>
     let (txt, s1) = sys_read w path s
     in case txt of
          None \<Rightarrow> Some (False, n, s1)
        | Some t \<Rightarrow> map_option (Pair True) (each_line f (fgets_lines 2048 t) (n, s1)))"

definition rw_scan_injection_pid ::
  "limits \<Rightarrow> os \<Rightarrow> rw_config option \<Rightarrow> pid \<Rightarrow> 'a sys_scheme \<Rightarrow> (int \<times> 'a sys_scheme) option" where
  "rw_scan_injection_pid L w cfg pid s =
     (let (exe, s1) = rw_read_exe_path w pid (max_path L) s
      in do {
           (opened, st) \<leftarrow> scan_file_lines w (proc_path pid ''maps'') (map_finding L w cfg pid exe) (0, s1);
           if opened
           then map_option snd (scan_file_lines w (proc_path pid ''status'') (status_finding L w cfg pid exe) st)
           else Some (0, snd st)
         })"

fun scan_names ::
  "limits \<Rightarrow> os \<Rightarrow> rw_config option \<Rightarrow> string list \<Rightarrow> int \<times> 'a sys_scheme \<Rightarrow> (int \<times> 'a sys_scheme) option" where
  "scan_names L w cfg [] st = Some st"
| "scan_names L w cfg (d # ds) st = (case st of (found, s) \<Rightarrow>
     if \<not> rw_is_numeric (Some d) then scan_names L w cfg ds (found, s)
     else do {
       (n, s1) \<leftarrow> rw_scan_injection_pid L w cfg (atoi d) s;
       scan_names L w cfg ds (found + n, s1)
     })"

definition rw_scan_all_injection ::
  "limits \<Rightarrow> os \<Rightarrow> rw_config option \<Rightarrow> 'a sys_scheme \<Rightarrow> (int \<times> 'a sys_scheme) option" where
  "rw_scan_all_injection L w cfg s =
     (let (dir, s1) = sys_opendir w ''/proc'' s
      in case dir of
           None \<Rightarrow> Some (0, s1)
         | Some names \<Rightarrow> do {
             (found, s2) \<leftarrow> scan_names L w cfg names (0, s1);
             Some (found, if found > 0
                          then rw_log_injection L w (''full scan complete findings='' @ show_int found) s2
                          else s2)
           })"

subsection \<open>The scanner as a handler\<close>

lemma runs_pair_option [runs_intros]:
  "(v = None \<Longrightarrow> runs L w s (map_option snd x)) \<Longrightarrow> (\<And>a. v = Some a \<Longrightarrow> runs L w s (map_option snd (f a)))
   \<Longrightarrow> runs L w s (map_option snd (case v of None \<Rightarrow> x | Some a \<Rightarrow> f a))"
  by (cases v) simp_all

lemma map_finding_runs:
  "limits_ok L \<Longrightarrow> sys_grows L s t \<Longrightarrow> runs L w s (map_option snd (map_finding L w cfg pid exe line (n, t)))"
  unfolding map_finding_def Let_def split_beta prod.case by (intro runs_intros)

lemma status_finding_runs:
  "limits_ok L \<Longrightarrow> sys_grows L s t \<Longrightarrow> runs L w s (map_option snd (status_finding L w cfg pid exe line (n, t)))"
  unfolding status_finding_def Let_def split_beta prod.case by (intro runs_intros)

lemma each_line_runs:
  assumes "\<And>l n s t. sys_grows L s t \<Longrightarrow> runs L w s (map_option snd (f l (n, t)))" "sys_grows L s t"
  shows "runs L w s (map_option snd (each_line f ls (n, t)))"
  using assms(2)
proof (induction ls arbitrary: s n t)
  case (Cons l ls)
  show ?case unfolding each_line.simps
  proof (rule runs_bind_snd)
    show "runs L w s (map_option snd (f l (n, t)))" by (rule assms(1)[OF Cons.prems])
  qed (rule Cons.IH, rule sys_grows_refl)
qed (simp add: runs_Some)

lemma scan_file_lines_runs:
  assumes "\<And>l n s t. sys_grows L s t \<Longrightarrow> runs L w s (map_option snd (f l (n, t)))" "sys_grows L s t"
  shows "runs L w s (map_option (\<lambda>r. snd (snd r)) (scan_file_lines w path f (n, t)))"
proof -
  obtain c s1 where r: "sys_read w path t = (c, s1)" by fastforce
  have g: "sys_grows L s s1" using sys_grows_world_calls(3)[OF assms(2), of w path] r by simp
  show ?thesis
  proof (cases c)
    case (Some x)
    have "runs L w s (map_option snd (each_line f (fgets_lines 2048 x) (n, s1)))"
      by (rule each_line_runs; fact assms(1) g)
    with Some show ?thesis by (simp add: scan_file_lines_def r option.map_comp o_def)
  qed (simp add: scan_file_lines_def r runs_Some g)
qed

lemma scan_injection_runs [runs_intros]:
  assumes "limits_ok L" "sys_grows L s t"
  shows "runs L w s (map_option snd (rw_scan_injection_pid L w cfg pid t))"
proof -
  obtain exe s1 where r: "rw_read_exe_path w pid (max_path L) t = (exe, s1)" by fastforce
  have g: "sys_grows L s s1" using sys_grows_world_calls(14)[OF assms(2), of w pid "max_path L"] r by simp
  show ?thesis
    unfolding rw_scan_injection_pid_def r Let_def prod.case
  proof (rule runs_bind_snd2)
    show "runs L w s (map_option (\<lambda>r. snd (snd r)) (scan_file_lines w (proc_path pid ''maps'')
        (map_finding L w cfg pid exe) (0, s1)))"
      by (rule scan_file_lines_runs; rule map_finding_runs[OF assms(1)] g; assumption?)
  next
    fix b and n :: int and u
    have "runs L w u (map_option (\<lambda>r. snd (snd r)) (scan_file_lines w (proc_path pid ''status'')
        (status_finding L w cfg pid exe) (n, u)))"
      by (rule scan_file_lines_runs; rule status_finding_runs[OF assms(1)] sys_grows_refl; assumption?)
    then show "runs L w u (map_option snd (case (b, n, u) of (opened, st) \<Rightarrow>
        if opened then map_option snd (scan_file_lines w (proc_path pid ''status'') (status_finding L w cfg pid exe) st)
        else Some (0, snd st)))"
      by (simp add: option.map_comp o_def runs_Some)
  qed
qed

lemma scan_names_runs:
  "limits_ok L \<Longrightarrow> sys_grows L s t \<Longrightarrow> runs L w s (map_option snd (scan_names L w cfg ds (n, t)))"
proof (induction ds arbitrary: s n t)
  case (Cons d ds)
  show ?case
  proof (cases "rw_is_numeric (Some d)")
    case True
    have "runs L w s (map_option snd (do { (m, s1) \<leftarrow> rw_scan_injection_pid L w cfg (atoi d) t;
        scan_names L w cfg ds (n + m, s1) }))"
      by (rule runs_bind_snd[OF scan_injection_runs[OF Cons.prems]])
         (simp add: Cons.IH[OF Cons.prems(1) sys_grows_refl])
    with True show ?thesis by simp
  next
    case False
    then show ?thesis using Cons.IH[OF Cons.prems] by simp
  qed
qed (simp add: runs_Some)

lemma scan_all_runs [runs_intros]:
  assumes "limits_ok L" "sys_grows L s t"
  shows "runs L w s (map_option snd (rw_scan_all_injection L w cfg t))"
proof -
  obtain names s1 where r: "sys_opendir w ''/proc'' t = (names, s1)" by fastforce
  have g: "sys_grows L s s1" using sys_grows_world_calls(4)[OF assms(2), of w "''/proc''"] r by simp
  show ?thesis
  proof (cases names)
    case (Some ds)
    show ?thesis
      unfolding rw_scan_all_injection_def r Let_def prod.case Some option.case
      by (rule runs_bind_snd[OF scan_names_runs[OF assms(1) g]])
         (auto intro!: runs_intros)
  qed (simp add: rw_scan_all_injection_def r runs_Some g)
qed

subsection \<open>What is counted\<close>

lemma each_line_count:
  assumes "\<And>l n s m s'. f l (n, s) = Some (m, s') \<Longrightarrow> m = n + (if P l then 1 else 0)"
  shows "each_line f ls (n, s) = Some (m, s') \<Longrightarrow> m = n + int (length (filter P ls))"
proof (induction ls arbitrary: n s)
  case (Cons l ls)
  then obtain n1 s1 where "f l (n, s) = Some (n1, s1)" "each_line f ls (n1, s1) = Some (m, s')"
    by (auto simp: bind_eq_Some_conv)
  with assms[OF this(1)] Cons.IH[OF this(2)] show ?case by simp
qed simp

text \<open>
  Which lines of a map are signs of injected code, said of the permissions and the path that the line holds.
\<close>

definition marked_mapping :: "string \<Rightarrow> string \<Rightarrow> bool" where
  "marked_mapping perms path \<longleftrightarrow> CHR ''x'' \<in> set perms
     \<and> (CHR ''r'' \<in> set perms \<and> CHR ''w'' \<in> set perms
        \<or> (\<exists>v\<in>{''(deleted)'', ''/memfd:'', ''/tmp/'', ''/dev/shm/'', ''/var/tmp/'', ''/.cache/''}. sublist v path))"

definition marked_map_line :: "string \<Rightarrow> bool" where
  "marked_map_line line \<longleftrightarrow> marked_mapping (fst (map_fields line)) (snd (map_fields line))"

lemma marked_mapping_reason: "marked_mapping perms path \<longleftrightarrow> injection_reason perms path \<noteq> None"
  by (auto simp: marked_mapping_def injection_reason_def rw_suspicious_path_def strstr_def Let_def)

text \<open>For a line as the kernel prints it these are the permissions and the path of the mapping.\<close>

lemma map_fields_line:
  assumes "newline \<notin> set path" "path = [] \<or> \<not> isspace (hd path)" "length path \<le> 511"
  shows "map_fields (map_line a b (map_perms rd wr ex sh) off major minor ino path) = (map_perms rd wr ex sh, path)"
proof -
  obtain r0 r1 where r: "map_line a b (map_perms rd wr ex sh) off major minor ino path
        = (pad_zero 8 (show_hex a) @ CHR ''-'' # pad_zero 8 (show_hex b)) @ r0"
      "isspace (hd r0)" "scan_word 7 r0 = Some (map_perms rd wr ex sh, r1)"
      "scan_path r1 = (if path = [] then None else Some path)"
    using map_line_words[OF assms] by blast
  have "skip_word ((pad_zero 8 (show_hex a) @ CHR ''-'' # pad_zero 8 (show_hex b)) @ r0) = Some r0"
    by (rule skip_word_text[OF map_range_word _ skip_space_word_text[OF map_range_word]]) (simp add: r(2))
  with r show ?thesis by (simp add: map_fields_def)
qed

lemma marked_kernel_line:
  assumes "newline \<notin> set path" "path = [] \<or> \<not> isspace (hd path)" "length path \<le> 511"
  shows "marked_map_line (map_line a b (map_perms rd wr ex sh) off major minor ino path) \<longleftrightarrow>
    ex \<and> (rd \<and> wr \<or> (\<exists>v\<in>{''(deleted)'', ''/memfd:'', ''/tmp/'', ''/dev/shm/'', ''/var/tmp/'', ''/.cache/''}. sublist v path))"
  unfolding marked_map_line_def map_fields_line[OF assms] marked_mapping_def fst_conv snd_conv
  by (auto simp: map_perms_def)

lemma scan_int_nat:
  assumes "r = [] \<or> \<not> isdigit (hd r)"
  shows "scan_int (show_nat n @ r) = Some (int n, r)"
proof -
  have d: "list_all isdigit (show_nat n)" "show_nat n \<noteq> []" using show_nat_digits[of n] by (auto simp: show_nat_def)
  then obtain c cs where c: "show_nat n = c # cs" "isdigit c" by (cases "show_nat n") auto
  have "skip_space (show_nat n @ r) = show_nat n @ r" using c isdigit_not_space by (simp add: skip_space_def)
  moreover have "takeWhile isdigit (show_nat n @ r) = show_nat n \<and> dropWhile isdigit (show_nat n @ r) = r"
    by (rule takeWhile_stop[OF d(1) assms])
  ultimately show ?thesis using c isdigit_not_space[OF c(2)] dec_val_show_nat[of n]
    by (simp add: scan_int_def Let_def)
qed

lemma tracer_pid_line:
  assumes "0 \<le> v" "v < 2 ^ 31"
  shows "tracer_pid (''TracerPid:'' @ CHR 0x09 # show_int v @ [newline]) = v"
proof -
  have l: "scan_lit ''TracerPid:'' (''TracerPid:'' @ CHR 0x09 # show_int v @ [newline]) = Some (CHR 0x09 # show_int v @ [newline])"
    by (simp add: scan_lit_def)
  have "isspace (CHR 0x09)" by (simp add: isspace_def chr_code_def)
  then have "scan_int (CHR 0x09 # show_int v @ [newline]) = scan_int (show_nat (nat v) @ [newline])"
    using assms(1) by (simp add: scan_int_def show_int_def)
  also have "\<dots> = Some (v, [newline])"
    using assms(1) by (subst scan_int_nat) (simp_all add: newline_def isdigit_def chr_code_def)
  finally have i: "scan_int (CHR 0x09 # show_int v @ [newline]) = Some (v, [newline])" .
  show ?thesis unfolding tracer_pid_def l option.case i prod.case using assms by (simp add: c_int_id)
qed

lemma map_finding_count:
  "map_finding L w cfg pid exe l (n, s) = Some (m, s') \<Longrightarrow> m = n + (if marked_map_line l then 1 else 0)"
  by (auto simp: map_finding_def marked_map_line_def marked_mapping_reason Let_def split_beta bind_eq_Some_conv
      split: option.splits)

lemma status_finding_count:
  "status_finding L w cfg pid exe l (n, s) = Some (m, s') \<Longrightarrow> m = n + (if tracer_pid l \<noteq> 0 then 1 else 0)"
  by (auto simp: status_finding_def Let_def bind_eq_Some_conv split: if_splits)

text \<open>
  C33. The result of a scan that returns is the number of lines it marked. Of the map these are the lines of
  executable mappings that are readable and writable too, or whose path is deleted, a memfd or in one of the
  suspicious directories; the scan over them, with a report for each, counts exactly these and ends in some state
  \<open>u\<close>. Of the status file as it reads in that state \<open>u\<close> they are the lines that name a tracer. A process whose map
  cannot be read counts nothing and its status is not looked at.
\<close>

theorem injection_counts_lines:
  assumes "rw_scan_injection_pid L w cfg pid s = Some (n, s')"
  shows "case fst (sys_read w (proc_path pid ''maps'') (tick s)) of
      None \<Rightarrow> n = 0
    | Some m \<Rightarrow> (let k = int (length (filter marked_map_line (fgets_lines 2048 m))) in
        \<exists>u. scan_file_lines w (proc_path pid ''maps'')
              (map_finding L w cfg pid (fst (rw_read_exe_path w pid (max_path L) s))) (0, tick s) = Some (True, k, u)
          \<and> n = k + (case fst (sys_read w (proc_path pid ''status'') u) of
               None \<Rightarrow> 0
             | Some st \<Rightarrow> int (length (filter (\<lambda>l. tracer_pid l \<noteq> 0) (fgets_lines 2048 st)))))"
proof -
  obtain exe s1 where r: "rw_read_exe_path w pid (max_path L) s = (exe, s1)" by fastforce
  then have s1: "s1 = tick s" by (simp add: rw_read_exe_path_def rw_read_link_path_def)
  obtain c s2 where c: "sys_read w (proc_path pid ''maps'') (tick s) = (c, s2)" by fastforce
  show ?thesis
  proof (cases c)
    case None
    with assms r c show ?thesis by (auto simp: rw_scan_injection_pid_def scan_file_lines_def s1)
  next
    case (Some m)
    obtain k u where ku: "each_line (map_finding L w cfg pid exe) (fgets_lines 2048 m) (0, s2) = Some (k, u)"
      "map_option snd (scan_file_lines w (proc_path pid ''status'') (status_finding L w cfg pid exe) (k, u)) = Some (n, s')"
      using assms r c Some by (auto simp: rw_scan_injection_pid_def scan_file_lines_def s1 bind_eq_Some_conv)
    have k: "k = int (length (filter marked_map_line (fgets_lines 2048 m)))"
      using each_line_count[OF map_finding_count ku(1)] by simp
    obtain d u2 where d: "sys_read w (proc_path pid ''status'') u = (d, u2)" by fastforce
    have "n = k + (case d of None \<Rightarrow> 0 | Some st \<Rightarrow> int (length (filter (\<lambda>l. tracer_pid l \<noteq> 0) (fgets_lines 2048 st))))"
      using ku(2) d each_line_count[OF status_finding_count]
      by (auto simp: scan_file_lines_def split: option.splits)
    moreover have "scan_file_lines w (proc_path pid ''maps'') (map_finding L w cfg pid exe) (0, tick s) = Some (True, k, u)"
      by (simp add: scan_file_lines_def c Some ku(1))
    ultimately show ?thesis using c d Some k r by simp
  qed
qed

text \<open>A map with an ordinary, a writable and a deleted mapping, and a status file that names a tracer.\<close>

definition sample_map :: "string list" where
  "sample_map =
     [''00400000-00452000 r-xp 00000000 08:02 173521 /bin/sh'',
      ''00e03000-00e24000 rwxp 00000000 00:00 0 '',
      ''00f00000-00f24000 r-xp 00000000 00:01 9 /dropper (deleted)'']"

definition sample_proc :: "string list \<Rightarrow> os" where
  "sample_proc ls = idle_os\<lparr>env_read := (\<lambda>t p.
     if p = ''/proc/7/maps'' then Some (concat (map (\<lambda>l. l @ [newline]) ls))
     else if p = ''/proc/7/status'' then Some (concat (map (\<lambda>l. l @ [newline]) [''Name: sh'', ''TracerPid:'' @ CHR 0x09 # ''99'']))
     else None)\<rparr>"

lemma fgets_lines_whole:
  assumes "\<forall>l\<in>set ls. newline \<notin> set l \<and> CHR 0x00 \<notin> set l \<and> length l + 1 < n"
  shows "fgets_lines n (concat (map (\<lambda>l. l @ [newline]) ls)) = map (\<lambda>l. l @ [newline]) ls"
  using assms
proof (induction ls)
  case (Cons l ls)
  have "fgets_raw (n - 1) (l @ newline # concat (map (\<lambda>l. l @ [newline]) ls))
      = (l @ [newline]) # fgets_raw (n - 1) (concat (map (\<lambda>l. l @ [newline]) ls))"
    using Cons.prems by (intro fgets_raw_line) auto
  moreover have "c_str (l @ [newline]) = l @ [newline]"
    using Cons.prems by (auto simp: c_str_def newline_def takeWhile_eq_all_conv)
  ultimately show ?case using Cons by (simp add: fgets_lines_def)
qed (simp add: fgets_lines_def fgets_raw.simps)

lemma sample_lines:
  "ls \<in> {sample_map, [hd sample_map], [''Name: sh'', ''TracerPid:'' @ CHR 0x09 # ''99'']} \<Longrightarrow>
   fgets_lines 2048 (concat (map (\<lambda>l. l @ [newline]) ls)) = map (\<lambda>l. l @ [newline]) ls"
  by (rule fgets_lines_whole) (auto simp: sample_map_def newline_def)

lemma sample_marks:
  "map (\<lambda>l. marked_map_line (l @ [newline])) sample_map = [False, True, True]"
  "tracer_pid (''Name: sh'' @ [newline]) = 0" "tracer_pid (''TracerPid:'' @ CHR 0x09 # ''99'' @ [newline]) = 99"
proof -
  show "map (\<lambda>l. marked_map_line (l @ [newline])) sample_map = [False, True, True]" by code_simp
  show "tracer_pid (''Name: sh'' @ [newline]) = 0" by (simp add: tracer_pid_def scan_lit_def)
  have "show_int 99 = ''99''" by (simp add: show_int_def show_nat_def show_base.simps digit_char_def)
  with tracer_pid_line[of 99] show "tracer_pid (''TracerPid:'' @ CHR 0x09 # ''99'' @ [newline]) = 99" by simp
qed

lemma sample_scan: "rw_scan_injection_pid small_limits (sample_proc ls) None 7 (sys_start (sample_proc ls)) \<noteq> None"
proof -
  have "pread_ok (sample_proc ls)" by (simp add: pread_ok_def sample_proc_def idle_os_def)
  then show ?thesis
    using scan_injection_runs[where w = "sample_proc ls" and cfg = None and pid = 7 and t = "sys_start (sample_proc ls)",
        OF small_limits_ok sys_grows_refl] by (simp add: runs_def)
qed

lemma sample_reads:
  "fst (sys_read (sample_proc ls) (proc_path 7 ''maps'') (tick (sys_start (sample_proc ls))))
     = Some (concat (map (\<lambda>l. l @ [newline]) ls))"
  "files u = files (sys_start (sample_proc ls)) \<Longrightarrow>
   fst (sys_read (sample_proc ls) (proc_path 7 ''status'') u)
     = Some (concat (map (\<lambda>l. l @ [newline]) [''Name: sh'', ''TracerPid:'' @ CHR 0x09 # ''99'']))"
proof -
  have "show_int 7 = ''7''" by (simp add: show_int_def show_nat_def show_base.simps digit_char_def)
  then have p: "proc_path 7 ''maps'' = ''/proc/7/maps''" "proc_path 7 ''status'' = ''/proc/7/status''"
    by (simp_all add: proc_path_def cstr_copy_def)
  show "fst (sys_read (sample_proc ls) (proc_path 7 ''maps'') (tick (sys_start (sample_proc ls))))
     = Some (concat (map (\<lambda>l. l @ [newline]) ls))"
    "files u = files (sys_start (sample_proc ls)) \<Longrightarrow>
     fst (sys_read (sample_proc ls) (proc_path 7 ''status'') u)
     = Some (concat (map (\<lambda>l. l @ [newline]) [''Name: sh'', ''TracerPid:'' @ CHR 0x09 # ''99'']))"
    unfolding p by (simp_all add: sys_read_def sample_proc_def tick_def sys_start_def event_start_def
      lineage_start_def logger_start_def scoring.defs eventlog.defs lineage.defs logger.defs)
qed

lemma injection_counts_lines_witness:
  "2 \<le> fst (the (rw_scan_injection_pid small_limits (sample_proc sample_map) None 7 (sys_start (sample_proc sample_map))))
   \<and> fst (the (rw_scan_injection_pid small_limits (sample_proc ([hd sample_map])) None 7
       (sys_start (sample_proc ([hd sample_map]))))) = 1"
proof
  let ?w = "sample_proc sample_map" and ?w1 = "sample_proc ([hd sample_map])"
  obtain n s' where n: "rw_scan_injection_pid small_limits ?w None 7 (sys_start ?w) = Some (n, s')"
    using sample_scan[of sample_map] by auto
  have "length (filter marked_map_line (map (\<lambda>l. l @ [newline]) sample_map)) = 2"
    using sample_marks(1) by (simp add: sample_map_def)
  with injection_counts_lines[OF n] show "2 \<le> fst (the (rw_scan_injection_pid small_limits ?w None 7 (sys_start ?w)))"
    by (auto simp: n sample_reads(1) sample_lines Let_def split: option.splits)
  obtain m t' where m: "rw_scan_injection_pid small_limits ?w1 None 7 (sys_start ?w1) = Some (m, t')"
    using sample_scan[of "[hd sample_map]"] by auto
  have z: "filter marked_map_line (map (\<lambda>l. l @ [newline]) ([hd sample_map])) = []"
    using sample_marks(1) by (simp add: sample_map_def)
  let ?exe = "fst (rw_read_exe_path ?w1 7 (max_path small_limits) (sys_start ?w1))"
  have L: "fgets_lines 2048 (concat (map (\<lambda>l. l @ [newline]) [hd sample_map])) = map (\<lambda>l. l @ [newline]) [hd sample_map]"
    by (rule sample_lines) simp
  from injection_counts_lines[OF m, unfolded sample_reads(1) option.case(2) L z Let_def] obtain u where
    u: "scan_file_lines ?w1 (proc_path 7 ''maps'') (map_finding small_limits ?w1 None 7 ?exe) (0, tick (sys_start ?w1)) = Some (True, 0, u)"
      "m = (case fst (sys_read ?w1 (proc_path 7 ''status'') u) of None \<Rightarrow> 0
         | Some st \<Rightarrow> int (length (filter (\<lambda>l. tracer_pid l \<noteq> 0) (fgets_lines 2048 st))))"
    by auto
  have "files u = files (sys_start ?w1)"
    using u(1) sample_reads(1)[of "[hd sample_map]"] sample_lines[of "[hd sample_map]"] sample_marks(1)
    by (auto simp: scan_file_lines_def split_beta sample_map_def map_finding_def marked_map_line_def
        marked_mapping_reason sys_read_def tick_def)
  have S: "fgets_lines 2048 (concat (map (\<lambda>l. l @ [newline]) [''Name: sh'', ''TracerPid:'' @ CHR 0x09 # ''99'']))
      = map (\<lambda>l. l @ [newline]) [''Name: sh'', ''TracerPid:'' @ CHR 0x09 # ''99'']"
    by (rule sample_lines) simp
  from u(2)[unfolded sample_reads(2)[OF \<open>files u = _\<close>] option.case(2) S] show "fst (the (rw_scan_injection_pid small_limits ?w1 None 7 (sys_start ?w1))) = 1"
    by (simp add: m sample_marks(2,3)[simplified])
qed

text \<open>
  The reason "executable memfd mapping" is never given for a mapping the kernel shows as deleted, and
  the kernel shows every mapping of a memfd as \<open>/memfd:<name> (deleted)\<close>: such a mapping is reported as a
  deleted one, and the floor of 78 points that the score reserves for an executable memfd does not
  apply to it.
\<close>

theorem memfd_reported_as_deleted:
  "injection_reason ''r-xp'' (''/memfd:'' @ name @ '' (deleted)'') = Some ''deleted executable mapping''
   \<and> \<not> (\<exists>perms path. strstr path ''(deleted)'' \<and> injection_reason perms path = Some ''executable memfd mapping'')
   \<and> default_floor_for_finding (Some ''INJECTION'') (Some ''deleted executable mapping'') 80 = 0
   \<and> default_floor_for_finding (Some ''INJECTION'') (Some ''executable memfd mapping'') 80 = 78"
proof -
  have d: "strstr (a @ ''(deleted)'') ''(deleted)''" for a by (simp add: strstr_def)
  have "strstr (''/memfd:'' @ name @ '' (deleted)'') ''(deleted)''"
    using d[of "''/memfd:'' @ name @ '' ''"] by simp
  moreover have "injection_reason perms path \<noteq> Some ''executable memfd mapping''" if "strstr path ''(deleted)''" for perms path
    using that by (auto simp: injection_reason_def Let_def)
  moreover have "default_floor_for_finding (Some ''INJECTION'') (Some ''deleted executable mapping'') 80 = 0"
    "default_floor_for_finding (Some ''INJECTION'') (Some ''executable memfd mapping'') 80 = 78"
    by (simp_all add: default_floor_for_finding_def contains_ci_def)
  ultimately show ?thesis by (auto simp: injection_reason_def)
qed

end
