(* ===== verification/Hostmon.thy ===== *)
theory Hostmon
  imports Inject
begin

section \<open>File events, process events, inspection\<close>

text \<open>
  The handlers of \<open>platform/fanmon.c\<close> and \<open>platform/proc_events.c\<close> and the commands of
  \<open>case/inspect.c\<close>. What the kernel delivers through a file descriptor is an argument: the
  events of each \<open>read\<close> or \<open>recv\<close>, decoded, in the order of the calls; the list ends where the call
  reports that nothing is left, or fails. Console lines are left out, except in the inspection, whose
  only effect beside a dump they are.
\<close>

subsection \<open>Fanotify\<close>

record fan_event =
  fe_vers :: int
  fe_fd :: int
  fe_mask :: "64 word"
  fe_pid :: pid

definition FANOTIFY_METADATA_VERSION :: int where
  "FANOTIFY_METADATA_VERSION = 3"

definition FAN_OPEN_EXEC :: "64 word" where
  "FAN_OPEN_EXEC = 0x1000"

definition fd_to_path :: "os \<Rightarrow> int \<Rightarrow> nat \<Rightarrow> 'a world_scheme \<Rightarrow> string \<times> 'a world_scheme" where
  "fd_to_path w fd out_len s =
     (let (r, s1) = rw_read_link_path w (cstr_copy 128 (''/proc/self/fd/'' @ show_int fd)) out_len s
      in (case r of Some p \<Rightarrow> p | None \<Rightarrow> cstr_copy out_len ''<unknown>'', s1))"

text \<open>The body of the loop over one buffer, behind the tests of version and descriptor.\<close>

definition fan_handle :: "limits \<Rightarrow> os \<Rightarrow> rw_config \<Rightarrow> fan_event \<Rightarrow> 'a sys_scheme \<Rightarrow> 'a sys_scheme option" where
  "fan_handle L w cfg md s =
     (let (path, s1) = fd_to_path w (fe_fd md) (max_path L) s;
          pid = fe_pid md;
          mask = ''0x'' @ show_hex (unat (fe_mask md));
          line = ''file pid='' @ show_int pid @ '' mask='' @ mask @ '' path='' @ path
      in if and (fe_mask md) FAN_OPEN_EXEC \<noteq> 0 \<or> rw_suspicious_path (Some path)
         then if rw_suspicious_path (Some path)
              then do {
                s2 \<leftarrow> score_add L w (Some cfg) pid None None ''FILE'' ''suspicious file path touched'' 65
                  (rw_log_alert L w (''suspicious file path touched pid='' @ show_int pid @ '' path='' @ path
                     @ '' mask='' @ mask) (rw_log_event L w line s1));
                s3 \<leftarrow> case_detail L w (Some cfg) pid 65 ''FILE_DETAIL'' (''path='' @ path @ '' mask='' @ mask) s2;
                map_option snd (rw_scan_injection_pid L w (Some cfg) pid s3)
              }
              else Some (rw_log_event L w line s1)
         else Some (if verbose cfg then rw_log_event L w line s1 else s1))"

text \<open>One buffer; the flag says whether the function goes on to read the next one.\<close>

fun fan_events :: "limits \<Rightarrow> os \<Rightarrow> rw_config \<Rightarrow> fan_event list \<Rightarrow> 'a sys_scheme \<Rightarrow> (bool \<times> 'a sys_scheme) option" where
  "fan_events L w cfg [] s = Some (True, s)"
| "fan_events L w cfg (md # mds) s =
     (if fe_vers md \<noteq> FANOTIFY_METADATA_VERSION then Some (False, s)
      else if fe_fd md < 0 then fan_events L w cfg mds s
      else do { s1 \<leftarrow> fan_handle L w cfg md s; fan_events L w cfg mds s1 })"

fun rw_fanotify_poll :: "limits \<Rightarrow> os \<Rightarrow> rw_config \<Rightarrow> fan_event list list \<Rightarrow> 'a sys_scheme \<Rightarrow> 'a sys_scheme option" where
  "rw_fanotify_poll L w cfg [] s = Some s"
| "rw_fanotify_poll L w cfg (b # bs) s =
     (if b = [] then Some s
      else do {
        (more, s1) \<leftarrow> fan_events L w cfg b s;
        if more then rw_fanotify_poll L w cfg bs s1 else Some s1
      })"

subsection \<open>The process event connector\<close>

datatype proc_event =
    PE_Exec pid pid
  | PE_Fork pid pid
  | PE_Exit pid "32 word"
  | PE_Uid pid "32 word" "32 word"
  | PE_Gid pid "32 word" "32 word"
  | PE_Other

definition show_u32 :: "32 word \<Rightarrow> string" where
  "show_u32 v = show_nat (unat v)"

definition proc_handle :: "limits \<Rightarrow> os \<Rightarrow> rw_config \<Rightarrow> proc_event \<Rightarrow> 'a sys_scheme \<Rightarrow> 'a sys_scheme option" where
  "proc_handle L w cfg ev s = (case ev of
     PE_Exec pid tgid \<Rightarrow>
       (let t = ''exec pid='' @ show_int pid @ '' tgid='' @ show_int tgid;
            s1 = rw_event_addf w pid (Some ''proc'') t (rw_lineage_record_exec L w pid s)
        in map_option snd (rw_scan_injection_pid L w (Some cfg) pid (rw_log_event L w (''proc '' @ t) s1)))
   | PE_Fork parent child \<Rightarrow>
       (let t = ''fork parent='' @ show_int parent @ '' child='' @ show_int child;
            s1 = rw_event_addf w child (Some ''proc'') t (rw_lineage_record_fork L w parent child s)
        in Some (if verbose cfg then rw_log_event L w (''proc '' @ t) s1 else s1))
   | PE_Exit pid code \<Rightarrow>
       (let t = ''exit pid='' @ show_int pid @ '' code='' @ show_u32 code;
            s1 = rw_event_addf w pid (Some ''proc'') t (rw_lineage_record_exit L w pid (sint code) s)
        in Some (if verbose cfg then rw_log_event L w (''proc '' @ t) s1 else s1))
   | PE_Uid pid ruid euid \<Rightarrow>
       Some (rw_log_event L w (''proc uid-change pid='' @ show_int pid @ '' uid='' @ show_u32 ruid
         @ '' euid='' @ show_u32 euid) s)
   | PE_Gid pid rgid egid \<Rightarrow>
       Some (rw_log_event L w (''proc gid-change pid='' @ show_int pid @ '' gid='' @ show_u32 rgid
         @ '' egid='' @ show_u32 egid) s)
   | PE_Other \<Rightarrow> Some s)"

fun proc_events :: "limits \<Rightarrow> os \<Rightarrow> rw_config \<Rightarrow> proc_event list \<Rightarrow> 'a sys_scheme \<Rightarrow> 'a sys_scheme option" where
  "proc_events L w cfg [] s = Some s"
| "proc_events L w cfg (ev # rest) s = do { s1 \<leftarrow> proc_handle L w cfg ev s; proc_events L w cfg rest s1 }"

text \<open>\<open>rw_proc_events_poll\<close>: every datagram, until none is left.\<close>

definition rw_proc_events_poll ::
  "limits \<Rightarrow> os \<Rightarrow> rw_config \<Rightarrow> proc_event list list \<Rightarrow> 'a sys_scheme \<Rightarrow> 'a sys_scheme option" where
  "rw_proc_events_poll L w cfg batches s = proc_events L w cfg (concat batches) s"

subsection \<open>Inspection (\<open>case/inspect.c\<close>)\<close>

definition print_proc_file_text :: "os \<Rightarrow> pid \<Rightarrow> string \<Rightarrow> bool \<Rightarrow> 'a world_scheme \<Rightarrow> string \<times> 'a world_scheme" where
  "print_proc_file_text w pid name nul_to_space s =
     (let (c, s1) = sys_read w (proc_path pid name) s
      in (case c of
            None \<Rightarrow> name @ '': <unavailable>'' @ [newline]
          | Some t \<Rightarrow> name @ '': '' @ (if nul_to_space then map (\<lambda>c. if c = CHR 0x00 then CHR '' '' else c) t else t)
                      @ [newline], s1))"

definition rw_dump_process_exe :: "limits \<Rightarrow> os \<Rightarrow> pid \<Rightarrow> 'a logger_scheme \<Rightarrow> string \<times> 'a logger_scheme" where
  "rw_dump_process_exe L w pid s =
     (let dump_name = cstr_copy 128 (''pid_'' @ show_int pid @ ''_exe.dump'');
          (rc, s1) = rw_copy_file w (proc_path pid ''exe'') dump_name s
      in if rc = 0
         then (let s2 = rw_log_event L w (''dumped executable pid='' @ show_int pid @ '' path='' @ dump_name) s1;
                   (hash, s3) = rw_sha256_file w dump_name s2;
                   out = [newline] @ ''Dumped executable: '' @ dump_name @ [newline]
               in case hash of
                    None \<Rightarrow> (out, s3)
                  | Some h \<Rightarrow> (out @ ''SHA256: '' @ h @ [newline],
                      rw_log_event L w (''dumped executable hash pid='' @ show_int pid @ '' sha256='' @ h) s3))
         else ([newline] @ ''Dumped executable: failed: '' @ env_strerror w (clk s1) @ [newline],
               rw_log_event L w (''dump executable failed pid='' @ show_int pid @ '' error=''
                 @ env_strerror w (clk s1)) s1))"

fun inspect_fd_lines :: "limits \<Rightarrow> os \<Rightarrow> string \<Rightarrow> string list \<Rightarrow> 'a world_scheme \<Rightarrow> string \<times> 'a world_scheme" where
  "inspect_fd_lines L w fd_dir [] s = ([], s)"
| "inspect_fd_lines L w fd_dir (d # ds) s =
     (if take 1 d = ''.'' then inspect_fd_lines L w fd_dir ds s
      else let (r, s1) = rw_read_link_path w (cstr_copy (max_path L) (fd_dir @ ''/'' @ d)) (max_path L) s;
               (out, s2) = inspect_fd_lines L w fd_dir ds s1
           in (case r of None \<Rightarrow> out
               | Some target \<Rightarrow> ''  '' @ pad_right 4 d @ '' -> '' @ target @ [newline] @ out, s2))"

definition inspect_fds :: "limits \<Rightarrow> os \<Rightarrow> pid \<Rightarrow> 'a world_scheme \<Rightarrow> string \<times> 'a world_scheme" where
  "inspect_fds L w pid s =
     (let (dir, s1) = sys_opendir w (proc_path pid ''fd'') s
      in case dir of
           None \<Rightarrow> ([newline] @ ''FDs: <unavailable>'' @ [newline], s1)
         | Some names \<Rightarrow>
             (let (out, s2) = inspect_fd_lines L w (proc_path pid ''fd'') names s1
              in ([newline] @ ''FDs:'' @ [newline] @ out, s2)))"

fun map_lines :: "string list \<Rightarrow> nat \<Rightarrow> string" where
  "map_lines [] n = []"
| "map_lines (l # ls) n =
     ''  '' @ l @ (if Suc n \<ge> 80 then ''  ... truncated ...'' @ [newline] else map_lines ls (Suc n))"

definition inspect_maps :: "os \<Rightarrow> pid \<Rightarrow> 'a world_scheme \<Rightarrow> string \<times> 'a world_scheme" where
  "inspect_maps w pid s =
     (let (c, s1) = sys_read w (proc_path pid ''maps'') s
      in (case c of
            None \<Rightarrow> [newline] @ ''Maps: <unavailable>'' @ [newline]
          | Some t \<Rightarrow> [newline] @ ''Memory maps:'' @ [newline] @ map_lines (fgets_lines 1024 t) 0, s1))"

definition link_line :: "limits \<Rightarrow> os \<Rightarrow> pid \<Rightarrow> string \<Rightarrow> 'a world_scheme \<Rightarrow> string \<times> 'a world_scheme" where
  "link_line L w pid name s =
     (let (r, s1) = rw_read_link_path w (proc_path pid name) (max_path L) s
      in (name @ '': '' @ (case r of Some p \<Rightarrow> p | None \<Rightarrow> ''<unavailable>'') @ [newline], s1))"

definition rw_inspect_process :: "limits \<Rightarrow> os \<Rightarrow> pid \<Rightarrow> 'a sys_scheme \<Rightarrow> (string \<times> 'a sys_scheme) option" where
  "rw_inspect_process L w pid s =
     (let (t1, s1) = link_line L w pid ''exe'' s;
          (t2, s2) = link_line L w pid ''cwd'' s1;
          (t3, s3) = link_line L w pid ''root'' s2;
          (t4, s4) = print_proc_file_text w pid ''cmdline'' True s3;
          (t5, s5) = print_proc_file_text w pid ''status'' False s4;
          (t6, s6) = rw_dump_process_exe L w pid s5;
          (t7, s7) = inspect_fds L w pid s6;
          (t8, s8) = inspect_maps w pid s7
      in map_option (\<lambda>(_, s9).
           ([newline] @ ''SignalHunter process inspection'' @ [newline] @ ''============================='' @ [newline]
            @ ''PID: '' @ show_int pid @ [newline] @ t1 @ t2 @ t3 @ t4 @ t5 @ t6 @ t7 @ t8
            @ [newline] @ ''Injection scan:'' @ [newline], s9))
           (rw_scan_injection_pid L w None pid s8))"

subsection \<open>The handlers return and keep the tables\<close>

lemma fd_to_path_grows [runs_intros]:
  assumes "sys_grows L s t"
  shows "sys_grows L s (snd (fd_to_path w fd n t))"
proof (rule sys_grows_trans[OF assms sys_grows_world])
  show "world_only t (snd (fd_to_path w fd n t))"
    using world_only_calls(7)[of t w "cstr_copy 128 (''/proc/self/fd/'' @ show_int fd)" n]
    by (simp add: fd_to_path_def Let_def split_beta)
qed

lemma fan_handle_runs [runs_intros]:
  assumes "limits_ok L" "sys_grows L s t"
  shows "runs L w s (fan_handle L w cfg md t)"
  unfolding fan_handle_def Let_def split_beta by (intro runs_intros assms)

lemma runs_flag:
  assumes "runs L w s x" "\<And>t. sys_grows L s t \<Longrightarrow> runs L w t (map_option snd (f t))"
  shows "runs L w s (map_option snd (Option.bind x f))"
  by (rule runs_counts(2)[OF assms])

lemma fan_events_runs:
  "limits_ok L \<Longrightarrow> sys_grows L s t \<Longrightarrow> runs L w s (map_option snd (fan_events L w cfg mds t))"
proof (induction mds arbitrary: s t)
  case (Cons md mds)
  show ?case unfolding fan_events.simps
    by (intro runs_intros Cons.prems Cons.IH)
qed (simp add: runs_Some)

lemma fanotify_runs [runs_intros]:
  "limits_ok L \<Longrightarrow> sys_grows L s t \<Longrightarrow> runs L w s (rw_fanotify_poll L w cfg bs t)"
proof (induction bs arbitrary: s t)
  case (Cons b bs)
  have "runs L w s (do { (more, s1) \<leftarrow> fan_events L w cfg b t;
      if more then rw_fanotify_poll L w cfg bs s1 else Some s1 })"
    using fan_events_runs[OF Cons.prems, of w cfg b] Cons.IH[OF Cons.prems(1)]
    unfolding runs_def by (cases "fan_events L w cfg b t") (auto split: if_splits intro: sys_grows_trans)
  then show ?case using Cons.prems(2) by (simp add: runs_Some)
qed (simp add: runs_Some)

lemma proc_handle_runs [runs_intros]:
  assumes "limits_ok L" "sys_grows L s t"
  shows "runs L w s (proc_handle L w cfg ev t)"
  by (cases ev; simp only: proc_handle_def proc_event.case Let_def; intro runs_intros assms)

lemma proc_events_runs:
  "limits_ok L \<Longrightarrow> sys_grows L s t \<Longrightarrow> runs L w s (proc_events L w cfg pes t)"
proof (induction pes arbitrary: s t)
  case (Cons ev rest)
  show ?case unfolding proc_events.simps
    by (intro runs_intros Cons.prems Cons.IH)
qed (simp add: runs_Some)

lemma proc_poll_runs [runs_intros]:
  "limits_ok L \<Longrightarrow> sys_grows L s t \<Longrightarrow> runs L w s (rw_proc_events_poll L w cfg bs t)"
  unfolding rw_proc_events_poll_def by (rule proc_events_runs)

lemma inspect_parts:
  "world_only s (snd (link_line L w pid name s))"
  "world_only s (snd (print_proc_file_text w pid name b s))"
  "world_only s (snd (inspect_maps w pid s))"
  by (simp_all add: link_line_def print_proc_file_text_def inspect_maps_def Let_def split_beta world_only_def
      world_more_calls)

lemma inspect_fds_only: "world_only s (snd (inspect_fds L w pid s))"
proof -
  have "world_only t (snd (inspect_fd_lines L w dir ds t))" for dir ds and t :: "'a world_scheme"
    unfolding world_only_def by (induction ds arbitrary: t) (simp_all add: Let_def split_beta world_more_calls)
  then show ?thesis
    by (auto simp: inspect_fds_def Let_def split_beta world_only_def world_more_calls split: option.split)
qed

lemma dump_process_only: "logger_only s (snd (rw_dump_process_exe L w pid s))"
proof -
  have log: "logger_only t u \<Longrightarrow> logger_only t (rw_log_event L w m u)" for t u :: "'a logger_scheme" and m
    by (erule logger_only_trans) (rule rw_log_only)
  have files: "logger_only t u \<Longrightarrow> logger_only t (snd (rw_sha256_file w p u))" for t u :: "'a logger_scheme" and p
    by (erule logger_only_trans) (rule world_only_logger[OF world_only_files(1)])
  have copy: "logger_only s (snd (rw_copy_file w p q s))" for p q
    by (rule world_only_logger[OF world_only_files(2)])
  show ?thesis
    by (auto simp: rw_dump_process_exe_def Let_def split_beta intro!: log files copy split: option.split)
qed

lemma inspect_runs [runs_intros]:
  assumes "limits_ok L" "sys_grows L s t"
  shows "runs L w s (map_option snd (rw_inspect_process L w pid t))"
proof -
  note W = inspect_parts[THEN sys_grows_world, THEN sys_grows_trans[rotated]]
    inspect_fds_only[THEN sys_grows_world, THEN sys_grows_trans[rotated]]
    dump_process_only[THEN sys_grows_logger, THEN sys_grows_trans[rotated]]
  show ?thesis
    unfolding rw_inspect_process_def Let_def split_beta option.map_comp o_def snd_conv
    by (rule scan_injection_runs) (intro W assms)+
qed

subsection \<open>Errors and limits\<close>

lemma fan_events_append:
  "fan_events L w cfg (xs @ ys) s = do {
     (more, s1) \<leftarrow> fan_events L w cfg xs s;
     if more then fan_events L w cfg ys s1 else Some (False, s1) }"
proof (induction xs arbitrary: s)
  case (Cons x xs)
  then show ?case by (cases "fan_handle L w cfg x s") auto
qed simp

text \<open>
  An event of another metadata version ends the poll: what stands before it is handled as if it were
  all there is, it and everything behind it, in this buffer and in the ones still to be read, is not.
\<close>

theorem fanotify_version_stops:
  assumes "fe_vers bad \<noteq> 3" "pre \<noteq> []"
  shows "rw_fanotify_poll L w cfg ((pre @ bad # post) # bs) s = rw_fanotify_poll L w cfg [pre] s"
  using assms by (cases "fan_events L w cfg pre s")
    (auto simp: fan_events_append FANOTIFY_METADATA_VERSION_def)

lemma fanotify_version_stops_witness:
  "rw_fanotify_poll small_limits idle_os default_config
     [[\<lparr>fe_vers = 3, fe_fd = -1, fe_mask = 0, fe_pid = 7\<rparr>, \<lparr>fe_vers = 2, fe_fd = 5, fe_mask = 0, fe_pid = 7\<rparr>,
       \<lparr>fe_vers = 3, fe_fd = 6, fe_mask = 0x1000, fe_pid = 8\<rparr>]] (sys_start idle_os) = Some (sys_start idle_os)"
  using fanotify_version_stops[of "\<lparr>fe_vers = 2, fe_fd = 5, fe_mask = 0, fe_pid = 7\<rparr>"
      "[\<lparr>fe_vers = 3, fe_fd = -1, fe_mask = 0, fe_pid = 7\<rparr>]" small_limits idle_os default_config
      "[\<lparr>fe_vers = 3, fe_fd = 6, fe_mask = 0x1000, fe_pid = 8\<rparr>]" "[]" "sys_start idle_os"]
  by (simp add: FANOTIFY_METADATA_VERSION_def)

lemma map_lines_eq:
  "n < 80 \<Longrightarrow> map_lines ls n = concat (map (\<lambda>l. ''  '' @ l) (take (80 - n) ls))
     @ (if 80 - n \<le> length ls then ''  ... truncated ...'' @ [newline] else [])"
proof (induction ls arbitrary: n)
  case (Cons l ls)
  have "80 - n = Suc (80 - Suc n)" using Cons.prems by simp
  with Cons show ?case by (cases "Suc n \<ge> 80") simp_all
qed simp

text \<open>
  The inspection shows the first 80 lines of the memory map and says that it truncated the map
  whenever there are 80 lines or more, so also when nothing is left out.
\<close>

theorem inspect_maps_text:
  "map_lines ls 0 = concat (map (\<lambda>l. ''  '' @ l) (take 80 ls))
     @ (if 80 \<le> length ls then ''  ... truncated ...'' @ [newline] else [])"
  by (simp add: map_lines_eq)

end
