(* ===== verification/Netmon.thy ===== *)
theory Netmon
  imports Complex_Main Hostmon
begin

section \<open>Network monitor (\<open>net/netmon.c\<close>)\<close>

text \<open>
  Who owns which socket, which TCP connections are open, which raw and packet sockets exist, and the
  two trackers: SYN scans and beacons. Doubles are rationals with a rounding function: every operation
  of the source is the exact operation, rounded by \<open>fp_rnd\<close>, as IEEE 754 defines it; \<open>fp_fmt\<close> prints
  with \<open>%.2f\<close>. The configuration is an argument that is not NULL: the source tests it for NULL
  everywhere but before \<open>cfg->stop_suspicious\<close> in \<open>rw_update_track\<close>.
\<close>

definition TCP_ESTABLISHED :: nat where "TCP_ESTABLISHED = 1"

definition TCP_SYN_SENT :: nat where "TCP_SYN_SENT = 2"

definition RW_RAW_ALERT_CACHE :: nat where "RW_RAW_ALERT_CACHE = 1024"

definition RW_SYN_TRACKS :: nat where "RW_SYN_TRACKS = 1024"

record fp =
  fp_rnd :: "rat \<Rightarrow> rat"
  fp_fmt :: "rat \<Rightarrow> string"

record inode_owner =
  io_pid :: pid
  io_inode :: nat
  io_exe :: string

record conn_event =
  ce_pid :: pid
  ce_inode :: nat
  ce_dst_port :: nat
  ce_state :: nat
  ce_ipv6 :: bool
  ce_seen_at :: time
  ce_dst_ip :: string
  ce_exe :: string

record conn_track =
  ct_pid :: pid
  ct_dst_port :: nat
  ct_last_seen :: time
  ct_exe :: string
  ct_dst_ip :: string
  ct_total_seen :: nat
  ct_intervals :: "rat list"
  ct_alerted :: bool

record syn_track =
  sy_pid :: pid
  sy_exe :: string
  sy_window :: time
  sy_count :: nat
  sy_keys :: "string list"
  sy_alerted :: bool

record net = sys +
  tracks :: "conn_track list"
  raw_alerts :: "(pid \<times> nat) list"
  syn_tracks :: "syn_track list"

subsection \<open>Numbers of procfs\<close>

text \<open>\<open>%lu\<close>, and \<open>strtoul\<close> of a token that must be a number to its end.\<close>

definition scan_ulong :: "string \<Rightarrow> (nat \<times> string) option" where
  "scan_ulong s = map_option (\<lambda>(i, r).
     (if i < 0 then (if - i < 2 ^ 64 then nat (2 ^ 64 + i) else 2 ^ 64 - 1) else clamp_ulong (nat i), r)) (scan_int s)"

definition token_number :: "string \<Rightarrow> nat option" where
  "token_number tok = (case scan_ulong tok of Some (v, []) \<Rightarrow> Some v | _ \<Rightarrow> None)"

text \<open>The tokens of \<open>strtok_r(..., " \<newline>\<tab>", ...)\<close>.\<close>

definition tok_sep :: "char \<Rightarrow> bool" where
  "tok_sep c \<longleftrightarrow> c = CHR '' '' \<or> c = CHR 0x09 \<or> c = newline"

function tokens :: "string \<Rightarrow> string list" where
  "tokens s = (let r = dropWhile tok_sep s
     in if r = [] then [] else takeWhile (\<lambda>c. \<not> tok_sep c) r # tokens (dropWhile (\<lambda>c. \<not> tok_sep c) r))"
  by pat_completeness auto
termination
proof (relation "measure length", goal_cases)
  case (2 s r)
  from 2(2) have "\<not> tok_sep (hd r)" using hd_dropWhile[of tok_sep s] 2(1) by simp
  with 2(2) obtain c cs where r: "r = c # cs" "\<not> tok_sep c" by (cases r) auto
  have "length (dropWhile (\<lambda>c. \<not> tok_sep c) r) < length r"
    using r by (simp add: le_imp_less_Suc length_dropWhile_le)
  also have "length r \<le> length s" using 2(1) by (simp add: length_dropWhile_le)
  finally show ?case by simp
qed simp

declare tokens.simps [simp del]

subsection \<open>Owners of sockets\<close>

definition socket_inode :: "string \<Rightarrow> nat option" where
  "socket_inode link_target = Option.bind (scan_lit ''socket:['' link_target) (\<lambda>r. map_option fst (scan_ulong r))"

fun owner_fds ::
  "limits \<Rightarrow> os \<Rightarrow> nat \<Rightarrow> pid \<Rightarrow> string \<Rightarrow> string \<Rightarrow> string list \<Rightarrow> inode_owner list \<Rightarrow> 'a world_scheme
     \<Rightarrow> inode_owner list \<times> 'a world_scheme" where
  "owner_fds L w max_owners pid exe fd_dir [] os s = (os, s)"
| "owner_fds L w max_owners pid exe fd_dir (d # ds) os s =
     (if length os \<ge> max_owners then (os, s)
      else if take 1 d = ''.'' then owner_fds L w max_owners pid exe fd_dir ds os s
      else case path_in (max_path L) fd_dir d of
             None \<Rightarrow> owner_fds L w max_owners pid exe fd_dir ds os s
           | Some fd_path \<Rightarrow>
               (let (r, s1) = rw_read_link_path w fd_path 256 s
                in case Option.bind r socket_inode of
                     None \<Rightarrow> owner_fds L w max_owners pid exe fd_dir ds os s1
                   | Some inode \<Rightarrow> owner_fds L w max_owners pid exe fd_dir ds
                       (os @ [\<lparr>io_pid = pid, io_inode = inode, io_exe = cstr_copy (owner_exe_len L) exe\<rparr>]) s1))"

fun owner_procs ::
  "limits \<Rightarrow> os \<Rightarrow> nat \<Rightarrow> string list \<Rightarrow> inode_owner list \<Rightarrow> 'a world_scheme \<Rightarrow> inode_owner list \<times> 'a world_scheme" where
  "owner_procs L w max_owners [] os s = (os, s)"
| "owner_procs L w max_owners (d # ds) os s =
     (if length os \<ge> max_owners then (os, s)
      else if \<not> rw_is_numeric (Some d) then owner_procs L w max_owners ds os s
      else (let pid = atoi d;
                (fds, s1) = sys_opendir w (proc_path pid ''fd'') s
            in case fds of
                 None \<Rightarrow> owner_procs L w max_owners ds os s1
               | Some names \<Rightarrow>
                   (let (exe, s2) = rw_read_exe_path w pid (max_path L) s1;
                        (os1, s3) = owner_fds L w max_owners pid exe (proc_path pid ''fd'') names os s2
                    in owner_procs L w max_owners ds os1 s3)))"

definition rw_collect_inode_owners ::
  "limits \<Rightarrow> os \<Rightarrow> nat \<Rightarrow> 'a world_scheme \<Rightarrow> inode_owner list \<times> 'a world_scheme" where
  "rw_collect_inode_owners L w max_owners s =
     (let (proc, s1) = sys_opendir w ''/proc'' s
      in case proc of None \<Rightarrow> ([], s1) | Some names \<Rightarrow> owner_procs L w max_owners names [] s1)"

definition find_owner_by_inode :: "inode_owner list \<Rightarrow> nat \<Rightarrow> inode_owner option" where
  "find_owner_by_inode owners inode = find (\<lambda>o'. io_inode o' = inode) owners"

subsection \<open>Addresses\<close>

definition hex_byte :: "string \<Rightarrow> byte option" where
  "hex_byte s = (let ds = takeWhile isxdigit (take 2 (skip_space s))
     in if ds = [] then None else Some (word_of_nat (hex_val ds)))"

definition dotted :: "byte list \<Rightarrow> string" where
  "dotted b = show_nat (unat (b ! 0)) @ ''.'' @ show_nat (unat (b ! 1)) @ ''.'' @ show_nat (unat (b ! 2))
     @ ''.'' @ show_nat (unat (b ! 3))"

text \<open>\<open>inet_ntop\<close>: the text, when it fits the buffer with its NUL.\<close>

definition fits :: "nat \<Rightarrow> string \<Rightarrow> string option" where
  "fits n s = (if length s < n then Some s else None)"

definition ntop4 :: "nat \<Rightarrow> byte list \<Rightarrow> string option" where
  "ntop4 out_len b = fits out_len (dotted b)"

text \<open>
  \<open>inet_ntop(AF_INET6, ...)\<close> prints eight groups and leaves out the longest run of zero groups, the
  first of the longest, when it has two or more; an IPv4 address embedded behind such a run that starts
  the address is printed with dots.
\<close>

definition group :: "byte list \<Rightarrow> nat \<Rightarrow> nat" where
  "group b i = unat (b ! (2 * i)) * 256 + unat (b ! (2 * i + 1))"

definition zero_run :: "byte list \<Rightarrow> nat \<Rightarrow> nat" where
  "zero_run b i = length (takeWhile (\<lambda>j. group b j = 0) [i..<8])"

definition best_run :: "byte list \<Rightarrow> (nat \<times> nat) option" where
  "best_run b =
     (let r = fold (\<lambda>i (bi, bl). if zero_run b i > bl then (i, zero_run b i) else (bi, bl)) [0..<8] (0, 0)
      in if snd r < 2 then None else Some r)"

definition ntop6_text :: "byte list \<Rightarrow> string" where
  "ntop6_text b = (case best_run b of
     None \<Rightarrow> tl (concat (map (\<lambda>i. '':'' @ show_hex (group b i)) [0..<8]))
   | Some (base, len) \<Rightarrow>
       (let before = tl (concat (map (\<lambda>i. '':'' @ show_hex (group b i)) [0..<base]));
            rest = concat (map (\<lambda>i. '':'' @ show_hex (group b i)) [base + len..<8])
        in if base = 0 \<and> (len = 6 \<or> (len = 5 \<and> group b 5 = 0xffff))
           then (if len = 6 then '':'' else ''::ffff'') @ '':'' @ dotted (drop 12 b)
           else before @ '':'' @ (if base + len = 8 then '':'' else rest)))"

definition ntop6 :: "nat \<Rightarrow> byte list \<Rightarrow> string option" where
  "ntop6 out_len b = fits out_len (ntop6_text b)"

text \<open>The bytes of one 32-bit group of the hexadecimal text, which holds it in host order.\<close>

definition group_bytes :: "string \<Rightarrow> byte list option" where
  "group_bytes p = do {
     b0 \<leftarrow> hex_byte (drop 6 p); b1 \<leftarrow> hex_byte (drop 4 p);
     b2 \<leftarrow> hex_byte (drop 2 p); b3 \<leftarrow> hex_byte p; Some [b0, b1, b2, b3] }"

definition proc_tcp4_hex_to_str :: "string \<Rightarrow> nat \<Rightarrow> string option" where
  "proc_tcp4_hex_to_str hex out_len =
     (if length hex < 8 then None else Option.bind (group_bytes hex) (ntop4 out_len))"

definition proc_tcp6_hex_to_str :: "string \<Rightarrow> nat \<Rightarrow> string option" where
  "proc_tcp6_hex_to_str hex out_len =
     (if length hex < 32 then None
      else do {
        g0 \<leftarrow> group_bytes hex; g1 \<leftarrow> group_bytes (drop 8 hex);
        g2 \<leftarrow> group_bytes (drop 16 hex); g3 \<leftarrow> group_bytes (drop 24 hex);
        ntop6 out_len (g0 @ g1 @ g2 @ g3) })"

subsection \<open>Connections\<close>

definition is_browser_exe :: "string \<Rightarrow> bool" where
  "is_browser_exe exe \<longleftrightarrow> strstr exe ''/firefox'' \<or> strstr exe ''/chrome'' \<or> strstr exe ''/chromium''
     \<or> strstr exe ''/brave'' \<or> strstr exe ''/msedge'' \<or> strstr exe ''/opera''
     \<or> strstr exe ''/lib/firefox/'' \<or> strstr exe ''/snap/firefox/''"

definition is_stable_browser_port :: "nat \<Rightarrow> bool" where
  "is_stable_browser_port port \<longleftrightarrow> port = 80 \<or> port = 443 \<or> port = 8443 \<or> port = 8080"

record tcp_line =
  tl_remote_addr :: string
  tl_remote_port :: nat
  tl_state :: nat
  tl_inode :: nat

text \<open>\<open>%79[0-9A-Fa-f]:%X\<close> behind a blank of the format.\<close>

definition scan_hex_class :: "string \<Rightarrow> (string \<times> string) option" where
  "scan_hex_class s = (let t = take 79 (takeWhile isxdigit s) in if t = [] then None else Some (t, drop (length t) s))"

definition scan_u32 :: "string \<Rightarrow> (nat \<times> string) option" where
  "scan_u32 s = map_option (\<lambda>(v, r). (clamp_ulong v mod 2 ^ 32, r)) (scan_hex s)"

definition scan_addr :: "string \<Rightarrow> ((string \<times> nat) \<times> string) option" where
  "scan_addr s = do {
     (a, r1) \<leftarrow> scan_hex_class (skip_space s);
     r2 \<leftarrow> scan_lit '':'' r1;
     (p, r3) \<leftarrow> scan_u32 r2;
     Some ((a, p), r3) }"

fun skip_words :: "nat \<Rightarrow> string \<Rightarrow> string option" where
  "skip_words 0 s = Some s"
| "skip_words (Suc n) s = Option.bind (skip_word s) (skip_words n)"

definition parse_tcp_line :: "string \<Rightarrow> tcp_line option" where
  "parse_tcp_line line = do {
     (_, r1) \<leftarrow> scan_int line;
     r2 \<leftarrow> scan_lit '':'' r1;
     (_, r3) \<leftarrow> scan_addr r2;
     ((remote, port), r4) \<leftarrow> scan_addr r3;
     (st, r5) \<leftarrow> scan_u32 r4;
     r6 \<leftarrow> skip_words 5 r5;
     (inode, _) \<leftarrow> scan_ulong r6;
     Some \<lparr>tl_remote_addr = remote, tl_remote_port = port, tl_state = st, tl_inode = inode\<rparr> }"

text \<open>What a line of the table says about a connection of interest, apart from the time.\<close>

definition line_event :: "limits \<Rightarrow> bool \<Rightarrow> inode_owner list \<Rightarrow> string \<Rightarrow> conn_event option" where
  "line_event L ipv6 owners line = do {
     t \<leftarrow> parse_tcp_line line;
     if tl_state t \<noteq> TCP_ESTABLISHED \<and> tl_state t \<noteq> TCP_SYN_SENT then None
     else do {
       ow \<leftarrow> find_owner_by_inode owners (tl_inode t);
       dst_ip \<leftarrow> (if ipv6 then proc_tcp6_hex_to_str else proc_tcp4_hex_to_str) (tl_remote_addr t) (max_ip_str L);
       if dst_ip = ''0.0.0.0'' \<or> dst_ip = ''::'' then None
       else Some \<lparr>ce_pid = io_pid ow, ce_inode = tl_inode t, ce_dst_port = tl_remote_port t, ce_state = tl_state t,
              ce_ipv6 = ipv6, ce_seen_at = 0, ce_dst_ip = cstr_copy (max_ip_str L) dst_ip,
              ce_exe = cstr_copy (conn_exe_len L) (io_exe ow)\<rparr> } }"

fun tcp_lines ::
  "limits \<Rightarrow> os \<Rightarrow> bool \<Rightarrow> inode_owner list \<Rightarrow> nat \<Rightarrow> string list \<Rightarrow> conn_event list \<Rightarrow> 'a world_scheme
     \<Rightarrow> conn_event list \<times> 'a world_scheme" where
  "tcp_lines L w ipv6 owners max_events [] es s = (es, s)"
| "tcp_lines L w ipv6 owners max_events (l # ls) es s =
     (if length es \<ge> max_events then (es, s)
      else case line_event L ipv6 owners l of
             None \<Rightarrow> tcp_lines L w ipv6 owners max_events ls es s
           | Some e \<Rightarrow>
               (let (now, s1) = sys_time w s
                in tcp_lines L w ipv6 owners max_events ls (es @ [e\<lparr>ce_seen_at := now\<rparr>]) s1))"

definition collect_tcp_file ::
  "limits \<Rightarrow> os \<Rightarrow> string \<Rightarrow> bool \<Rightarrow> inode_owner list \<Rightarrow> nat \<Rightarrow> 'a world_scheme \<Rightarrow> conn_event list \<times> 'a world_scheme" where
  "collect_tcp_file L w path ipv6 owners max_events s =
     (let (c, s1) = sys_read w path s
      in case c of
           None \<Rightarrow> ([], s1)
         | Some t \<Rightarrow> tcp_lines L w ipv6 owners max_events (tl (fgets_lines 1024 t)) [] s1)"

definition rw_collect_tcp_events ::
  "limits \<Rightarrow> os \<Rightarrow> inode_owner list \<Rightarrow> nat \<Rightarrow> 'a world_scheme \<Rightarrow> conn_event list \<times> 'a world_scheme" where
  "rw_collect_tcp_events L w owners max_events s =
     (let (es, s1) = collect_tcp_file L w ''/proc/net/tcp'' False owners max_events s
      in if length es < max_events
         then (let (es6, s2) = collect_tcp_file L w ''/proc/net/tcp6'' True owners (max_events - length es) s1
               in (es @ es6, s2))
         else (es, s1))"

subsection \<open>Raw and packet sockets\<close>

text \<open>The last token that is a number; 0 where none is.\<close>

definition last_number :: "string \<Rightarrow> nat" where
  "last_number line = fold (\<lambda>tok inode. case token_number tok of Some v \<Rightarrow> v | None \<Rightarrow> inode) (tokens line) 0"

text \<open>\<open>"%*s %*s %*s %*s %*s %*s %*s %*s %*s %*s %lu"\<close>, with the walk over the tokens as the fallback.\<close>

definition raw_line_inode :: "string \<Rightarrow> nat" where
  "raw_line_inode line = (case Option.bind (skip_words 10 line) scan_ulong of
     Some (v, _) \<Rightarrow> v
   | None \<Rightarrow> last_number line)"

definition raw_alert_seen :: "pid \<Rightarrow> nat \<Rightarrow> 'a net_scheme \<Rightarrow> bool \<times> 'a net_scheme" where
  "raw_alert_seen pid inode s =
     (if (pid, inode) \<in> set (raw_alerts s) then (True, s)
      else if length (raw_alerts s) < RW_RAW_ALERT_CACHE
      then (False, s\<lparr>raw_alerts := raw_alerts s @ [(pid, inode)]\<rparr>)
      else (False, s))"

text \<open>
  The end of every alert when \<open>stop_suspicious\<close> is set: SIGSTOP, the action in the case, a line when it
  failed.
\<close>

definition stop_process ::
  "limits \<Rightarrow> os \<Rightarrow> rw_config option \<Rightarrow> pid \<Rightarrow> string \<Rightarrow> string \<Rightarrow> bool \<Rightarrow> 'a sys_scheme \<Rightarrow> 'a sys_scheme option" where
  "stop_process L w cfg pid what detail show_errno s =
     (let s1 = rw_log_alert L w (''stopping '' @ what @ '' pid='' @ show_int pid @ '' via SIGSTOP'') s;
          (ok, s2) = sys_kill w pid SIGSTOP s1
      in do {
           s3 \<leftarrow> case_action L w cfg pid ''SIGSTOP'' (if ok then 0 else env_errno w (clk s2)) detail s2;
           Some (if ok then s3
                 else rw_log_alert L w (''SIGSTOP failed pid='' @ show_int pid
                   @ (if show_errno then '' errno='' @ show_int (env_errno w (clk s3)) else [])) s3) })"

definition stops :: "rw_config option \<Rightarrow> bool" where
  "stops cfg = (case cfg of Some c \<Rightarrow> stop_suspicious c | None \<Rightarrow> False)"

definition logs_raw :: "rw_config option \<Rightarrow> bool" where
  "logs_raw cfg = (case cfg of Some c \<Rightarrow> log_raw c | None \<Rightarrow> True)"

definition report_raw ::
  "limits \<Rightarrow> os \<Rightarrow> rw_config option \<Rightarrow> string \<Rightarrow> inode_owner \<Rightarrow> nat \<Rightarrow> 'a sys_scheme \<Rightarrow> 'a sys_scheme option" where
  "report_raw L w cfg kind ow inode s =
     (let what = ''pid='' @ show_int (io_pid ow) @ '' exe='' @ io_exe ow @ '' inode='' @ show_nat inode
      in do {
           s1 \<leftarrow> score_add L w cfg (io_pid ow) None (Some (io_exe ow)) ''RAW_SOCKET'' kind 95
             (rw_log_alert L w (''raw socket detected kind='' @ kind @ '' '' @ what) s);
           s2 \<leftarrow> case_detail L w cfg (io_pid ow) 95 ''RAW_SOCKET_DETAIL''
             (''kind='' @ kind @ '' exe='' @ io_exe ow @ '' inode='' @ show_nat inode) s1;
           s3 \<leftarrow> Some (if logs_raw cfg then rw_log_network L w (''raw_socket kind='' @ kind @ '' '' @ what) s2 else s2);
           if stops cfg then stop_process L w cfg (io_pid ow) ''raw-socket'' ''raw/packet socket'' True s3 else Some s3 })"

definition report_packet ::
  "limits \<Rightarrow> os \<Rightarrow> rw_config option \<Rightarrow> inode_owner \<Rightarrow> nat \<Rightarrow> 'a sys_scheme \<Rightarrow> 'a sys_scheme option" where
  "report_packet L w cfg ow inode s =
     (let what = ''pid='' @ show_int (io_pid ow) @ '' exe='' @ io_exe ow @ '' inode='' @ show_nat inode
      in do {
           s1 \<leftarrow> score_add L w cfg (io_pid ow) None (Some (io_exe ow)) ''PACKET_SOCKET'' ''packet/raw capture socket'' 95
             (rw_log_alert L w (''packet socket detected '' @ what) s);
           s2 \<leftarrow> case_detail L w cfg (io_pid ow) 95 ''PACKET_SOCKET_DETAIL''
             (''exe='' @ io_exe ow @ '' inode='' @ show_nat inode) s1;
           s3 \<leftarrow> Some (if logs_raw cfg then rw_log_network L w (''packet_socket '' @ what) s2 else s2);
           if stops cfg then stop_process L w cfg (io_pid ow) ''packet-socket'' ''raw/packet socket'' True s3 else Some s3 })"

text \<open>The lines of one of the three tables: the inode of a line, its owner, a report when it is new.\<close>

fun socket_lines ::
  "(string \<Rightarrow> nat) \<Rightarrow> (inode_owner \<Rightarrow> nat \<Rightarrow> 'a net_scheme \<Rightarrow> 'a net_scheme option) \<Rightarrow> inode_owner list
     \<Rightarrow> string list \<Rightarrow> 'a net_scheme \<Rightarrow> 'a net_scheme option" where
  "socket_lines inode_of rep owners [] s = Some s"
| "socket_lines inode_of rep owners (l # ls) s =
     (let inode = inode_of l
      in if inode = 0 then socket_lines inode_of rep owners ls s
         else case find_owner_by_inode owners inode of
                None \<Rightarrow> socket_lines inode_of rep owners ls s
              | Some ow \<Rightarrow>
                  (let (seen, s1) = raw_alert_seen (io_pid ow) inode s
                   in if seen then socket_lines inode_of rep owners ls s1
                      else do { s2 \<leftarrow> rep ow inode s1; socket_lines inode_of rep owners ls s2 }))"

definition scan_socket_file ::
  "os \<Rightarrow> string \<Rightarrow> (string \<Rightarrow> nat) \<Rightarrow> (inode_owner \<Rightarrow> nat \<Rightarrow> 'a net_scheme \<Rightarrow> 'a net_scheme option) \<Rightarrow> inode_owner list
     \<Rightarrow> 'a net_scheme \<Rightarrow> 'a net_scheme option" where
  "scan_socket_file w path inode_of rep owners s =
     (let (c, s1) = sys_read w path s
      in case c of
           None \<Rightarrow> Some s1
         | Some t \<Rightarrow> socket_lines inode_of rep owners (tl (fgets_lines 1024 t)) s1)"

definition scan_raw_file ::
  "limits \<Rightarrow> os \<Rightarrow> rw_config option \<Rightarrow> string \<Rightarrow> string \<Rightarrow> inode_owner list \<Rightarrow> 'a net_scheme \<Rightarrow> 'a net_scheme option" where
  "scan_raw_file L w cfg path kind owners s =
     scan_socket_file w path raw_line_inode (report_raw L w cfg kind) owners s"

definition scan_packet_file ::
  "limits \<Rightarrow> os \<Rightarrow> rw_config option \<Rightarrow> inode_owner list \<Rightarrow> 'a net_scheme \<Rightarrow> 'a net_scheme option" where
  "scan_packet_file L w cfg owners s =
     scan_socket_file w ''/proc/net/packet'' last_number (report_packet L w cfg) owners s"

definition rw_scan_raw_sockets ::
  "limits \<Rightarrow> os \<Rightarrow> rw_config option \<Rightarrow> inode_owner list \<Rightarrow> 'a net_scheme \<Rightarrow> 'a net_scheme option" where
  "rw_scan_raw_sockets L w cfg owners s = do {
     s1 \<leftarrow> scan_raw_file L w cfg ''/proc/net/raw'' ''raw4'' owners s;
     s2 \<leftarrow> scan_raw_file L w cfg ''/proc/net/raw6'' ''raw6'' owners s1;
     scan_packet_file L w cfg owners s2 }"

subsection \<open>SYN scans\<close>

definition find_syn :: "pid \<Rightarrow> syn_track list \<Rightarrow> nat option" where
  "find_syn pid ts = find_idx (\<lambda>t. sy_pid t = pid) ts"

definition append_syn :: "pid \<Rightarrow> nat \<times> string \<times> time \<Rightarrow> syn_track list \<Rightarrow> (syn_track list \<times> nat) option" where
  "append_syn pid c ts = (case c of (n, exe, now) \<Rightarrow>
     if length ts \<ge> RW_SYN_TRACKS then None
     else Some (ts @ [\<lparr>sy_pid = pid, sy_exe = cstr_copy n exe, sy_window = now, sy_count = 0, sy_keys = [],
                      sy_alerted = False\<rparr>], length ts))"

definition get_or_create_syn_track ::
  "limits \<Rightarrow> pid \<Rightarrow> string \<Rightarrow> time \<Rightarrow> 'a net_scheme \<Rightarrow> (nat \<times> 'a net_scheme) option" where
  "get_or_create_syn_track L pid exe now s = (case find_syn pid (syn_tracks s) of
     Some i \<Rightarrow> Some (i, s)
   | None \<Rightarrow> map_option (\<lambda>(ts, i). (i, s\<lparr>syn_tracks := ts\<rparr>)) (append_syn pid (max_path L, exe, now) (syn_tracks s)))"

text \<open>What one SYN does to a track: a new window after 30 seconds, the count, the target.\<close>

definition open_window :: "time \<Rightarrow> syn_track \<Rightarrow> syn_track" where
  "open_window now t =
     (if now - sy_window t > 30
      then t\<lparr>sy_window := now, sy_count := 0, sy_keys := [], sy_alerted := False\<rparr> else t)"

definition target_key :: "conn_event \<Rightarrow> string" where
  "target_key ev = cstr_copy 160 (ce_dst_ip ev @ '':'' @ show_nat (ce_dst_port ev))"

definition count_syn :: "string \<Rightarrow> syn_track \<Rightarrow> syn_track" where
  "count_syn key t =
     (let t = t\<lparr>sy_count := sy_count t + 1\<rparr>
      in if key \<notin> set (sy_keys t) \<and> length (sy_keys t) < 64 then t\<lparr>sy_keys := sy_keys t @ [key]\<rparr> else t)"

definition syn_step :: "conn_event \<Rightarrow> syn_track \<Rightarrow> syn_track" where
  "syn_step ev t = count_syn (target_key ev) (open_window (ce_seen_at ev) t)"

definition syn_alarm :: "syn_track \<Rightarrow> bool" where
  "syn_alarm t \<longleftrightarrow> \<not> sy_alerted t \<and> length (sy_keys t) \<ge> (if is_browser_exe (sy_exe t) then 48 else 20)
     \<and> sy_count t \<ge> (if is_browser_exe (sy_exe t) then 80 else 30)"

definition update_syn_scan_track ::
  "limits \<Rightarrow> os \<Rightarrow> rw_config option \<Rightarrow> conn_event \<Rightarrow> 'a net_scheme \<Rightarrow> 'a net_scheme option" where
  "update_syn_scan_track L w cfg ev s =
     (case get_or_create_syn_track L (ce_pid ev) (ce_exe ev) (ce_seen_at ev) s of
        None \<Rightarrow> Some s
      | Some (i, s1) \<Rightarrow>
          (let t = syn_step ev (syn_tracks s1 ! i)
           in if \<not> syn_alarm t then Some (s1\<lparr>syn_tracks := (syn_tracks s1)[i := t]\<rparr>)
              else
                let s2 = s1\<lparr>syn_tracks := (syn_tracks s1)[i := t\<lparr>sy_alerted := True\<rparr>]\<rparr>;
                    seen = '' exe='' @ sy_exe t @ '' syn_sent='' @ show_nat (sy_count t)
                      @ '' unique_targets='' @ show_nat (length (sy_keys t)) @ '' window=30s''
                in do {
                     s3 \<leftarrow> score_add L w cfg (sy_pid t) None (Some (sy_exe t)) ''SYNSCAN''
                       ''many SYN_SENT connections to unique targets'' 90
                       (rw_log_alert L w (''possible synscan pid='' @ show_int (sy_pid t) @ seen) s2);
                     s4 \<leftarrow> case_detail L w cfg (sy_pid t) 90 ''SYNSCAN_DETAIL'' (tl seen) s3;
                     s5 \<leftarrow> map_option snd (rw_scan_injection_pid L w cfg (sy_pid t) s4);
                     if stops cfg then stop_process L w cfg (sy_pid t) ''synscan'' ''synscan'' True s5 else Some s5 }))"

subsection \<open>Beacons\<close>

definition same_conn :: "conn_event \<Rightarrow> conn_track \<Rightarrow> bool" where
  "same_conn ev t \<longleftrightarrow> ct_pid t = ce_pid ev \<and> ct_dst_port t = ce_dst_port ev \<and> ct_dst_ip t = ce_dst_ip ev"

definition new_track :: "limits \<Rightarrow> conn_event \<Rightarrow> conn_track" where
  "new_track L ev = \<lparr>ct_pid = ce_pid ev, ct_dst_port = ce_dst_port ev, ct_last_seen = ce_seen_at ev,
     ct_exe = cstr_copy (track_exe_len L) (ce_exe ev), ct_dst_ip = cstr_copy (max_ip_str L) (ce_dst_ip ev),
     ct_total_seen = 0, ct_intervals = [], ct_alerted = False\<rparr>"

definition get_or_create_track :: "limits \<Rightarrow> conn_event \<Rightarrow> 'a net_scheme \<Rightarrow> (nat \<times> 'a net_scheme) option" where
  "get_or_create_track L ev s = (case find_idx (same_conn ev) (tracks s) of
     Some i \<Rightarrow> Some (i, s)
   | None \<Rightarrow> if length (tracks s) \<ge> max_tracks L then None
             else Some (length (tracks s), s\<lparr>tracks := tracks s @ [new_track L ev]\<rparr>))"

definition fp_sum :: "fp \<Rightarrow> rat list \<Rightarrow> rat" where
  "fp_sum F xs = foldl (\<lambda>a x. fp_rnd F (a + x)) 0 xs"

definition avg_interval :: "fp \<Rightarrow> conn_track \<Rightarrow> rat" where
  "avg_interval F t =
     (let n = length (ct_intervals t)
      in if n = 0 then 0 else fp_rnd F (fp_sum F (ct_intervals t) / of_nat n))"

definition interval_jitter :: "fp \<Rightarrow> conn_track \<Rightarrow> rat" where
  "interval_jitter F t =
     (let n = length (ct_intervals t)
      in if n < 2 then 999999
         else (let avg = avg_interval F t;
                   diffs = map (\<lambda>x. let diff = fp_rnd F (x - avg) in if diff < 0 then - diff else diff) (ct_intervals t)
               in fp_rnd F (fp_sum F diffs / of_nat n)))"

definition score_track :: "fp \<Rightarrow> conn_track \<Rightarrow> int" where
  "score_track F t =
     (let browser = is_browser_exe (ct_exe t);
          score = 0;
          score = (if ct_total_seen t \<ge> 4 then score + (if browser then 5 else 25) else score);
          score = (if length (ct_intervals t) \<ge> 3
                   then (let avg = avg_interval F t; jitter = interval_jitter F t
                         in if avg \<ge> 2 \<and> avg \<le> 600 \<and> jitter \<le> fp_rnd F (avg * fp_rnd F (3 / 10))
                            then score + (if browser then 10 else 60) else score)
                   else score);
          score = (if is_stable_browser_port (ct_dst_port t) then score + (if browser then 0 else 5) else score);
          score = (if rw_suspicious_path (Some (ct_exe t)) then score + 30 else score)
      in if browser \<and> \<not> rw_suspicious_path (Some (ct_exe t)) \<and> score < 85 then 0
         else if score > 100 then 100 else score)"

text \<open>The intervals of a track hold the newest 16, each of at least a second.\<close>

definition push_interval :: "rat \<Rightarrow> rat list \<Rightarrow> rat list" where
  "push_interval x xs = (if length xs < 16 then xs @ [x] else tl xs @ [x])"

definition see_conn :: "fp \<Rightarrow> time \<Rightarrow> conn_track \<Rightarrow> conn_track" where
  "see_conn F seen_at t =
     (let t = (if seen_at > ct_last_seen t
               then (let interval = fp_rnd F (of_int (seen_at - ct_last_seen t))
                     in if interval \<ge> 1
                        then t\<lparr>ct_intervals := push_interval interval (ct_intervals t), ct_last_seen := seen_at\<rparr>
                        else t)
               else t)
      in t\<lparr>ct_total_seen := ct_total_seen t + 1\<rparr>)"

definition track_text :: "fp \<Rightarrow> conn_track \<Rightarrow> string" where
  "track_text F t = ''dst='' @ ct_dst_ip t @ '':'' @ show_nat (ct_dst_port t) @ '' seen='' @ show_nat (ct_total_seen t)
     @ '' avg='' @ fp_fmt F (avg_interval F t) @ '' jitter='' @ fp_fmt F (interval_jitter F t)"

text \<open>The reaction to a beacon, behind the test of threshold and mark.\<close>

definition report_beacon ::
  "limits \<Rightarrow> os \<Rightarrow> fp \<Rightarrow> rw_config \<Rightarrow> conn_track \<Rightarrow> int \<Rightarrow> 'a sys_scheme \<Rightarrow> 'a sys_scheme option" where
  "report_beacon L w F cfg t score s =
     (let pid = ct_pid t in do {
        s1 \<leftarrow> case_detail L w (Some cfg) pid score ''BEACON_DETAIL'' (''exe='' @ ct_exe t @ '' '' @ track_text F t)
          (rw_log_alert L w (''possible beaconing pid='' @ show_int pid @ '' exe='' @ ct_exe t @ '' ''
             @ track_text F t @ '' score='' @ show_int score) s);
        s2 \<leftarrow> map_option snd (rw_scan_injection_pid L w (Some cfg) pid s1);
        s3 \<leftarrow> map_option snd (rw_inspect_process L w pid s2);
        if stop_suspicious cfg
        then stop_process L w (Some cfg) pid ''suspicious'' (''beacon score='' @ show_int score) False s3
        else Some s3 })"

definition rw_update_track ::
  "limits \<Rightarrow> os \<Rightarrow> fp \<Rightarrow> rw_config \<Rightarrow> conn_event \<Rightarrow> 'a net_scheme \<Rightarrow> 'a net_scheme option" where
  "rw_update_track L w F cfg ev s =
     (let dst = '' pid='' @ show_int (ce_pid ev) @ '' exe='' @ ce_exe ev @ '' dst='' @ ce_dst_ip ev @ '':''
                @ show_nat (ce_dst_port ev)
      in if ce_state ev = TCP_SYN_SENT
         then update_syn_scan_track L w (Some cfg) ev
                (if log_synscan cfg then rw_log_network L w (''syn_sent'' @ dst) s else s)
         else case get_or_create_track L ev s of
                None \<Rightarrow> Some s
              | Some (i, s1) \<Rightarrow>
                  (let t = see_conn F (ce_seen_at ev) (tracks s1 ! i);
                       s2 = s1\<lparr>tracks := (tracks s1)[i := t]\<rparr>;
                       s3 = (if log_network cfg
                             then rw_log_network L w (''tcp_established'' @ dst @ '' seen='' @ show_nat (ct_total_seen t)) s2
                             else s2);
                       score = score_track F t
                   in do {
                        s4 \<leftarrow> (if score > 0
                               then score_add L w (Some cfg) (ct_pid t) None (Some (ct_exe t)) ''PROC_TCP''
                                      (cstr_copy 256 (track_text F t)) score s3
                               else Some s3);
                        if score \<ge> threshold_or 60 (Some cfg) \<and> \<not> ct_alerted t
                        then report_beacon L w F cfg t score
                               (s4\<lparr>tracks := (tracks s4)[i := t\<lparr>ct_alerted := True\<rparr>]\<rparr>)
                        else Some s4 }))"

subsection \<open>The tables of the monitor\<close>

interpretation syntab: slot_table sy_pid RW_SYN_TRACKS find_syn append_syn
  by unfold_locales (auto simp: find_syn_def append_syn_def split: if_splits prod.splits)

definition track_ok :: "conn_track \<Rightarrow> bool" where
  "track_ok t \<longleftrightarrow> length (ct_intervals t) \<le> 16 \<and> (\<forall>x\<in>set (ct_intervals t). 1 \<le> x)"

definition syn_ok :: "syn_track \<Rightarrow> bool" where
  "syn_ok t \<longleftrightarrow> distinct (sy_keys t) \<and> length (sy_keys t) \<le> 64 \<and> length (sy_keys t) \<le> sy_count t"

definition net_inv :: "limits \<Rightarrow> 'a net_scheme \<Rightarrow> bool" where
  "net_inv L s \<longleftrightarrow> sys_inv L s
     \<and> length (tracks s) \<le> max_tracks L \<and> list_all track_ok (tracks s)
     \<and> table_ok sy_pid RW_SYN_TRACKS (syn_tracks s) \<and> list_all syn_ok (syn_tracks s)
     \<and> length (raw_alerts s) \<le> RW_RAW_ALERT_CACHE \<and> distinct (raw_alerts s)"

lemma syn_step_ok: "syn_ok t \<Longrightarrow> syn_ok (syn_step ev t) \<and> sy_pid (syn_step ev t) = sy_pid t"
  by (auto simp: syn_ok_def syn_step_def count_syn_def open_window_def Let_def)

lemma see_conn_ok: "track_ok t \<Longrightarrow> track_ok (see_conn F now t)"
  by (auto simp: track_ok_def see_conn_def push_interval_def Let_def dest: list.set_sel(2)[rotated])

lemma new_track_ok: "track_ok (new_track L ev)"
  by (simp add: track_ok_def new_track_def)

text \<open>
  \<open>net_runs\<close>: a handler of the monitor returns, keeps the invariant of core and monitor, and leaves the
  state of the components above alone.
\<close>

definition net_keeps :: "limits \<Rightarrow> 'a net_scheme \<Rightarrow> 'a net_scheme \<Rightarrow> bool" where
  "net_keeps L s s' \<longleftrightarrow> (net_inv L s \<longrightarrow> net_inv L s') \<and> net.more s' = net.more s"

definition net_runs :: "limits \<Rightarrow> os \<Rightarrow> 'a net_scheme \<Rightarrow> 'a net_scheme option \<Rightarrow> bool" where
  "net_runs L w s r \<longleftrightarrow> (\<forall>s'. r = Some s' \<longrightarrow> net_keeps L s s') \<and> (pread_ok w \<longrightarrow> r \<noteq> None)"

lemma net_keeps_refl: "net_keeps L s s"
  by (simp add: net_keeps_def)

lemma net_keeps_trans: "net_keeps L s t \<Longrightarrow> net_keeps L t u \<Longrightarrow> net_keeps L s u"
  by (simp add: net_keeps_def)

lemma net_keeps_core: "sys_grows L s s' \<Longrightarrow> net_keeps L s s'"
proof -
  assume g: "sys_grows L s s'"
  then have "sys.more s' = sys.more s" by (simp add: sys_grows_def)
  then have "tracks s' = tracks s \<and> syn_tracks s' = syn_tracks s \<and> raw_alerts s' = raw_alerts s \<and> net.more s' = net.more s"
    by (cases s; cases s') simp
  with g show ?thesis by (simp add: net_keeps_def net_inv_def sys_grows_def)
qed

named_theorems net_intros \<open>steps of the network monitor\<close>

interpretation net_contract: state_contract "net_keeps L"
  by unfold_locales (auto intro: net_keeps_refl net_keeps_trans)

lemma net_runs_meets: "net_runs L w s r \<longleftrightarrow> meets (net_keeps L) (pread_ok w) s r"
  by (simp add: net_runs_def meets_def)

lemma net_runs_core: "runs L w t x \<Longrightarrow> net_keeps L s t \<Longrightarrow> net_runs L w s x"
  unfolding runs_def net_runs_def by (blast intro: net_keeps_trans net_keeps_core)

lemmas net_runs_combine [net_intros] =
  net_contract.meets_Some[where ok = "pread_ok w" for w, folded net_runs_meets]
  net_contract.meets_bind[where ok = "pread_ok w" for w, folded net_runs_meets]
  net_contract.meets_if[where ok = "pread_ok w" for w, folded net_runs_meets]

lemma net_keeps_steps [net_intros]:
  "net_keeps L s t \<Longrightarrow> net_keeps L s (rw_log_alert L w m t)"
  "net_keeps L s t \<Longrightarrow> net_keeps L s (rw_log_network L w m t)"
  "net_keeps L s t \<Longrightarrow> net_keeps L s (snd (sys_read w p t))"
  "(b \<Longrightarrow> net_keeps L s t) \<Longrightarrow> (\<not> b \<Longrightarrow> net_keeps L s u) \<Longrightarrow> net_keeps L s (if b then t else u)"
  by (auto elim!: net_keeps_trans intro: net_keeps_core runs_intros)

lemmas net_runs_calls [net_intros] =
  runs_score_add[OF _ sys_grows_refl, THEN net_runs_core]
  runs_case_detail[OF _ sys_grows_refl, THEN net_runs_core]
  scan_injection_runs[OF _ sys_grows_refl, THEN net_runs_core]
  inspect_runs[OF _ sys_grows_refl, THEN net_runs_core]

lemma stop_process_runs [runs_intros]:
  assumes "limits_ok L" "sys_grows L s t"
  shows "runs L w s (stop_process L w cfg pid what detail b t)"
  unfolding stop_process_def Let_def split_beta by (intro runs_intros assms)

lemma report_socket_runs [runs_intros]:
  assumes "limits_ok L" "sys_grows L s t"
  shows "runs L w s (report_raw L w cfg kind ow inode t)" "runs L w s (report_packet L w cfg ow inode t)"
  unfolding report_raw_def report_packet_def Let_def by (intro runs_intros assms)+

lemma report_beacon_runs [runs_intros]:
  assumes "limits_ok L" "sys_grows L s t"
  shows "runs L w s (report_beacon L w F cfg tr score t)"
  unfolding report_beacon_def Let_def by (intro runs_intros assms)

lemmas net_runs_reports [net_intros] =
  stop_process_runs[OF _ sys_grows_refl, THEN net_runs_core]
  report_socket_runs[OF _ sys_grows_refl, THEN net_runs_core]
  report_beacon_runs[OF _ sys_grows_refl, THEN net_runs_core]

lemma raw_alert_seen_keeps [net_intros]:
  "net_keeps L s t \<Longrightarrow> net_keeps L s (snd (raw_alert_seen pid inode t))"
  by (auto simp: raw_alert_seen_def net_keeps_def net_inv_def sys_inv_def)

lemma socket_lines_runs:
  assumes "\<And>ow inode s t. net_keeps L s t \<Longrightarrow> net_runs L w s (rep ow inode t)"
  shows "net_keeps L s t \<Longrightarrow> net_runs L w s (socket_lines f rep owners ls t)"
proof (induction ls arbitrary: t)
  case (Cons l ls)
  show ?case
    unfolding socket_lines.simps Let_def split_beta
    by (cases "find_owner_by_inode owners (f l)"; simp only: option.case; intro net_intros assms Cons.IH Cons.prems)
qed (simp add: net_intros)

lemma raw_sockets_runs [net_intros]:
  assumes "limits_ok L" "net_keeps L s t"
  shows "net_runs L w s (rw_scan_raw_sockets L w cfg owners t)"
proof -
  have f: "net_runs L w s (scan_socket_file w path g rep owners u)"
    if "\<And>ow inode s t. net_keeps L s t \<Longrightarrow> net_runs L w s (rep ow inode t)" "net_keeps L s u" for path g rep u
    unfolding scan_socket_file_def Let_def split_beta
    by (cases "fst (sys_read w path u)"; simp only: option.case; intro net_intros socket_lines_runs that)
  show ?thesis
    unfolding rw_scan_raw_sockets_def scan_raw_file_def scan_packet_file_def
    by (intro net_intros f assms; assumption)
qed

lemma list_all_update: "list_all P xs \<Longrightarrow> (i < length xs \<Longrightarrow> P x) \<Longrightarrow> list_all P (xs[i := x])"
  by (cases "i < length xs") (auto simp: list_all_length nth_list_update list_update_beyond)

lemma syn_update_keeps:
  assumes "net_keeps L s t" "\<And>u. syn_ok u \<Longrightarrow> syn_ok (f u) \<and> sy_pid (f u) = sy_pid u"
  shows "net_keeps L s (t\<lparr>syn_tracks := (syn_tracks t)[i := f (syn_tracks t ! i)]\<rparr>)"
proof -
  have "net_inv L (t\<lparr>syn_tracks := (syn_tracks t)[i := f (syn_tracks t ! i)]\<rparr>)" if inv: "net_inv L t"
  proof (cases "i < length (syn_tracks t)")
    case True
    then have ok: "syn_ok (syn_tracks t ! i)" using inv by (simp add: net_inv_def list_all_length)
    have "table_ok sy_pid RW_SYN_TRACKS ((syn_tracks t)[i := f (syn_tracks t ! i)])"
      using inv assms(2)[OF ok] by (intro syntab.update_ok) (simp_all add: net_inv_def)
    moreover have "list_all syn_ok ((syn_tracks t)[i := f (syn_tracks t ! i)])"
      using inv assms(2)[OF ok] by (intro list_all_update) (simp_all add: net_inv_def)
    ultimately show ?thesis using inv by (simp add: net_inv_def sys_inv_def)
  next
    case False
    then show ?thesis using inv by (simp add: list_update_beyond net_inv_def sys_inv_def)
  qed
  with assms(1) show ?thesis by (simp add: net_keeps_def)
qed

lemma get_syn_keeps:
  assumes "get_or_create_syn_track L pid exe now t = Some (i, u)" "net_keeps L s t"
  shows "net_keeps L s u"
proof (cases "find_syn pid (syn_tracks t)")
  case None
  obtain ts where a: "append_syn pid (max_path L, exe, now) (syn_tracks t) = Some (ts, i)" "u = t\<lparr>syn_tracks := ts\<rparr>"
    using assms(1) None by (auto simp: get_or_create_syn_track_def)
  have "list_all syn_ok (syn_tracks t) \<Longrightarrow> list_all syn_ok ts"
    using a(1) by (auto simp: append_syn_def syn_ok_def split: if_splits)
  with syntab.create_ok[OF _ None a(1)] assms(2) show ?thesis
    by (auto simp: net_keeps_def net_inv_def sys_inv_def a(2))
qed (use assms in \<open>simp add: get_or_create_syn_track_def\<close>)

lemma syn_scan_runs [net_intros]:
  assumes "limits_ok L" "net_keeps L s t"
  shows "net_runs L w s (update_syn_scan_track L w cfg ev t)"
proof (cases "get_or_create_syn_track L (ce_pid ev) (ce_exe ev) (ce_seen_at ev) t")
  case (Some r)
  have g: "net_keeps L s (snd r)" using get_syn_keeps[of L _ _ _ t "fst r" "snd r"] Some assms(2) by simp
  have u: "net_keeps L s ((snd r)\<lparr>syn_tracks := (syn_tracks (snd r))[fst r := syn_step ev (syn_tracks (snd r) ! fst r)]\<rparr>)"
    by (rule syn_update_keeps[OF g syn_step_ok])
  have v: "net_keeps L s ((snd r)\<lparr>syn_tracks := (syn_tracks (snd r))[fst r :=
      (syn_step ev (syn_tracks (snd r) ! fst r))\<lparr>sy_alerted := True\<rparr>]\<rparr>)"
    by (rule syn_update_keeps[OF g, where f = "\<lambda>t. (syn_step ev t)\<lparr>sy_alerted := True\<rparr>"])
       (use syn_step_ok in \<open>auto simp: syn_ok_def\<close>)
  show ?thesis unfolding update_syn_scan_track_def Some option.case split_beta Let_def
    by (intro net_intros u v assms(1))
qed (simp add: update_syn_scan_track_def net_intros assms)

lemma track_update_keeps:
  assumes "net_keeps L s t" "net_inv L s \<Longrightarrow> track_ok x"
  shows "net_keeps L s (t\<lparr>tracks := (tracks t)[i := x]\<rparr>)"
  using assms by (auto simp: net_keeps_def net_inv_def sys_inv_def intro: list_all_update)

lemma update_track_runs [net_intros]:
  assumes "limits_ok L" "net_keeps L s t"
  shows "net_runs L w s (rw_update_track L w F cfg ev t)"
proof (cases "get_or_create_track L ev t")
  case (Some r)
  have g: "net_keeps L s (snd r)"
    using Some assms(2) new_track_ok[of L ev]
    by (auto simp: get_or_create_track_def net_keeps_def net_inv_def sys_inv_def split: option.splits if_splits)
  have "fst r < length (tracks (snd r))"
    using Some by (auto simp: get_or_create_track_def split: option.splits if_splits dest: find_idx_Some)
  then have "track_ok (tracks (snd r) ! fst r)" if "net_inv L s"
    using g that by (simp add: net_keeps_def net_inv_def list_all_length)
  then have ok: "net_inv L s \<Longrightarrow> track_ok (see_conn F now (tracks (snd r) ! fst r))" for now
    by (simp add: see_conn_ok)
  then have ok': "net_inv L s \<Longrightarrow> track_ok ((see_conn F now (tracks (snd r) ! fst r))\<lparr>ct_alerted := True\<rparr>)" for now
    by (simp add: track_ok_def)
  show ?thesis unfolding rw_update_track_def Some option.case split_beta Let_def
    by (intro net_intros track_update_keeps ok ok' g assms; assumption?)
next
  case None
  show ?thesis unfolding rw_update_track_def None option.case Let_def
    by (intro net_intros assms)
qed

definition net_start :: "os \<Rightarrow> net" where
  "net_start w = sys.extend (sys_start w) (net.fields [] [] [])"

text \<open>The monitor at work: connections and sockets that it sees, and steps of the core between them.\<close>

inductive net_step :: "limits \<Rightarrow> net \<Rightarrow> net \<Rightarrow> bool" for L where
  ns_track: "rw_update_track L w F cfg ev s = Some s' \<Longrightarrow> net_step L s s'"
| ns_raw: "rw_scan_raw_sockets L w cfg owners s = Some s' \<Longrightarrow> net_step L s s'"
| ns_core: "sys_grows L s s' \<Longrightarrow> net_step L s s'"

lemma net_step_keeps: "limits_ok L \<Longrightarrow> net_step L s s' \<Longrightarrow> net_keeps L s s'"
proof (rotate_tac, induction rule: net_step.induct)
  case (ns_track w F cfg ev s s')
  from update_track_runs[OF ns_track(2) net_keeps_refl[of L s]] ns_track(1) show ?case by (auto simp: net_runs_def)
next
  case (ns_raw w cfg owners s s')
  from raw_sockets_runs[OF ns_raw(2) net_keeps_refl[of L s]] ns_raw(1) show ?case by (auto simp: net_runs_def)
qed (rule net_keeps_core)

text \<open>
  C14. In every state that the monitor reaches, the connection table stays within its array and every
  track holds at most 16 intervals of a second or more; no pid has two SYN tracks and a track knows at
  most 64 different targets, never more than it counted SYNs; the cache of reported sockets has no
  duplicates and at most 1024 entries; and the tables of the core are well formed.
\<close>

theorem net_tables_ok:
  assumes "limits_ok L" "(net_step L)\<^sup>*\<^sup>* (net_start w) s"
  shows "length (tracks s) \<le> max_tracks L
    \<and> list_all (\<lambda>t. length (ct_intervals t) \<le> 16 \<and> (\<forall>x\<in>set (ct_intervals t). 1 \<le> x)) (tracks s)
    \<and> table_ok sy_pid RW_SYN_TRACKS (syn_tracks s)
    \<and> list_all (\<lambda>t. distinct (sy_keys t) \<and> length (sy_keys t) \<le> 64 \<and> length (sy_keys t) \<le> sy_count t) (syn_tracks s)
    \<and> length (raw_alerts s) \<le> 1024 \<and> distinct (raw_alerts s) \<and> sys_inv L s"
proof -
  have "net_keeps L (net_start w) s"
    using net_contract.invariant_star[OF net_step_keeps[OF assms(1)] assms(2)] .
  moreover have "net_inv L (net_start w)"
    by (simp add: net_inv_def sys_inv_def net_start_def sys.defs net.defs table_ok_def)
  ultimately show ?thesis
    by (simp add: net_keeps_def net_inv_def track_ok_def[abs_def] syn_ok_def[abs_def] RW_RAW_ALERT_CACHE_def)
qed

subsection \<open>Beacons\<close>

text \<open>What correct rounding promises here: it is monotone and leaves small integers alone.\<close>

definition fp_ok :: "fp \<Rightarrow> bool" where
  "fp_ok F \<longleftrightarrow> mono (fp_rnd F) \<and> (\<forall>n. \<bar>n\<bar> \<le> 2 ^ 53 \<longrightarrow> fp_rnd F (of_int n) = of_int n)"

lemma fp_int: "fp_ok F \<Longrightarrow> \<bar>n\<bar> \<le> 2 ^ 53 \<Longrightarrow> fp_rnd F (of_int n) = of_int n"
  by (simp add: fp_ok_def)

lemma fp_zero: "fp_ok F \<Longrightarrow> fp_rnd F 0 = 0"
  using fp_int[of F 0] by simp

lemma fp_nonneg: "fp_ok F \<Longrightarrow> 0 \<le> x \<Longrightarrow> 0 \<le> fp_rnd F x"
  using fp_zero[of F] unfolding fp_ok_def mono_def by metis

lemma fp_sum_replicate:
  assumes "fp_ok F" "0 \<le> p" "p \<le> 600" "int k \<le> 16"
  shows "fp_sum F (replicate k (of_int p)) = of_int (int k * p)"
  using assms(4)
proof (induction k)
  case (Suc k)
  have "\<bar>int k * p + p\<bar> \<le> 2 ^ 53"
  proof -
    have "int k * p \<le> 16 * 600" using Suc.prems assms(2,3) by (intro mult_mono) auto
    then show ?thesis using assms(2,3) by simp
  qed
  from fp_int[OF assms(1) this] have r: "fp_rnd F (of_int (int k * p + p)) = of_int (int k * p + p)" .
  have "fp_sum F (replicate (Suc k) (of_int p)) = fp_rnd F (fp_sum F (replicate k (of_int p)) + of_int p)"
    unfolding replicate_Suc replicate_append_same[symmetric] by (simp add: fp_sum_def)
  also have "\<dots> = of_int (int k * p + p)" using Suc r by simp
  finally show ?case by (simp add: algebra_simps)
qed (simp add: fp_sum_def)

lemma regular_stats:
  assumes "fp_ok F" "2 \<le> p" "p \<le> 600" "ct_intervals t = replicate k (of_int p)" "2 \<le> k" "k \<le> 16"
  shows "avg_interval F t = of_int p" "interval_jitter F t = 0"
proof -
  have p: "\<bar>p\<bar> \<le> 2 ^ 53" using assms(2,3) by simp
  show avg: "avg_interval F t = of_int p"
    using fp_sum_replicate[OF assms(1) _ assms(3), of k] assms(2,4,5,6) fp_int[OF assms(1) p]
    by (simp add: avg_interval_def Let_def)
  have "fp_sum F (replicate k 0) = 0"
    using fp_sum_replicate[OF assms(1), of 0 k] assms(6) by simp
  then show "interval_jitter F t = 0"
    using assms(4,5) avg fp_zero[OF assms(1)] by (simp add: interval_jitter_def Let_def)
qed

lemma see_regular:
  assumes "fp_ok F" "2 \<le> p" "p \<le> 600"
  shows "let t = fold (\<lambda>k. see_conn F (ce_seen_at ev + p * int k)) [0..<Suc n] (new_track L ev)
    in ct_total_seen t = Suc n \<and> ct_intervals t = replicate (min 16 n) (of_int p)
     \<and> ct_last_seen t = ce_seen_at ev + p * int n \<and> ct_exe t = ct_exe (new_track L ev)"
proof (induction n)
  case 0
  show ?case by (simp add: see_conn_def new_track_def Let_def)
next
  case (Suc n)
  define t where "t = fold (\<lambda>k. see_conn F (ce_seen_at ev + p * int k)) [0..<Suc n] (new_track L ev)"
  have t: "ct_total_seen t = Suc n" "ct_intervals t = replicate (min 16 n) (of_int p)"
    "ct_last_seen t = ce_seen_at ev + p * int n" "ct_exe t = ct_exe (new_track L ev)"
    using Suc by (simp_all add: t_def Let_def)
  have r: "fp_rnd F (of_int p) = of_int p" using assms by (intro fp_int) auto
  have push: "push_interval (of_int p) (replicate (min 16 n) (of_int p)) = replicate (min 16 (Suc n)) (of_int p :: rat)"
    by (auto simp: push_interval_def min_def replicate_append_same tl_replicate not_le simp flip: replicate_Suc)
  have d: "ce_seen_at ev + p * int (Suc n) - ct_last_seen t = p" by (simp add: t(3) algebra_simps)
  have "see_conn F (ce_seen_at ev + p * int (Suc n)) t = t\<lparr>ct_intervals := replicate (min 16 (Suc n)) (of_int p),
      ct_last_seen := ce_seen_at ev + p * int (Suc n), ct_total_seen := Suc (Suc n)\<rparr>"
    using assms(2) push unfolding see_conn_def d by (simp add: t r Let_def algebra_simps)
  then show ?case using t by (simp add: t_def Let_def)
qed

text \<open>
  C16. A process that is seen with a connection to the same address at regular intervals of 2 to 600
  seconds, and whose path does not look like a browser's, has a beacon score of at least 85 from the
  fourth sighting on, whatever correct rounding does. The same holds for one connection that simply
  stays open, because every poll sees it again.
\<close>

theorem regular_contact_is_beacon:
  assumes "fp_ok F" "2 \<le> p" "p \<le> 600" "4 \<le> n" "\<not> is_browser_exe (cstr_copy (track_exe_len L) (ce_exe ev))"
  shows "85 \<le> score_track F (fold (\<lambda>k. see_conn F (ce_seen_at ev + p * int k)) [0..<n] (new_track L ev))"
proof -
  obtain m where n: "n = Suc m" "3 \<le> m" using assms(4) by (cases n) auto
  define t where "t = fold (\<lambda>k. see_conn F (ce_seen_at ev + p * int k)) [0..<n] (new_track L ev)"
  have t: "ct_total_seen t = n" "ct_intervals t = replicate (min 16 m) (of_int p)"
    "ct_exe t = cstr_copy (track_exe_len L) (ce_exe ev)"
    using see_regular[OF assms(1-3), of ev m L] by (simp_all add: t_def n Let_def new_track_def)
  note st = regular_stats[OF assms(1-3) t(2)]
  have avg: "avg_interval F t = of_int p" "interval_jitter F t = 0" using st n(2) by simp_all
  have "0 \<le> fp_rnd F (of_int p * fp_rnd F (3 / 10))"
    using assms(1,2) by (intro fp_nonneg mult_nonneg_nonneg) auto
  then have "85 \<le> score_track F t"
    using assms(2-5) n t avg by (simp add: score_track_def Let_def)
  then show ?thesis by (simp add: t_def)
qed

text \<open>
  A path that contains the name of a browser (the test is a substring test, so \<open>/tmp/chrome\<close> passes)
  never scores above 45, below the default threshold of 60, however regular its contacts are and
  although a suspicious path counts as the strong signal that the comment in \<open>score_track\<close> asks for.
\<close>

theorem browser_names_never_alert:
  "score_track F (t\<lparr>ct_exe := a @ ''/chrome'' @ b\<rparr>) \<le> 45
   \<and> rw_suspicious_path (Some ''/tmp/chrome'') \<and> 45 < threshold_or 60 (Some default_config)"
proof -
  have "is_browser_exe (a @ ''/chrome'' @ b)"
    by (auto simp: is_browser_exe_def strstr_def sublist_def)
  then have "score_track F (t\<lparr>ct_exe := a @ ''/chrome'' @ b\<rparr>) \<le> 45" by (simp add: score_track_def Let_def)
  moreover have "rw_suspicious_path (Some ''/tmp/chrome'')" by (simp add: rw_suspicious_path_def)
  ultimately show ?thesis by (simp add: threshold_or_def default_config_def)
qed

lemma net_tables_ok_witness:
  "raw_alerts (snd (raw_alert_seen 7 99 (net_start idle_os))) = [(7, 99)]
   \<and> (let s = the (rw_scan_raw_sockets small_limits idle_os None [] (net_start idle_os))
      in length (raw_alerts s) \<le> 1024 \<and> distinct (raw_alerts s))"
proof -
  have "net_runs small_limits idle_os (net_start idle_os)
      (rw_scan_raw_sockets small_limits idle_os None [] (net_start idle_os))"
    by (rule raw_sockets_runs[OF small_limits_ok net_keeps_refl])
  then obtain s where s: "rw_scan_raw_sockets small_limits idle_os None [] (net_start idle_os) = Some s"
    using idle_pread_ok by (auto simp: net_runs_def)
  from net_tables_ok[OF small_limits_ok r_into_rtranclp[of "net_step small_limits", OF ns_raw[OF s]]] s
  show ?thesis by (simp add: raw_alert_seen_def net_start_def sys.defs net.defs RW_RAW_ALERT_CACHE_def)
qed

definition exact_fp :: fp where
  "exact_fp = \<lparr>fp_rnd = (\<lambda>x. x), fp_fmt = (\<lambda>_. ''0.00'')\<rparr>"

lemma exact_fp_ok: "fp_ok exact_fp"
  by (simp add: fp_ok_def exact_fp_def mono_def)

definition sample_conn :: "string \<Rightarrow> nat \<Rightarrow> time \<Rightarrow> conn_event" where
  "sample_conn ip port now = \<lparr>ce_pid = 7, ce_inode = 99, ce_dst_port = port, ce_state = 2, ce_ipv6 = False,
     ce_seen_at = now, ce_dst_ip = ip, ce_exe = ''/usr/bin/nc''\<rparr>"

lemma regular_contact_is_beacon_witness:
  "85 \<le> score_track exact_fp (fold (\<lambda>k. see_conn exact_fp (1000 + 2 * int k)) [0..<5]
     (new_track small_limits (sample_conn ''10.0.0.1'' 443 1000)))"
  using regular_contact_is_beacon[OF exact_fp_ok, of 2 5 small_limits "sample_conn ''10.0.0.1'' 443 1000"]
  by (simp add: sample_conn_def small_limits_def cstr_copy_def is_browser_exe_def)

subsection \<open>SYN scans\<close>

lemma syn_fold:
  assumes "\<forall>ev\<in>set syns. ce_seen_at ev - sy_window t \<le> 30" "syn_ok t" "set (sy_keys t) = K"
    "card K \<le> 64"
  shows "let u = fold syn_step syns t in
    sy_count u = sy_count t + length syns \<and> sy_window u = sy_window t \<and> sy_exe u = sy_exe t
    \<and> sy_alerted u = sy_alerted t
    \<and> length (sy_keys u) = min 64 (card (K \<union> target_key ` set syns))"
  using assms
proof (induction syns arbitrary: t K)
  case Nil
  then have "distinct (sy_keys t)" "set (sy_keys t) = K" by (simp_all add: syn_ok_def)
  from distinct_card[OF this(1)] this(2) have "length (sy_keys t) = card K" by simp
  with Nil show ?case by simp
next
  case (Cons ev syns)
  let ?t = "syn_step ev t" and ?k = "target_key ev"
  have w: "open_window (ce_seen_at ev) t = t" using Cons.prems(1) by (simp add: open_window_def)
  have f: "sy_count ?t = Suc (sy_count t)" "sy_window ?t = sy_window t" "sy_exe ?t = sy_exe t"
    "sy_alerted ?t = sy_alerted t"
    "sy_keys ?t = (if ?k \<notin> K \<and> length (sy_keys t) < 64 then sy_keys t @ [?k] else sy_keys t)"
    using Cons.prems(3) by (simp_all add: syn_step_def w count_syn_def Let_def)
  have ok: "syn_ok ?t" using syn_step_ok[OF Cons.prems(2)] by blast
  have "distinct (sy_keys t)" using Cons.prems(2) by (simp add: syn_ok_def)
  from distinct_card[OF this] have lenK: "length (sy_keys t) = card K" unfolding Cons.prems(3) by simp
  have fin: "finite K" using Cons.prems(3) by auto
  define K' where "K' = set (sy_keys ?t)"
  have K': "card K' \<le> 64" using ok by (simp add: K'_def syn_ok_def distinct_card)
  have IH: "let u = fold syn_step syns ?t in sy_count u = sy_count ?t + length syns \<and> sy_window u = sy_window ?t
    \<and> sy_exe u = sy_exe ?t \<and> sy_alerted u = sy_alerted ?t
    \<and> length (sy_keys u) = min 64 (card (K' \<union> target_key ` set syns))"
    by (rule Cons.IH) (use Cons.prems(1) f(2) ok K' in \<open>simp_all add: K'_def\<close>)
  have "min 64 (card (K' \<union> target_key ` set syns)) = min 64 (card (K \<union> target_key ` set (ev # syns)))"
  proof (cases "?k \<notin> K \<and> length (sy_keys t) < 64 \<or> ?k \<in> K")
    case True
    then have "K' \<union> target_key ` set syns = K \<union> target_key ` set (ev # syns)"
      using f(5) Cons.prems(3) by (auto simp: K'_def)
    then show ?thesis by simp
  next
    case False
    then have "K' = K" and "card K = 64" using f(5) Cons.prems(3,4) lenK by (auto simp: K'_def)
    have mono: "card K \<le> card (K \<union> A)" if "finite A" for A :: "string set"
      using that fin by (intro card_mono) auto
    from \<open>K' = K\<close> \<open>card K = 64\<close> mono[of "target_key ` set syns"] mono[of "target_key ` set (ev # syns)"]
    show ?thesis by (simp add: min_def)
  qed
  then show ?case using IH f by (simp add: Let_def)
qed

text \<open>
  C15. What the scan detector decides: for SYNs of one process within 30 seconds of the first one, the track
  counts every SYN and the number of different targets, as long as there are at most 64, and the alarm
  is raised exactly when there were 30 SYNs or more to 20 targets or more (80 and 48 for the path of a
  browser).
\<close>

theorem syn_alarm_spec:
  assumes "\<forall>ev\<in>set syns. ce_seen_at ev - now \<le> 30"
  shows "let t = \<lparr>sy_pid = pid, sy_exe = exe, sy_window = now, sy_count = 0, sy_keys = [], sy_alerted = False\<rparr>;
             u = fold syn_step syns t; targets = card (target_key ` set syns)
    in sy_count u = length syns \<and> length (sy_keys u) = min 64 targets
     \<and> syn_alarm u = (if is_browser_exe exe then 80 \<le> length syns \<and> 48 \<le> targets
                      else 30 \<le> length syns \<and> 20 \<le> targets)"
proof -
  let ?t = "\<lparr>sy_pid = pid, sy_exe = exe, sy_window = now, sy_count = 0, sy_keys = [], sy_alerted = False\<rparr>"
  have "syn_ok ?t" by (simp add: syn_ok_def)
  from syn_fold[OF _ this, of syns "{}"] assms show ?thesis
    by (auto simp: Let_def syn_alarm_def)
qed

lemma syn_alarm_spec_witness:
  "syn_alarm (fold syn_step (map (\<lambda>i. sample_conn (show_nat i) 80 (1000 + int i)) [0..<31])
     \<lparr>sy_pid = 7, sy_exe = ''/usr/bin/nc'', sy_window = 1000, sy_count = 0, sy_keys = [], sy_alerted = False\<rparr>)"
proof -
  let ?syns = "map (\<lambda>i. sample_conn (show_nat i) 80 (1000 + int i)) [0..<31]"
  have inj: "inj_on (\<lambda>i. target_key (sample_conn (show_nat i) 80 (1000 + int i))) {0..<31}"
  proof (rule inj_onI)
    fix i j :: nat assume r: "i \<in> {0..<31}" "j \<in> {0..<31}"
      and e: "target_key (sample_conn (show_nat i) 80 (1000 + int i)) = target_key (sample_conn (show_nat j) 80 (1000 + int j))"
    have "length (show_nat k @ '':'' @ show_nat 80) < 160" if "k < 31" for k
      using show_nat_length[of k] show_nat_length[of 80] that by simp
    then have "cstr_copy 160 (show_nat k @ '':'' @ show_nat 80) = show_nat k @ '':'' @ show_nat 80" if "k < 31" for k
      using that unfolding cstr_copy_def by (intro take_all) fastforce
    then have "show_nat i @ '':'' @ show_nat 80 = show_nat j @ '':'' @ show_nat 80"
      using r e unfolding target_key_def sample_conn_def by (simp del: append.simps append_same_eq)
    then show "i = j" by (auto intro: show_nat_inj)
  qed
  have "card (target_key ` set ?syns) = 31"
    using card_image[OF inj] by (simp add: image_image)
  moreover have "\<forall>ev\<in>set ?syns. ce_seen_at ev - 1000 \<le> 30" by (auto simp: sample_conn_def)
  moreover have "\<not> is_browser_exe ''/usr/bin/nc''" by (simp add: is_browser_exe_def)
  ultimately show ?thesis using syn_alarm_spec[of ?syns 1000 7 "''/usr/bin/nc''"] by (simp add: Let_def)
qed

subsection \<open>The lines of procfs\<close>

lemma skip_space_pad_left: "skip_space (CHR '' '' # pad_left k v @ r) = skip_space (v @ r)"
  by (simp add: pad_left_def skip_space_pad)

text \<open>Fields with blanks before them, as many as a width asks for.\<close>

definition fields :: "(nat \<times> string) list \<Rightarrow> string" where
  "fields fs = concat (map (\<lambda>(k, v). CHR '' '' # pad_left k v) fs)"

lemma skip_words_fields:
  assumes "list_all (\<lambda>(k, v). word_text v) fs" "r = [] \<or> isspace (hd r)"
  shows "skip_words (length fs) (fields fs @ r) = Some r"
  using assms(1)
proof (induction fs)
  case (Cons f fs)
  obtain k v where f: "f = (k, v)" by (cases f)
  then have v: "word_text v" using Cons.prems by simp
  have "isspace (hd (fields fs @ r)) \<or> fields fs @ r = []"
    using assms(2) by (cases fs) (auto simp: fields_def split: prod.splits)
  then have "skip_word (CHR '' '' # pad_left k v @ fields fs @ r) = Some (fields fs @ r)"
    using v by (intro skip_word_text[OF v]) (auto simp: skip_space_pad_left skip_space_word_text)
  with Cons f show ?case by (simp add: fields_def)
qed (simp add: fields_def)

lemma scan_ulong_nat:
  assumes "n < 2 ^ 64" "r = [] \<or> \<not> isdigit (hd r)"
  shows "scan_ulong (CHR '' '' # show_nat n @ r) = Some (n, r)"
proof -
  have "scan_int (CHR '' '' # show_nat n @ r) = scan_int (show_nat n @ r)" by (simp add: scan_int_def)
  then show ?thesis using assms by (simp add: scan_ulong_def scan_int_nat clamp_ulong_def)
qed

text \<open>
  A line of \<open>/proc/net/raw\<close> as \<open>raw_sock_seq_show\<close> of the kernel prints it, and of \<open>/proc/net/raw6\<close>, where the
  slot has one column more:
  \<open>"%4d: %08X:%04X %08X:%04X %02X %08X:%08X %02X:%08lX %08X %5u %8d %lu %d %pK %u"\<close>. The six fields behind the slot
  are addresses, state, queues, timer and retransmits; then come user, timeout, inode, reference count, pointer and
  drops.
\<close>

definition raw_socket_line ::
  "nat \<Rightarrow> nat \<Rightarrow> string list \<Rightarrow> nat \<Rightarrow> nat \<Rightarrow> nat \<Rightarrow> nat \<Rightarrow> string \<Rightarrow> nat \<Rightarrow> string" where
  "raw_socket_line width slot cols uid timeout inode refs ptr drops =
     pad_left width (show_nat slot) @ '':'' @ concat (map (\<lambda>v. '' '' @ v) cols)
     @ '' '' @ pad_left 5 (show_nat uid) @ '' '' @ pad_left 8 (show_nat timeout) @ '' '' @ show_nat inode
     @ '' '' @ show_nat refs @ '' '' @ ptr @ '' '' @ show_nat drops @ [newline]"

text \<open>
  C39. The scan of raw sockets looks for the owner of the wrong number: ten fields are skipped before the
  number it takes for the inode, but the inode is the tenth field of \<open>/proc/net/raw\<close> and \<open>/proc/net/raw6\<close>,
  so of every line the kernel prints it reads the reference count that stands behind the inode, whatever the
  other fields are.
\<close>

theorem raw_scan_reads_refcount:
  assumes "length cols = 6" "list_all word_text cols" "refs < 2 ^ 64"
  shows "raw_line_inode (raw_socket_line width slot cols uid timeout inode refs ptr drops) = refs"
proof -
  let ?rest = "'' '' @ ptr @ '' '' @ show_nat drops @ [newline]"
  let ?fs = "map (\<lambda>v. (0 :: nat, v)) cols @ [(5, show_nat uid), (8, show_nat timeout), (0, show_nat inode)]"
  let ?r = "fields ?fs @ '' '' @ show_nat refs @ ?rest"
  have cols: "concat (map (\<lambda>v. '' '' @ v) cols) = fields (map (\<lambda>v. (0, v)) cols)"
    by (simp add: fields_def pad_left_def o_def)
  have line: "raw_socket_line width slot cols uid timeout inode refs ptr drops = pad_left width (show_nat slot) @ '':'' @ ?r"
    unfolding raw_socket_line_def cols by (simp add: fields_def pad_left_def)
  have v: "word_text (show_nat slot @ '':'')"
    using show_nat_word[of slot] by (simp add: word_text_def isspace_def chr_code_def)
  have "isspace (hd ?r)" by (cases cols) (simp_all add: fields_def)
  then have w1: "skip_word (pad_left width (show_nat slot) @ '':'' @ ?r) = Some ?r"
    using skip_space_word_text[OF v, of ?r] by (intro skip_word_text[OF v]) (simp_all add: pad_left_def skip_space_pad)
  have "list_all (\<lambda>(k, v). word_text v) ?fs" using assms(2) show_nat_word by (simp add: list.pred_map o_def)
  then have w2: "skip_words (length ?fs) ?r = Some ('' '' @ show_nat refs @ ?rest)"
    by (rule skip_words_fields) simp
  have "length ?fs = 9" using assms(1) by simp
  with w1 w2 have "skip_words (Suc 9) (pad_left width (show_nat slot) @ '':'' @ ?r) = Some ('' '' @ show_nat refs @ ?rest)"
    by (simp only: skip_words.simps bind.simps)
  then have "skip_words 10 (raw_socket_line width slot cols uid timeout inode refs ptr drops) = Some ('' '' @ show_nat refs @ ?rest)"
    unfolding line by simp
  then show ?thesis using scan_ulong_nat[OF assms(3), of ?rest]
    by (simp add: raw_line_inode_def isdigit_def chr_code_def del: skip_words.simps)
qed

text \<open>A line of a real table: the inode is 4711, the count 2.\<close>

lemma raw_scan_reads_refcount_witness:
  "raw_line_inode (''   1: 00000000:0001 00000000:0000 07 00000000:00000000 00:00000000 00000000     0        0 4711 2 00000000f3a1c2d4 0'' @ [newline]) = 2"
proof -
  let ?cols = "[''00000000:0001'', ''00000000:0000'', ''07'', ''00000000:00000000'', ''00:00000000'', ''00000000'']"
  have R: "replicate 3 (CHR '' '') = ''   ''" "replicate 4 (CHR '' '') = ''    ''" "replicate 7 (CHR '' '') = ''       ''"
    by code_simp+
  have "raw_socket_line 4 1 ?cols 0 0 4711 2 ''00000000f3a1c2d4'' 0
      = ''   1: 00000000:0001 00000000:0000 07 00000000:00000000 00:00000000 00000000     0        0 4711 2 00000000f3a1c2d4 0'' @ [newline]"
    by (simp add: raw_socket_line_def pad_left_def show_nat_def show_base.simps digit_char_def R)
  moreover have "list_all word_text ?cols" by (simp add: word_text_def isspace_def chr_code_def)
  ultimately show ?thesis
    using raw_scan_reads_refcount[of ?cols 2 4 1 0 0 4711 "''00000000f3a1c2d4''" 0] by simp
qed

subsection \<open>From a socket to a case\<close>

lemma report_packet_opens:
  assumes "limits_ok L" "pread_ok w" "\<And>t p. env_mkdir w t p" "case_dir_fits L w cfg (io_pid ow)" "0 < io_pid ow"
    "whitelist_off cfg" "threshold_or 60 cfg \<le> 90" "report_packet L w cfg ow inode s = Some s'" "\<not> tables_full s'"
  shows "rw_case_has (io_pid ow) s'"
proof -
  let ?m = "''pid='' @ show_int (io_pid ow) @ '' exe='' @ io_exe ow @ '' inode='' @ show_nat inode"
  obtain s1 where s1: "score_add L w cfg (io_pid ow) None (Some (io_exe ow)) ''PACKET_SOCKET'' ''packet/raw capture socket'' 95
      (rw_log_alert L w (''packet socket detected '' @ ?m) s) = Some s1"
    and rest: "case_detail L w cfg (io_pid ow) 95 ''PACKET_SOCKET_DETAIL''
        (''exe='' @ io_exe ow @ '' inode='' @ show_nat inode) s1 \<bind> (\<lambda>s2.
      Some (if logs_raw cfg then rw_log_network L w (''packet_socket '' @ ?m) s2 else s2) \<bind> (\<lambda>s3.
      if stops cfg then stop_process L w cfg (io_pid ow) ''packet-socket'' ''raw/packet socket'' True s3 else Some s3)) = Some s'"
    using assms(8) unfolding report_packet_def Let_def by (auto elim: Option.bind_eq_Some_conv[THEN iffD1, THEN exE])
  have "runs L w s1 (Some s')" unfolding rest[symmetric] by (intro runs_intros assms(1))
  then have g: "tables_grow s1 s'" by (auto simp: runs_def intro: sys_grows_tables)
  have "default_floor_for_finding (Some ''PACKET_SOCKET'') (Some ''packet/raw capture socket'') 95 = 90" by code_simp
  with score_add_opens[OF assms(1-5) _ assms(6) _ s1 tables_grow_room[OF g assms(9)]] assms(7)
  have "rw_case_has (io_pid ow) s1" by simp
  with g show ?thesis by (rule tables_grow_has)
qed

lemma runs_raw_alerts: "runs L w s (Some s') \<Longrightarrow> raw_alerts s' = raw_alerts s"
  by (cases s; cases s') (simp add: runs_def sys_grows_def)

lemma raw_alert_seen_eq:
  "raw_alert_seen pid inode s = (seen, s1) \<Longrightarrow> seen = ((pid, inode) \<in> set (raw_alerts s)) \<and> tables_grow s s1
     \<and> set (raw_alerts s1) \<subseteq> insert (pid, inode) (set (raw_alerts s))"
  by (auto simp: raw_alert_seen_def tables_grow_def split: if_splits)

text \<open>Every line whose socket is new is reported, and what one report has opened stays open.\<close>

lemma socket_lines_open:
  assumes "\<And>ow inode s s'. rep ow inode s = Some s' \<Longrightarrow> runs L w s (Some s')"
    "\<And>ow inode s s'. P ow \<Longrightarrow> rep ow inode s = Some s' \<Longrightarrow> \<not> tables_full s' \<Longrightarrow> rw_case_has (io_pid ow) s'"
  shows "socket_lines f rep owners ls s = Some s' \<Longrightarrow> tables_grow s s' \<and> (\<not> tables_full s' \<longrightarrow>
    (\<forall>l\<in>set ls. \<forall>ow. f l \<noteq> 0 \<and> find_owner_by_inode owners (f l) = Some ow \<and> P ow
       \<and> (io_pid ow, f l) \<notin> set (raw_alerts s) \<longrightarrow> rw_case_has (io_pid ow) s'))"
proof (induction ls arbitrary: s)
  case (Cons l ls)
  show ?case
  proof (cases "f l = 0 \<or> find_owner_by_inode owners (f l) = None")
    case True
    with Cons.prems have "socket_lines f rep owners ls s = Some s'" by (auto simp: Let_def split: if_splits)
    from Cons.IH[OF this] True show ?thesis by auto
  next
    case False
    then obtain ow where ow: "f l \<noteq> 0" "find_owner_by_inode owners (f l) = Some ow" by auto
    obtain seen s1 where s1: "raw_alert_seen (io_pid ow) (f l) s = (seen, s1)" by fastforce
    note seen = raw_alert_seen_eq[OF s1]
    show ?thesis
    proof (cases seen)
      case True
      with s1 have "s1 = s" by (auto simp: raw_alert_seen_def split: if_splits)
      with Cons.prems ow s1 True have "socket_lines f rep owners ls s = Some s'" by (simp add: Let_def)
      from Cons.IH[OF this] True ow seen show ?thesis by auto
    next
      case False
      with Cons.prems ow s1 obtain s2 where s2: "rep ow (f l) s1 = Some s2" "socket_lines f rep owners ls s2 = Some s'"
        by (auto simp: Let_def Option.bind_eq_Some_conv)
      note r = assms(1)[OF s2(1)]
      have g: "tables_grow s1 s2" using r by (auto simp: runs_def intro: sys_grows_tables)
      note IH = Cons.IH[OF s2(2)]
      have has: "rw_case_has (io_pid ow) s'" if "P ow" "\<not> tables_full s'"
        using assms(2)[OF that(1) s2(1)] tables_grow_room tables_grow_has IH that(2) by blast
      have old: "(io_pid o', f l') \<notin> set (raw_alerts s2) \<or> io_pid o' = io_pid ow \<and> f l' = f l"
        if "(io_pid o', f l') \<notin> set (raw_alerts s)" for o' l'
        using that seen runs_raw_alerts[OF r] by auto
      have "tables_grow s s'" using seen g IH by (blast intro: tables_grow_trans)
      moreover have "rw_case_has (io_pid o') s'"
        if "\<not> tables_full s'" "l' \<in> set (l # ls)" "f l' \<noteq> 0" "find_owner_by_inode owners (f l') = Some o'" "P o'"
          "(io_pid o', f l') \<notin> set (raw_alerts s)" for l' o'
      proof (cases "f l' = f l")
        case True
        with that ow has show ?thesis by auto
      next
        case False
        then have "l' \<in> set ls" using that(2) by auto
        with IH old[OF that(6)] False that show ?thesis by blast
      qed
      ultimately show ?thesis by blast
    qed
  qed
qed simp

text \<open>
  A line of \<open>/proc/net/packet\<close> as \<open>packet_seq_show\<close> of the kernel prints it: some columns, then the inode with
  \<open>%-6lu\<close>, that is with blanks behind it up to six columns.
\<close>

definition packet_line :: "string \<Rightarrow> nat \<Rightarrow> string" where
  "packet_line cols inode = cols @ '' '' @ show_nat inode @ replicate (6 - length (show_nat inode)) (CHR '' '')"

lemma tokens_append: "tok_sep c \<Longrightarrow> tokens (u @ c # v) = tokens u @ tokens v"
proof (induction u rule: tokens.induct)
  case (1 u)
  let ?n = "\<lambda>c. \<not> tok_sep c"
  have d: "dropWhile tok_sep (u @ c # v) = (if dropWhile tok_sep u = [] then dropWhile tok_sep v else dropWhile tok_sep u @ c # v)"
    using 1(2) by (induction u) auto
  show ?case
  proof (cases "dropWhile tok_sep u = []")
    case True
    then have "tokens (u @ c # v) = tokens v" using d by (subst (1 2) tokens.simps) simp
    with True show ?thesis by (simp add: tokens.simps[of u])
  next
    case False
    let ?r = "dropWhile tok_sep u"
    have t: "takeWhile ?n (r @ c # v) = takeWhile ?n r" for r using 1(2) by (induction r) auto
    have e: "dropWhile ?n (r @ c # v) = dropWhile ?n r @ c # v" for r using 1(2) by (induction r) auto
    have "tokens (u @ c # v) = takeWhile ?n ?r # tokens (dropWhile ?n ?r @ c # v)"
      by (subst tokens.simps) (simp only: d False if_False Let_def t e append_is_Nil_conv list.distinct simp_thms)
    also have "\<dots> = takeWhile ?n ?r # tokens (dropWhile ?n ?r) @ tokens v"
      using 1(1)[OF refl False 1(2)] by simp
    also have "\<dots> = tokens u @ tokens v" using False by (subst (2) tokens.simps) (simp add: Let_def)
    finally show ?thesis .
  qed
qed

lemma tokens_number:
  assumes "list_all tok_sep r"
  shows "tokens (show_nat n @ r) = [show_nat n]"
proof -
  have d: "list_all isdigit (show_nat n)" using show_nat_digits[of n] by (simp add: show_nat_def)
  then have t: "list_all (\<lambda>c. \<not> tok_sep c) (show_nat n)"
    by (auto simp: list_all_iff tok_sep_def isdigit_def chr_code_def newline_def)
  have e: "tokens r = []" using assms by (subst tokens.simps) (simp add: list_all_iff)
  have "takeWhile (\<lambda>c. \<not> tok_sep c) (show_nat n @ r) = show_nat n \<and> dropWhile (\<lambda>c. \<not> tok_sep c) (show_nat n @ r) = r"
    using assms by (intro takeWhile_stop[OF t]) (cases r, auto)
  moreover have "dropWhile tok_sep (show_nat n @ r) = show_nat n @ r"
    using t show_nat_not_Nil[of n] by (cases "show_nat n") auto
  ultimately show ?thesis using e by (subst tokens.simps) (simp add: Let_def)
qed

lemma last_number_packet_line:
  assumes "inode < 2 ^ 64"
  shows "last_number (packet_line cols inode @ [newline]) = inode"
proof -
  have "packet_line cols inode @ [newline] = cols @ CHR '' '' # show_nat inode @ replicate (6 - length (show_nat inode)) (CHR '' '') @ [newline]"
    by (simp add: packet_line_def)
  then have "tokens (packet_line cols inode @ [newline]) = tokens cols @ [show_nat inode]"
    using tokens_number[of "replicate (6 - length (show_nat inode)) (CHR '' '') @ [newline]" inode]
    by (simp add: tokens_append tok_sep_def list_all_iff)
  moreover have "token_number (show_nat inode) = Some inode"
    using assms scan_int_nat[of "[]" inode] by (simp add: token_number_def scan_ulong_def clamp_ulong_def)
  ultimately show ?thesis by (simp add: last_number_def)
qed

lemma packet_line_fits:
  assumes "newline \<notin> set cols" "CHR 0x00 \<notin> set cols" "length cols \<le> 1000" "0 < inode \<and> inode < 2 ^ 64"
  shows "newline \<notin> set (packet_line cols inode) \<and> CHR 0x00 \<notin> set (packet_line cols inode)
    \<and> length (packet_line cols inode) + 1 < 1024"
proof -
  have d: "list_all isdigit (show_nat inode)" using show_nat_digits[of inode] by (simp add: show_nat_def)
  have "length (show_nat inode) \<le> 20" unfolding show_nat_def using assms(4) by (intro show_base_length) simp_all
  moreover have "newline \<notin> set (show_nat inode)" "CHR 0x00 \<notin> set (show_nat inode)"
    using d by (auto simp: list_all_iff isdigit_def chr_code_def newline_def)
  ultimately show ?thesis using assms(1-3) by (auto simp: packet_line_def newline_def)
qed

lemma find_owner_first:
  "\<forall>o'\<in>set before. io_inode o' \<noteq> inode \<Longrightarrow> io_inode ow = inode \<Longrightarrow>
   find_owner_by_inode (before @ ow # behind) inode = Some ow"
  by (induction before) (auto simp: find_owner_by_inode_def)

text \<open>
  C5. The owner of a packet socket gets a case: when \<open>/proc/net/packet\<close> reads as the kernel prints it, a heading and
  a line for each socket, the scan returns, and then for every socket that is listed the process that the list
  of owners names first for it has a case, unless that pair was reported before, as long as neither table is full at
  the end. Side conditions: memory reads of a scan end (\<open>pread_ok\<close>), owners have pids above zero and case directories
  that fit the path limit and can be made, the whitelist is off, the threshold is 90 at most, the columns of a line
  have at most 1000 bytes, none a newline or NUL, and inodes are above zero and fit 64 bits. How often a socket is
  listed, and what else the scan finds, does not matter. A second process that shares the socket is not looked at.
\<close>

theorem packet_sockets_open_cases:
  assumes "limits_ok L" "pread_ok w" "\<And>t p. env_mkdir w t p"
    "\<And>ow. ow \<in> set owners \<Longrightarrow> 0 < io_pid ow \<and> case_dir_fits L w cfg (io_pid ow)"
    "whitelist_off cfg" "threshold_or 60 cfg \<le> 90"
    "fst (sys_read w ''/proc/net/packet'' s)
       = Some (concat (map (\<lambda>l. l @ [newline]) (heading # map (\<lambda>(cols, inode). packet_line cols inode) sockets)))"
    "\<And>l. l \<in> set (heading # map fst sockets) \<Longrightarrow> newline \<notin> set l \<and> CHR 0x00 \<notin> set l \<and> length l \<le> 1000"
    "\<And>cols inode. (cols, inode) \<in> set sockets \<Longrightarrow> 0 < inode \<and> inode < 2 ^ 64"
  shows "\<exists>s'. scan_packet_file L w cfg owners s = Some s' \<and> (tables_full s' \<or>
    (\<forall>cols inode before ow behind. (cols, inode) \<in> set sockets \<and> owners = before @ ow # behind
       \<and> io_inode ow = inode \<and> (\<forall>o'\<in>set before. io_inode o' \<noteq> inode)
       \<and> (io_pid ow, inode) \<notin> set (raw_alerts s) \<longrightarrow> rw_case_has (io_pid ow) s'))"
proof -
  let ?s = "snd (sys_read w ''/proc/net/packet'' s)"
  let ?ls = "map (\<lambda>(cols, inode). packet_line cols inode @ [newline]) sockets"
  have lines: "tl (fgets_lines 1024 (concat (map (\<lambda>l. l @ [newline]) (heading # map (\<lambda>(cols, inode). packet_line cols inode) sockets)))) = ?ls"
  proof (subst fgets_lines_whole)
    have "newline \<notin> set l \<and> CHR 0x00 \<notin> set l \<and> length l + 1 < 1024"
      if l: "l \<in> set (heading # map (\<lambda>(cols, inode). packet_line cols inode) sockets)" for l
    proof (cases "l = heading")
      case True
      with assms(8)[of heading] show ?thesis by simp
    next
      case False
      with l obtain cols inode where c: "l = packet_line cols inode" "(cols, inode) \<in> set sockets" by auto
      then have "cols \<in> set (heading # map fst sockets)" by force
      with assms(8)[OF this] assms(9)[OF c(2)] show ?thesis unfolding c(1) by (intro packet_line_fits) simp_all
    qed
    then show "\<forall>l\<in>set (heading # map (\<lambda>(cols, inode). packet_line cols inode) sockets).
        newline \<notin> set l \<and> CHR 0x00 \<notin> set l \<and> length l + 1 < 1024" by blast
  qed (simp add: split_beta o_def)
  have eq: "scan_packet_file L w cfg owners s = socket_lines last_number (report_packet L w cfg) owners ?ls ?s"
    using assms(7) by (simp add: scan_packet_file_def scan_socket_file_def Let_def split_beta flip: lines)
  have "net_runs L w ?s (scan_packet_file L w cfg owners s)"
    unfolding eq by (intro socket_lines_runs net_runs_reports net_keeps_refl assms(1))
  then obtain s' where s': "scan_packet_file L w cfg owners s = Some s'" using assms(2) by (auto simp: net_runs_def)
  have "raw_alerts ?s = raw_alerts s" by (simp add: sys_read_def tick_def)
  moreover have "io_pid ow > 0 \<and> case_dir_fits L w cfg (io_pid ow)" if "find_owner_by_inode owners n = Some ow" for ow n
    using assms(4) that by (auto simp: find_owner_by_inode_def find_Some_iff)
  ultimately have opened: "tables_full s' \<or> (\<forall>l\<in>set ?ls. \<forall>ow. last_number l \<noteq> 0
       \<and> find_owner_by_inode owners (last_number l) = Some ow
       \<and> (io_pid ow, last_number l) \<notin> set (raw_alerts s) \<longrightarrow> rw_case_has (io_pid ow) s')"
    using socket_lines_open[where P = "\<lambda>ow. 0 < io_pid ow \<and> case_dir_fits L w cfg (io_pid ow)", OF _ _ s'[unfolded eq]]
      report_socket_runs(2)[OF assms(1) sys_grows_refl] report_packet_opens[OF assms(1-3) _ _ assms(5,6)]
    by metis
  have "rw_case_has (io_pid ow) s'" if "\<not> tables_full s'" "(cols, inode) \<in> set sockets" "owners = before @ ow # behind"
    "io_inode ow = inode" "\<forall>o'\<in>set before. io_inode o' \<noteq> inode" "(io_pid ow, inode) \<notin> set (raw_alerts s)"
    for cols inode before ow behind
  proof -
    have "packet_line cols inode @ [newline] \<in> set ?ls" using that(2) by force
    moreover have "last_number (packet_line cols inode @ [newline]) = inode"
      using assms(9)[OF that(2)] by (simp add: last_number_packet_line)
    moreover have "find_owner_by_inode owners inode = Some ow"
      using that(4,5) by (simp add: that(3) find_owner_first)
    ultimately show ?thesis using opened that assms(9)[OF that(2)] by (metis less_irrefl)
  qed
  with s' show ?thesis by blast
qed

definition packet_os :: os where
  "packet_os = idle_os\<lparr>env_read := (\<lambda>t p. if p = ''/proc/net/packet''
     then Some (''sk               RefCnt Type Proto  Iface R Rmem   User   Inode'' @ newline
       # ''ffff9a3f41d2b800 3      3    0003   2     1 0      0      4711  '' @ [newline])
     else None)\<rparr>"

definition packet_owner :: inode_owner where
  "packet_owner = \<lparr>io_pid = 7, io_inode = 4711, io_exe = ''/usr/bin/tcpdump''\<rparr>"

lemma packet_sockets_open_cases_witness:
  "\<exists>s'. scan_packet_file small_limits packet_os None [packet_owner] (net_start packet_os) = Some s'
     \<and> (tables_full s' \<or> rw_case_has 7 s')"
proof -
  let ?head = "''sk               RefCnt Type Proto  Iface R Rmem   User   Inode''"
    and ?cols = "''ffff9a3f41d2b800 3      3    0003   2     1 0      0     ''"
  have n: "show_nat 4711 = ''4711''" by (simp add: show_nat_def show_base.simps digit_char_def)
  have line: "packet_line ?cols 4711 = ''ffff9a3f41d2b800 3      3    0003   2     1 0      0      4711  ''"
    by (simp add: packet_line_def n numeral_2_eq_2)
  have fresh: "raw_alerts (net_start packet_os) = []" by (simp add: net_start_def sys.defs net.defs)
  have p: "pread_ok packet_os" using idle_pread_ok by (simp add: pread_ok_def packet_os_def)
  have d: "case_dir_fits small_limits packet_os None 7"
    using show_nat_length[of 7] by (simp add: case_dir_fits_def case_base_def packet_os_def idle_os_def small_limits_def show_int_def)
  have read: "fst (sys_read packet_os ''/proc/net/packet'' (net_start packet_os))
      = Some (concat (map (\<lambda>l. l @ [newline]) (?head # map (\<lambda>(cols, inode). packet_line cols inode) [(?cols, 4711)])))"
    by (simp add: line sys_read_def packet_os_def net_start_def sys_start_def event_start_def lineage_start_def logger_start_def
        sys.defs net.defs scoring.defs eventlog.defs lineage.defs logger.defs)
  have "\<exists>s'. scan_packet_file small_limits packet_os None [packet_owner] (net_start packet_os) = Some s' \<and> (tables_full s' \<or>
    (\<forall>cols inode before ow behind. (cols, inode) \<in> set [(?cols, 4711)] \<and> [packet_owner] = before @ ow # behind
       \<and> io_inode ow = inode \<and> (\<forall>o'\<in>set before. io_inode o' \<noteq> inode)
       \<and> (io_pid ow, inode) \<notin> set (raw_alerts (net_start packet_os)) \<longrightarrow> rw_case_has (io_pid ow) s'))"
  proof (rule packet_sockets_open_cases[OF small_limits_ok p _ _ _ _ read])
    show "env_mkdir packet_os t p" for t p by (simp add: packet_os_def idle_os_def)
    show "0 < io_pid ow \<and> case_dir_fits small_limits packet_os None (io_pid ow)" if "ow \<in> set [packet_owner]" for ow
      using that d by (simp add: packet_owner_def)
    show "whitelist_off None" "threshold_or 60 None \<le> 90" by (simp_all add: whitelist_off_def threshold_or_def)
    show "newline \<notin> set l \<and> CHR 0x00 \<notin> set l \<and> length l \<le> 1000" if "l \<in> set (?head # map fst [(?cols, 4711 :: nat)])" for l
      using that by (auto simp: newline_def)
    show "0 < inode \<and> inode < 2 ^ 64" if "(cols, inode) \<in> set [(?cols, 4711 :: nat)]" for cols and inode :: nat
      using that by simp
  qed
  then show ?thesis unfolding fresh by (force simp: packet_owner_def)
qed

end
