(* ===== verification/Bpf.thy ===== *)
theory Bpf
  imports Files
begin

section \<open>The kernel side (\<open>ebpf/signalhunter_ebpf.bpf.c\<close>)\<close>

text \<open>
  The tracepoint programs that feed the ring buffer. A program is a function of what the kernel answers
  to its helpers (\<open>kern\<close>) and of the six arguments of the system call; \<open>Some ev\<close> is an event that it
  submits, \<open>None\<close> a return without one. The struct \<open>rw_bpf_event\<close> is declared twice, here and in
  \<open>platform/ebpfmon.c\<close>; its bytes are \<open>event_bytes\<close>, and \<open>event_of_bytes\<close> is what the other side reads.
  \<open>comm\<close> and \<open>str\<close>, arrays of 16 and 160 bytes, are the C strings in them. The byte order is that of a
  little-endian machine; the big-endian targets that the Makefile knows besides (mips, s390x) are not modelled.
\<close>

definition AF_INET :: nat where "AF_INET = 2"

definition AF_INET6 :: nat where "AF_INET6 = 10"

definition AF_PACKET :: nat where "AF_PACKET = 17"

definition SOCK_RAW :: nat where "SOCK_RAW = 3"

definition IPPROTO_RAW :: nat where "IPPROTO_RAW = 255"

definition PROT_EXEC :: "64 word" where "PROT_EXEC = 4"

definition RW_BPF_EVENT_CONNECT :: "32 word" where "RW_BPF_EVENT_CONNECT = 1"

definition RW_BPF_EVENT_SOCKET :: "32 word" where "RW_BPF_EVENT_SOCKET = 2"

definition RW_BPF_EVENT_SYSCALL :: "32 word" where "RW_BPF_EVENT_SYSCALL = 3"

datatype bpf_kind =
  K_PTRACE | K_PVM_WRITE | K_PVM_READ | K_MPROTECT_EXEC | K_MMAP_EXEC | K_MEMFD_CREATE | K_EXECVE
| K_EXECVEAT | K_CHMOD | K_FCHMODAT | K_UNLINK | K_UNLINKAT

fun kind_code :: "bpf_kind \<Rightarrow> 32 word" where
  "kind_code K_PTRACE = 1"
| "kind_code K_PVM_WRITE = 2"
| "kind_code K_PVM_READ = 3"
| "kind_code K_MPROTECT_EXEC = 4"
| "kind_code K_MMAP_EXEC = 5"
| "kind_code K_MEMFD_CREATE = 6"
| "kind_code K_EXECVE = 7"
| "kind_code K_EXECVEAT = 8"
| "kind_code K_CHMOD = 9"
| "kind_code K_FCHMODAT = 10"
| "kind_code K_UNLINK = 11"
| "kind_code K_UNLINKAT = 12"

record bpf_event =
  be_type :: "32 word"
  be_kind :: "32 word"
  be_pid :: "32 word"
  be_tgid :: "32 word"
  be_family :: "16 word"
  be_port :: "16 word"
  be_sock_type :: "32 word"
  be_protocol :: "32 word"
  be_ipv4 :: "32 word"
  be_ipv6 :: "byte list"
  be_a0 :: "64 word"
  be_a1 :: "64 word"
  be_a2 :: "64 word"
  be_a3 :: "64 word"
  be_comm :: string
  be_str :: string

subsection \<open>Integers in memory\<close>

fun le_bytes :: "nat \<Rightarrow> nat \<Rightarrow> byte list" where
  "le_bytes 0 n = []"
| "le_bytes (Suc k) n = word_of_nat n # le_bytes k (n div 256)"

fun le_val :: "byte list \<Rightarrow> nat" where
  "le_val [] = 0"
| "le_val (b # bs) = unat b + 256 * le_val bs"

definition be_val :: "byte list \<Rightarrow> nat" where
  "be_val bs = le_val (rev bs)"

lemma le_bytes_length [simp]: "length (le_bytes k n) = k"
  by (induction k arbitrary: n) simp_all

lemma le_val_bytes: "n < 256 ^ k \<Longrightarrow> le_val (le_bytes k n) = n"
proof (induction k arbitrary: n)
  case (Suc k)
  have "le_val (le_bytes k (n div 256)) = n div 256"
    by (rule Suc.IH) (use Suc.prems in \<open>simp add: less_mult_imp_div_less\<close>)
  moreover have "unat (word_of_nat n :: byte) = n mod 256" by (simp add: unat_of_nat take_bit_eq_mod)
  ultimately show ?case by simp
qed simp

lemma le_bytes_val: "le_bytes (length bs) (le_val bs) = bs"
proof (induction bs)
  case (Cons b bs)
  have b: "unat b < 256" using unsigned_less[of b, where ?'a = nat] by simp
  have "word_of_nat (unat b + 256 * le_val bs) = b"
  proof -
    have "(256 :: byte) = 0" by simp
    moreover have "word_of_nat (unat b + 256 * le_val bs) = b + 256 * (word_of_nat (le_val bs) :: byte)" by simp
    ultimately show ?thesis by (simp only: mult_zero_left add_0_right)
  qed
  with b Cons show ?case by simp
qed simp

subsection \<open>What a program asks of the kernel\<close>

record kern =
  kn_id :: "64 word"
  kn_comm :: string
  kn_reserve :: bool
  kn_read :: "64 word \<Rightarrow> nat \<Rightarrow> byte list option"
  kn_read_str :: "64 word \<Rightarrow> string option"

text \<open>\<open>bpf_probe_read_user_str\<close> into the array of 160 bytes, which is zero before and after a failure.\<close>

definition user_str :: "kern \<Rightarrow> 64 word \<Rightarrow> string" where
  "user_str k addr = (case kn_read_str k addr of Some t \<Rightarrow> cstr_copy 160 t | None \<Rightarrow> [])"

definition fill_common :: "kern \<Rightarrow> 32 word \<Rightarrow> 32 word \<Rightarrow> bpf_event" where
  "fill_common k event_type kind =
     \<lparr>be_type = event_type, be_kind = kind, be_pid = ucast (kn_id k), be_tgid = ucast (drop_bit 32 (kn_id k)),
      be_family = 0, be_port = 0, be_sock_type = 0, be_protocol = 0, be_ipv4 = 0, be_ipv6 = replicate 16 0,
      be_a0 = 0, be_a1 = 0, be_a2 = 0, be_a3 = 0, be_comm = cstr_copy 16 (kn_comm k), be_str = []\<rparr>"

definition reserve_syscall_event :: "kern \<Rightarrow> bpf_kind \<Rightarrow> bpf_event option" where
  "reserve_syscall_event k kind =
     (if kn_reserve k then Some (fill_common k RW_BPF_EVENT_SYSCALL (kind_code kind)) else None)"

subsection \<open>Sockets\<close>

definition rw_trace_connect :: "kern \<Rightarrow> 64 word list \<Rightarrow> bpf_event option" where
  "rw_trace_connect k args =
     (let uaddr = args ! 1
      in if uaddr = 0 then None
         else case kn_read k uaddr 2 of
           None \<Rightarrow> None
         | Some fb \<Rightarrow>
             (let family = le_val fb
              in if family \<noteq> AF_INET \<and> family \<noteq> AF_INET6 then None
                 else if \<not> kn_reserve k then None
                 else let ev = (fill_common k RW_BPF_EVENT_CONNECT 0)\<lparr>be_family := word_of_nat family\<rparr>
                      in Some (if family = AF_INET
                               then (case kn_read k uaddr 16 of
                                       Some sin \<Rightarrow> ev\<lparr>be_port := word_of_nat (be_val (take 2 (drop 2 sin))),
                                                      be_ipv4 := word_of_nat (le_val (take 4 (drop 4 sin)))\<rparr>
                                     | None \<Rightarrow> ev)
                               else (case kn_read k uaddr 28 of
                                       Some sin6 \<Rightarrow> ev\<lparr>be_port := word_of_nat (be_val (take 2 (drop 2 sin6))),
                                                       be_ipv6 := take 16 (drop 8 sin6)\<rparr>
                                     | None \<Rightarrow> ev))))"

definition rw_trace_socket :: "kern \<Rightarrow> 64 word list \<Rightarrow> bpf_event option" where
  "rw_trace_socket k args =
     (let family = (ucast (args ! 0) :: 32 word);
          sock_type = (ucast (args ! 1) :: 32 word);
          protocol = (ucast (args ! 2) :: 32 word);
          base_type = and sock_type 0xf
      in if base_type \<noteq> word_of_nat SOCK_RAW \<and> family \<noteq> word_of_nat AF_PACKET \<and> protocol \<noteq> word_of_nat IPPROTO_RAW
         then None
         else if \<not> kn_reserve k then None
         else Some ((fill_common k RW_BPF_EVENT_SOCKET 0)
                \<lparr>be_family := ucast family, be_sock_type := sock_type, be_protocol := protocol\<rparr>))"

subsection \<open>Suspicious system calls\<close>

definition rw_trace_ptrace :: "kern \<Rightarrow> 64 word list \<Rightarrow> bpf_event option" where
  "rw_trace_ptrace k args =
     map_option (\<lambda>ev. ev\<lparr>be_a0 := args ! 0, be_a1 := args ! 1\<rparr>) (reserve_syscall_event k K_PTRACE)"

definition rw_trace_process_vm_writev :: "kern \<Rightarrow> 64 word list \<Rightarrow> bpf_event option" where
  "rw_trace_process_vm_writev k args =
     map_option (\<lambda>ev. ev\<lparr>be_a0 := args ! 0, be_a1 := args ! 1, be_a2 := args ! 3\<rparr>)
       (reserve_syscall_event k K_PVM_WRITE)"

definition rw_trace_process_vm_readv :: "kern \<Rightarrow> 64 word list \<Rightarrow> bpf_event option" where
  "rw_trace_process_vm_readv k args =
     map_option (\<lambda>ev. ev\<lparr>be_a0 := args ! 0, be_a1 := args ! 1, be_a2 := args ! 3\<rparr>)
       (reserve_syscall_event k K_PVM_READ)"

definition rw_trace_mprotect :: "kern \<Rightarrow> 64 word list \<Rightarrow> bpf_event option" where
  "rw_trace_mprotect k args =
     (let prot = args ! 2
      in if and prot PROT_EXEC = 0 then None
         else map_option (\<lambda>ev. ev\<lparr>be_a0 := args ! 0, be_a1 := args ! 1, be_a2 := prot\<rparr>)
                (reserve_syscall_event k K_MPROTECT_EXEC))"

definition rw_trace_mmap :: "kern \<Rightarrow> 64 word list \<Rightarrow> bpf_event option" where
  "rw_trace_mmap k args =
     (let prot = args ! 2
      in if and prot PROT_EXEC = 0 then None
         else map_option (\<lambda>ev. ev\<lparr>be_a0 := args ! 0, be_a1 := args ! 1, be_a2 := prot, be_a3 := args ! 3,
                                  be_protocol := ucast (args ! 4)\<rparr>)
                (reserve_syscall_event k K_MMAP_EXEC))"

definition rw_trace_memfd_create :: "kern \<Rightarrow> 64 word list \<Rightarrow> bpf_event option" where
  "rw_trace_memfd_create k args =
     map_option (\<lambda>ev. ev\<lparr>be_a0 := args ! 1, be_str := user_str k (args ! 0)\<rparr>)
       (reserve_syscall_event k K_MEMFD_CREATE)"

definition rw_trace_execve :: "kern \<Rightarrow> 64 word list \<Rightarrow> bpf_event option" where
  "rw_trace_execve k args =
     map_option (\<lambda>ev. ev\<lparr>be_str := user_str k (args ! 0)\<rparr>) (reserve_syscall_event k K_EXECVE)"

definition rw_trace_execveat :: "kern \<Rightarrow> 64 word list \<Rightarrow> bpf_event option" where
  "rw_trace_execveat k args =
     map_option (\<lambda>ev. ev\<lparr>be_a0 := args ! 4, be_str := user_str k (args ! 1)\<rparr>) (reserve_syscall_event k K_EXECVEAT)"

definition rw_trace_chmod :: "kern \<Rightarrow> 64 word list \<Rightarrow> bpf_event option" where
  "rw_trace_chmod k args =
     map_option (\<lambda>ev. ev\<lparr>be_a0 := args ! 1, be_str := user_str k (args ! 0)\<rparr>) (reserve_syscall_event k K_CHMOD)"

definition rw_trace_fchmodat :: "kern \<Rightarrow> 64 word list \<Rightarrow> bpf_event option" where
  "rw_trace_fchmodat k args =
     map_option (\<lambda>ev. ev\<lparr>be_a0 := args ! 2, be_str := user_str k (args ! 1)\<rparr>) (reserve_syscall_event k K_FCHMODAT)"

definition rw_trace_unlink :: "kern \<Rightarrow> 64 word list \<Rightarrow> bpf_event option" where
  "rw_trace_unlink k args =
     map_option (\<lambda>ev. ev\<lparr>be_str := user_str k (args ! 0)\<rparr>) (reserve_syscall_event k K_UNLINK)"

definition rw_trace_unlinkat :: "kern \<Rightarrow> 64 word list \<Rightarrow> bpf_event option" where
  "rw_trace_unlinkat k args =
     map_option (\<lambda>ev. ev\<lparr>be_str := user_str k (args ! 1)\<rparr>) (reserve_syscall_event k K_UNLINKAT)"

text \<open>The tracepoint each program is attached to (its \<open>SEC\<close> annotation).\<close>

definition bpf_programs :: "(string \<times> (kern \<Rightarrow> 64 word list \<Rightarrow> bpf_event option)) list" where
  "bpf_programs =
     [(''sys_enter_connect'', rw_trace_connect), (''sys_enter_socket'', rw_trace_socket),
      (''sys_enter_ptrace'', rw_trace_ptrace), (''sys_enter_process_vm_writev'', rw_trace_process_vm_writev),
      (''sys_enter_process_vm_readv'', rw_trace_process_vm_readv), (''sys_enter_mprotect'', rw_trace_mprotect),
      (''sys_enter_mmap'', rw_trace_mmap), (''sys_enter_memfd_create'', rw_trace_memfd_create),
      (''sys_enter_execve'', rw_trace_execve), (''sys_enter_execveat'', rw_trace_execveat),
      (''sys_enter_chmod'', rw_trace_chmod), (''sys_enter_fchmodat'', rw_trace_fchmodat),
      (''sys_enter_unlink'', rw_trace_unlink), (''sys_enter_unlinkat'', rw_trace_unlinkat)]"

subsection \<open>The bytes of an event\<close>

definition str_field :: "nat \<Rightarrow> string \<Rightarrow> byte list" where
  "str_field n s = str_bytes s @ replicate (n - length s) 0"

definition field_str :: "byte list \<Rightarrow> string" where
  "field_str bs = c_str (bytes_str bs)"

definition event_bytes :: "bpf_event \<Rightarrow> byte list" where
  "event_bytes ev =
     le_bytes 4 (unat (be_type ev)) @ le_bytes 4 (unat (be_kind ev)) @ le_bytes 4 (unat (be_pid ev))
     @ le_bytes 4 (unat (be_tgid ev)) @ le_bytes 2 (unat (be_family ev)) @ le_bytes 2 (unat (be_port ev))
     @ le_bytes 4 (unat (be_sock_type ev)) @ le_bytes 4 (unat (be_protocol ev)) @ le_bytes 4 (unat (be_ipv4 ev))
     @ be_ipv6 ev
     @ le_bytes 8 (unat (be_a0 ev)) @ le_bytes 8 (unat (be_a1 ev)) @ le_bytes 8 (unat (be_a2 ev))
     @ le_bytes 8 (unat (be_a3 ev)) @ str_field 16 (be_comm ev) @ str_field 160 (be_str ev)"

text \<open>Reading a field of the struct: \<open>n\<close> bytes at an offset.\<close>

definition field_at :: "nat \<Rightarrow> nat \<Rightarrow> byte list \<Rightarrow> byte list" where
  "field_at off n bs = take n (drop off bs)"

definition event_of_bytes :: "byte list \<Rightarrow> bpf_event" where
  "event_of_bytes bs =
     \<lparr>be_type = word_of_nat (le_val (field_at 0 4 bs)), be_kind = word_of_nat (le_val (field_at 4 4 bs)),
      be_pid = word_of_nat (le_val (field_at 8 4 bs)), be_tgid = word_of_nat (le_val (field_at 12 4 bs)),
      be_family = word_of_nat (le_val (field_at 16 2 bs)), be_port = word_of_nat (le_val (field_at 18 2 bs)),
      be_sock_type = word_of_nat (le_val (field_at 20 4 bs)), be_protocol = word_of_nat (le_val (field_at 24 4 bs)),
      be_ipv4 = word_of_nat (le_val (field_at 28 4 bs)), be_ipv6 = field_at 32 16 bs,
      be_a0 = word_of_nat (le_val (field_at 48 8 bs)), be_a1 = word_of_nat (le_val (field_at 56 8 bs)),
      be_a2 = word_of_nat (le_val (field_at 64 8 bs)), be_a3 = word_of_nat (le_val (field_at 72 8 bs)),
      be_comm = field_str (field_at 80 16 bs), be_str = field_str (field_at 96 160 bs)\<rparr>"

definition sizeof_bpf_event :: nat where
  "sizeof_bpf_event = 256"

subsection \<open>What the programs submit\<close>

definition plain_str :: "nat \<Rightarrow> string \<Rightarrow> bool" where
  "plain_str n s \<longleftrightarrow> length s < n \<and> CHR 0x00 \<notin> set s"

definition event_ok :: "bpf_event \<Rightarrow> bool" where
  "event_ok ev \<longleftrightarrow> length (be_ipv6 ev) = 16 \<and> plain_str 16 (be_comm ev) \<and> plain_str 160 (be_str ev)"

text \<open>What the helpers promise: strings end at their NUL, a read of \<open>n\<close> bytes has \<open>n\<close> bytes.\<close>

definition kern_ok :: "kern \<Rightarrow> bool" where
  "kern_ok k \<longleftrightarrow> CHR 0x00 \<notin> set (kn_comm k) \<and> (\<forall>a t. kn_read_str k a = Some t \<longrightarrow> CHR 0x00 \<notin> set t)
     \<and> (\<forall>a n bs. kn_read k a n = Some bs \<longrightarrow> length bs = n)"

lemma plain_copy: "CHR 0x00 \<notin> set t \<Longrightarrow> 0 < n \<Longrightarrow> plain_str n (cstr_copy n t)"
  using cstr_copy_length[of n t] by (auto simp: plain_str_def cstr_copy_def dest: in_set_takeD)

lemma user_str_plain: "kern_ok k \<Longrightarrow> plain_str 160 (user_str k a)"
  by (auto simp: user_str_def kern_ok_def plain_copy split: option.split) (simp add: plain_str_def)

lemma fill_common_ok: "kern_ok k \<Longrightarrow> event_ok (fill_common k ty kd)"
  by (simp add: event_ok_def fill_common_def kern_ok_def plain_copy) (simp add: plain_str_def)

lemma reserve_ok: "kern_ok k \<Longrightarrow> reserve_syscall_event k kd = Some ev \<Longrightarrow> event_ok ev"
  by (auto simp: reserve_syscall_event_def fill_common_ok split: if_splits)

text \<open>
  Whatever a program submits fits the struct: 16 bytes of address and strings with their NUL inside
  the two arrays.
\<close>

theorem programs_submit_ok:
  assumes "kern_ok k" "(name, prog) \<in> set bpf_programs" "prog k args = Some ev"
  shows "event_ok ev"
proof -
  note R = reserve_ok[OF assms(1)] and U = user_str_plain[OF assms(1)]
  have "event_ok ev" if "rw_trace_connect k args = Some ev"
    using that fill_common_ok[OF assms(1)] assms(1)
    by (auto simp: rw_trace_connect_def Let_def event_ok_def kern_ok_def split: option.splits if_splits)
  moreover have "event_ok ev" if "rw_trace_socket k args = Some ev"
    using that fill_common_ok[OF assms(1)] by (auto simp: rw_trace_socket_def Let_def event_ok_def split: if_splits)
  moreover have "event_ok ev" if "rw_trace_ptrace k args = Some ev \<or> rw_trace_process_vm_writev k args = Some ev
      \<or> rw_trace_process_vm_readv k args = Some ev \<or> rw_trace_mprotect k args = Some ev \<or> rw_trace_mmap k args = Some ev"
    using that R unfolding rw_trace_ptrace_def rw_trace_process_vm_writev_def rw_trace_process_vm_readv_def
      rw_trace_mprotect_def rw_trace_mmap_def Let_def by (auto simp: event_ok_def split: if_splits)
  moreover have "event_ok ev" if "rw_trace_memfd_create k args = Some ev \<or> rw_trace_execve k args = Some ev
      \<or> rw_trace_execveat k args = Some ev \<or> rw_trace_chmod k args = Some ev \<or> rw_trace_fchmodat k args = Some ev
      \<or> rw_trace_unlink k args = Some ev \<or> rw_trace_unlinkat k args = Some ev"
    using that R U unfolding rw_trace_memfd_create_def rw_trace_execve_def rw_trace_execveat_def
      rw_trace_chmod_def rw_trace_fchmodat_def rw_trace_unlink_def rw_trace_unlinkat_def by (auto simp: event_ok_def)
  ultimately show ?thesis using assms(2,3) by (auto simp: bpf_programs_def)
qed

definition sample_kern :: kern where
  "sample_kern = \<lparr>kn_id = 0x0000000700000008, kn_comm = ''nc'', kn_reserve = True,
     kn_read = (\<lambda>a n. Some (take n ([2, 0, 1, 187, 10, 0, 0, 1] @ replicate n 0))), kn_read_str = (\<lambda>_. Some ''/tmp/x'')\<rparr>"

lemma sample_kern_ok: "kern_ok sample_kern"
  by (simp add: kern_ok_def sample_kern_def)

lemma programs_submit_ok_witness:
  "event_ok ((fill_common sample_kern 3 (kind_code K_EXECVE))\<lparr>be_str := ''/tmp/x''\<rparr>)"
  by (rule programs_submit_ok[OF sample_kern_ok, of "''sys_enter_execve''" rw_trace_execve "[1, 2, 3, 4, 5, 6]"])
     (simp_all add: bpf_programs_def rw_trace_execve_def reserve_syscall_event_def user_str_def sample_kern_def
        RW_BPF_EVENT_SYSCALL_def)

lemma str_field_length: "length s \<le> n \<Longrightarrow> length (str_field n s) = n"
  by (simp add: str_field_def str_bytes_def)

lemma field_str_back: "plain_str n s \<Longrightarrow> field_str (str_field n s) = s"
proof -
  assume p: "plain_str n s"
  have "bytes_str (str_field n s) = s @ replicate (n - length s) (CHR 0x00)"
    using bytes_str_str_bytes[of s] by (simp add: str_field_def bytes_str_def byte_chr_def char_of_def)
  then show ?thesis using p
    by (cases "n - length s") (auto simp: field_str_def c_str_def plain_str_def takeWhile_append)
qed

lemma word_le_back:
  "word_of_nat (le_val (le_bytes 4 (unat v))) = (v :: 32 word)" "word_of_nat (le_val (le_bytes 2 (unat x))) = (x :: 16 word)"
  "word_of_nat (le_val (le_bytes 8 (unat y))) = (y :: 64 word)"
  using unsigned_less[of v, where ?'a = nat] unsigned_less[of x, where ?'a = nat] unsigned_less[of y, where ?'a = nat]
  by (simp_all add: le_val_bytes)

lemma event_bytes_back:
  assumes "event_ok ev"
  shows "event_of_bytes (event_bytes ev) = ev \<and> length (event_bytes ev) = sizeof_bpf_event"
proof -
  have l: "length (be_ipv6 ev) = 16" "length (str_field 16 (be_comm ev)) = 16" "length (str_field 160 (be_str ev)) = 160"
    using assms by (simp_all add: event_ok_def plain_str_def str_field_length)
  have s: "field_str (str_field 16 (be_comm ev)) = be_comm ev" "field_str (str_field 160 (be_str ev)) = be_str ev"
    using assms by (simp_all add: event_ok_def field_str_back)
  show ?thesis
    by (simp add: event_of_bytes_def event_bytes_def field_at_def l s word_le_back sizeof_bpf_event_def)
qed

text \<open>
  C26. The two declarations of the struct agree: the 256 bytes that the kernel side submits read back as
  the same event, field by field.
\<close>

theorem event_layout_roundtrip:
  assumes "event_ok ev"
  shows "event_of_bytes (event_bytes ev) = ev \<and> length (event_bytes ev) = sizeof_bpf_event"
  using event_bytes_back[OF assms] .

lemma event_layout_roundtrip_witness:
  "event_of_bytes (event_bytes (fill_common sample_kern 3 7)) = fill_common sample_kern 3 7"
  using event_layout_roundtrip[OF fill_common_ok[OF sample_kern_ok], of 3 7] by simp

end
