(* ===== verification/Ebpf.thy ===== *)
theory Ebpf
  imports Netmon Bpf
begin

section \<open>The eBPF backend (\<open>platform/ebpfmon.c\<close>)\<close>

text \<open>
  The user side of the kernel programs of theory \<open>Bpf\<close>: loading and attaching them, the callback that
  the ring buffer calls for every record, the handlers of the three kinds of event and the tracker of
  connects. What libbpf answers is the record \<open>bpf_lib\<close>; the records that a poll delivers are an
  argument, the bytes as they stand in the ring. The statics of the file extend the state of the network
  monitor. This is the part under \<open>RW_WITH_EBPF\<close>; the stubs that stand in for it otherwise do nothing.
\<close>

definition RW_EBPF_CONNECT_TRACKS :: nat where "RW_EBPF_CONNECT_TRACKS = 2048"

definition max_links :: nat where "max_links = 64"

record ebpf_track =
  et_pid :: pid
  et_comm :: string
  et_ip :: string
  et_port :: nat
  et_last_seen :: time
  et_buf :: "rat list"
  et_count :: nat
  et_total :: nat
  et_alerted :: bool

record ebpf = net +
  eb_obj :: bool
  eb_links :: nat
  eb_rb :: bool
  eb_cfg :: "rw_config option"
  eb_loaded :: bool
  events_seen :: "64 word"
  connect_seen :: "64 word"
  socket_seen :: "64 word"
  syscall_seen :: "64 word"
  connect_tracks :: "ebpf_track list"

record bpf_lib =
  bl_open_err :: int
  bl_obj :: bool
  bl_load :: bool
  bl_progs :: "(string \<times> int \<times> bool) list"
  bl_map :: bool
  bl_rb_err :: int
  bl_rb :: bool

subsection \<open>Tracking connects\<close>

definition same_dst :: "pid \<Rightarrow> string \<Rightarrow> nat \<Rightarrow> ebpf_track \<Rightarrow> bool" where
  "same_dst pid ip port t \<longleftrightarrow> et_pid t = pid \<and> et_port t = port \<and> et_ip t = ip"

definition new_connect_track :: "limits \<Rightarrow> pid \<Rightarrow> string \<Rightarrow> string \<Rightarrow> nat \<Rightarrow> time \<Rightarrow> ebpf_track" where
  "new_connect_track L pid comm ip port now =
     \<lparr>et_pid = pid, et_comm = cstr_copy 16 comm, et_ip = cstr_copy (max_ip_str L) ip, et_port = port,
      et_last_seen = now, et_buf = replicate 16 0, et_count = 0, et_total = 0, et_alerted = False\<rparr>"

definition get_or_create_connect_track ::
  "limits \<Rightarrow> os \<Rightarrow> pid \<Rightarrow> string \<Rightarrow> string \<Rightarrow> nat \<Rightarrow> 'a ebpf_scheme \<Rightarrow> (nat \<times> 'a ebpf_scheme) option" where
  "get_or_create_connect_track L w pid comm ip port s =
     (case find_idx (same_dst pid ip port) (connect_tracks s) of
        Some i \<Rightarrow> Some (i, s)
      | None \<Rightarrow>
          if length (connect_tracks s) \<ge> RW_EBPF_CONNECT_TRACKS then None
          else (let (now, s1) = sys_time w s
                in Some (length (connect_tracks s),
                         s1\<lparr>connect_tracks := connect_tracks s1 @ [new_connect_track L pid comm ip port now]\<rparr>)))"

definition et_intervals :: "ebpf_track \<Rightarrow> rat list" where
  "et_intervals t = take (et_count t) (et_buf t)"

definition ebpf_avg_interval :: "fp \<Rightarrow> ebpf_track \<Rightarrow> rat" where
  "ebpf_avg_interval F t =
     (if et_count t = 0 then 0 else fp_rnd F (fp_sum F (et_intervals t) / of_nat (et_count t)))"

definition ebpf_interval_jitter :: "fp \<Rightarrow> ebpf_track \<Rightarrow> rat" where
  "ebpf_interval_jitter F t =
     (if et_count t < 2 then 999999
      else (let avg = ebpf_avg_interval F t;
                ds = map (\<lambda>x. let d = fp_rnd F (x - avg) in if d < 0 then - d else d) (et_intervals t)
            in fp_rnd F (fp_sum F ds / of_nat (et_count t))))"

definition ebpf_score_connect_track :: "fp \<Rightarrow> ebpf_track \<Rightarrow> int" where
  "ebpf_score_connect_track F t =
     (let score = 0;
          score = (if et_total t \<ge> 4 then score + 25 else score);
          score = (if et_count t \<ge> 3
                   then (let avg = ebpf_avg_interval F t; jitter = ebpf_interval_jitter F t
                         in if avg \<ge> 1 \<and> avg \<le> 600 \<and> jitter \<le> fp_rnd F (avg * fp_rnd F (3 / 10))
                            then score + 60 else score)
                   else score);
          score = (if et_port t = 80 \<or> et_port t = 443 \<or> et_port t = 8080 \<or> et_port t = 8443
                   then score + 5 else score)
      in if score > 100 then 100 else score)"

text \<open>
  One interval into the array of 16 with its counter: appended while there is room, shifted in otherwise;
  behind both branches the last slot is written.
\<close>

definition store_interval :: "rat \<Rightarrow> ebpf_track \<Rightarrow> ebpf_track" where
  "store_interval x t =
     (let t1 = (if et_count t < 16
                then t\<lparr>et_buf := (et_buf t)[et_count t := x], et_count := et_count t + 1\<rparr>
                else t\<lparr>et_buf := tl (et_buf t) @ [last (et_buf t)]\<rparr>)
      in t1\<lparr>et_buf := (et_buf t1)[15 := x]\<rparr>)"

definition see_connect :: "fp \<Rightarrow> time \<Rightarrow> ebpf_track \<Rightarrow> ebpf_track" where
  "see_connect F now t =
     (let t1 = (if now > et_last_seen t
                then (let interval = fp_rnd F (of_int (now - et_last_seen t))
                      in (if interval \<ge> 1 then store_interval interval t else t)\<lparr>et_last_seen := now\<rparr>)
                else t)
      in t1\<lparr>et_total := et_total t1 + 1\<rparr>)"

definition connect_text :: "fp \<Rightarrow> ebpf_track \<Rightarrow> string" where
  "connect_text F t = ''dst='' @ et_ip t @ '':'' @ show_nat (et_port t) @ '' seen='' @ show_nat (et_total t)
     @ '' avg='' @ fp_fmt F (ebpf_avg_interval F t) @ '' jitter='' @ fp_fmt F (ebpf_interval_jitter F t)"

definition update_ebpf_connect_track ::
  "limits \<Rightarrow> os \<Rightarrow> fp \<Rightarrow> rw_config option \<Rightarrow> pid \<Rightarrow> string \<Rightarrow> string \<Rightarrow> nat \<Rightarrow> 'a ebpf_scheme \<Rightarrow> 'a ebpf_scheme option"
  where
  "update_ebpf_connect_track L w F cfg pid comm ip port s =
     (case get_or_create_connect_track L w pid comm ip port s of
        None \<Rightarrow> Some s
      | Some (i, s1) \<Rightarrow>
          (let (now, s2) = sys_time w s1;
               t = see_connect F now (connect_tracks s2 ! i);
               s3 = s2\<lparr>connect_tracks := (connect_tracks s2)[i := t]\<rparr>;
               score = ebpf_score_connect_track F t
           in do {
                s4 \<leftarrow> (if score > 0
                       then score_add L w cfg (et_pid t) (Some (et_comm t)) None ''EBPF_CONNECT''
                              (cstr_copy 256 (connect_text F t)) score s3
                       else Some s3);
                if score \<ge> threshold_or 85 cfg \<and> \<not> et_alerted t
                then case_detail L w cfg (et_pid t) score ''EBPF_BEACON_DETAIL''
                       (''comm='' @ et_comm t @ '' '' @ connect_text F t)
                       (rw_log_alert L w (''eBPF possible beacon pid='' @ show_int (et_pid t) @ '' comm='' @ et_comm t
                          @ '' '' @ connect_text F t @ '' score='' @ show_int score)
                        (s4\<lparr>connect_tracks := (connect_tracks s4)[i := t\<lparr>et_alerted := True\<rparr>]\<rparr>))
                else Some s4 }))"

subsection \<open>Names\<close>

definition family_name :: "16 word \<Rightarrow> string" where
  "family_name family =
     (if family = 2 then ''AF_INET'' else if family = 10 then ''AF_INET6''
      else if family = 17 then ''AF_PACKET'' else if family = 16 then ''AF_NETLINK'' else ''AF_OTHER'')"

definition kind_of_code :: "32 word \<Rightarrow> bpf_kind option" where
  "kind_of_code c = find (\<lambda>k. kind_code k = c)
     [K_PTRACE, K_PVM_WRITE, K_PVM_READ, K_MPROTECT_EXEC, K_MMAP_EXEC, K_MEMFD_CREATE, K_EXECVE, K_EXECVEAT,
      K_CHMOD, K_FCHMODAT, K_UNLINK, K_UNLINKAT]"

fun kind_name :: "bpf_kind \<Rightarrow> string" where
  "kind_name K_PTRACE = ''ptrace''"
| "kind_name K_PVM_WRITE = ''process_vm_writev''"
| "kind_name K_PVM_READ = ''process_vm_readv''"
| "kind_name K_MPROTECT_EXEC = ''mprotect(PROT_EXEC)''"
| "kind_name K_MMAP_EXEC = ''mmap(PROT_EXEC)''"
| "kind_name K_MEMFD_CREATE = ''memfd_create''"
| "kind_name K_EXECVE = ''execve''"
| "kind_name K_EXECVEAT = ''execveat''"
| "kind_name K_CHMOD = ''chmod''"
| "kind_name K_FCHMODAT = ''fchmodat''"
| "kind_name K_UNLINK = ''unlink''"
| "kind_name K_UNLINKAT = ''unlinkat''"

definition syscall_kind_name :: "32 word \<Rightarrow> string" where
  "syscall_kind_name c = (case kind_of_code c of Some k \<Rightarrow> kind_name k | None \<Rightarrow> ''unknown'')"

definition bpf_path_is_suspicious :: "string \<Rightarrow> bool" where
  "bpf_path_is_suspicious path \<longleftrightarrow> rw_suspicious_path (Some path) \<or> strstr path ''/etc/cron''
     \<or> strstr path ''/var/spool/cron'' \<or> strstr path ''/.ssh/'' \<or> strstr path ''/systemd/''"

subsection \<open>The handlers\<close>

definition show_u64 :: "64 word \<Rightarrow> string" where "show_u64 v = show_nat (unat v)"

definition show_x64 :: "64 word \<Rightarrow> string" where "show_x64 v = ''0x'' @ show_hex (unat v)"

definition event_pid :: "bpf_event \<Rightarrow> pid" where "event_pid ev = sint (be_tgid ev)"

definition handle_socket_event ::
  "limits \<Rightarrow> os \<Rightarrow> rw_config option \<Rightarrow> bpf_event \<Rightarrow> 'a sys_scheme \<Rightarrow> 'a sys_scheme option" where
  "handle_socket_event L w cfg ev s =
     (let fam = ''comm='' @ be_comm ev @ '' family='' @ family_name (be_family ev) @ ''('' @ show_nat (unat (be_family ev))
                @ '') type='' @ show_u32 (be_sock_type ev) @ '' protocol='' @ show_u32 (be_protocol ev);
          what = ''pid='' @ show_u32 (be_pid ev) @ '' tgid='' @ show_u32 (be_tgid ev) @ '' '' @ fam
      in do {
           s1 \<leftarrow> score_add L w cfg (event_pid ev) (Some (be_comm ev)) None ''EBPF_RAW_SOCKET''
             (family_name (be_family ev)) 95 (rw_log_alert L w (''eBPF raw/packet socket syscall '' @ what) s);
           case_detail L w cfg (event_pid ev) 95 ''EBPF_RAW_SOCKET_DETAIL'' fam
             (if logs_raw cfg then rw_log_network L w (''ebpf_socket '' @ what) s1 else s1) })"

definition connect_ip :: "limits \<Rightarrow> bpf_event \<Rightarrow> string" where
  "connect_ip L ev =
     (if be_family ev = word_of_nat AF_INET
      then (case ntop4 (max_ip_str L) (le_bytes 4 (unat (be_ipv4 ev))) of Some t \<Rightarrow> t | None \<Rightarrow> [])
      else if be_family ev = word_of_nat AF_INET6
      then (case ntop6 (max_ip_str L) (be_ipv6 ev) of Some t \<Rightarrow> t | None \<Rightarrow> [])
      else cstr_copy (max_ip_str L) (''family-'' @ show_nat (unat (be_family ev))))"

definition handle_connect_event ::
  "limits \<Rightarrow> os \<Rightarrow> fp \<Rightarrow> rw_config option \<Rightarrow> bpf_event \<Rightarrow> 'a ebpf_scheme \<Rightarrow> 'a ebpf_scheme option" where
  "handle_connect_event L w F cfg ev s =
     (let ip = connect_ip L ev;
          port = unat (be_port ev);
          s1 = (if (case cfg of Some c \<Rightarrow> log_network c | None \<Rightarrow> False)
                then rw_log_network L w (''ebpf_connect pid='' @ show_u32 (be_pid ev) @ '' tgid='' @ show_u32 (be_tgid ev)
                       @ '' comm='' @ be_comm ev @ '' dst='' @ ip @ '':'' @ show_nat port) s
                else s)
      in update_ebpf_connect_track L w F cfg (event_pid ev) (be_comm ev) ip port s1)"

definition event_str :: "bpf_event \<Rightarrow> string" where
  "event_str ev = (if be_str ev \<noteq> [] then be_str ev else ''<unknown>'')"

definition syscall_detail :: "bpf_event \<Rightarrow> string" where
  "syscall_detail ev = cstr_copy 512 (case kind_of_code (be_kind ev) of
     Some K_PTRACE \<Rightarrow> ''request='' @ show_u64 (be_a0 ev) @ '' target_pid='' @ show_u64 (be_a1 ev)
   | Some K_MPROTECT_EXEC \<Rightarrow> ''addr='' @ show_x64 (be_a0 ev) @ '' len='' @ show_u64 (be_a1 ev) @ '' prot='' @ show_x64 (be_a2 ev)
   | Some K_MMAP_EXEC \<Rightarrow> ''addr='' @ show_x64 (be_a0 ev) @ '' len='' @ show_u64 (be_a1 ev) @ '' prot='' @ show_x64 (be_a2 ev)
       @ '' flags='' @ show_x64 (be_a3 ev) @ '' fd='' @ show_int (sint (ucast (be_protocol ev) :: 64 word))
   | Some K_MEMFD_CREATE \<Rightarrow> ''name='' @ event_str ev @ '' flags='' @ show_x64 (be_a0 ev)
   | Some k \<Rightarrow>
       if k = K_PVM_WRITE \<or> k = K_PVM_READ
       then ''target_pid='' @ show_u64 (be_a0 ev) @ '' local_iov='' @ show_u64 (be_a1 ev) @ '' remote_iov='' @ show_u64 (be_a2 ev)
       else if k = K_EXECVE \<or> k = K_EXECVEAT then ''path='' @ event_str ev @ '' flags='' @ show_x64 (be_a0 ev)
       else if k = K_CHMOD \<or> k = K_FCHMODAT then ''path='' @ event_str ev @ '' mode=0'' @ show_base 8 (unat (be_a0 ev))
       else ''path='' @ event_str ev
   | None \<Rightarrow> ''a0='' @ show_u64 (be_a0 ev) @ '' a1='' @ show_u64 (be_a1 ev) @ '' a2='' @ show_u64 (be_a2 ev))"

definition syscall_alerts :: "bpf_event \<Rightarrow> bool" where
  "syscall_alerts ev = (case kind_of_code (be_kind ev) of
     Some k \<Rightarrow>
       if k = K_EXECVE \<or> k = K_EXECVEAT \<or> k = K_UNLINK \<or> k = K_UNLINKAT then bpf_path_is_suspicious (be_str ev)
       else if k = K_CHMOD \<or> k = K_FCHMODAT
       then bpf_path_is_suspicious (be_str ev) \<or> (and (be_a0 ev) 73 \<noteq> 0 \<and> rw_suspicious_path (Some (be_str ev)))
       else True
   | None \<Rightarrow> True)"

definition handle_syscall_event ::
  "limits \<Rightarrow> os \<Rightarrow> rw_config option \<Rightarrow> bpf_event \<Rightarrow> 'a sys_scheme \<Rightarrow> 'a sys_scheme option" where
  "handle_syscall_event L w cfg ev s =
     (let is_exec = be_kind ev = kind_code K_EXECVE \<or> be_kind ev = kind_code K_EXECVEAT;
          s1 = (if is_exec \<and> \<not> syscall_alerts ev \<and> (case cfg of Some c \<Rightarrow> verbose c \<and> log_syscalls c | None \<Rightarrow> False)
                then rw_log_event L w (''exec pid='' @ show_u32 (be_tgid ev) @ '' comm='' @ be_comm ev
                       @ '' path='' @ be_str ev) s
                else s)
      in if syscall_alerts ev
         then rw_syscall_alert L w cfg (event_pid ev) (Some (be_comm ev)) (Some (syscall_kind_name (be_kind ev)))
                (Some (syscall_detail ev)) s1
         else Some s1)"

definition handle_bpf_event ::
  "limits \<Rightarrow> os \<Rightarrow> fp \<Rightarrow> rw_config option \<Rightarrow> byte list \<Rightarrow> 'a ebpf_scheme \<Rightarrow> 'a ebpf_scheme option" where
  "handle_bpf_event L w F ctx data s =
     (let cfg = (if ctx \<noteq> None then ctx else eb_cfg s)
      in if length data < sizeof_bpf_event then Some s
         else let ev = event_of_bytes data;
                  s1 = s\<lparr>events_seen := events_seen s + 1\<rparr>
              in if be_type ev = RW_BPF_EVENT_SOCKET
                 then handle_socket_event L w cfg ev (s1\<lparr>socket_seen := socket_seen s1 + 1\<rparr>)
                 else if be_type ev = RW_BPF_EVENT_CONNECT
                 then handle_connect_event L w F cfg ev (s1\<lparr>connect_seen := connect_seen s1 + 1\<rparr>)
                 else if be_type ev = RW_BPF_EVENT_SYSCALL
                 then handle_syscall_event L w cfg ev (s1\<lparr>syscall_seen := syscall_seen s1 + 1\<rparr>)
                 else Some s1)"

subsection \<open>Loading, polling, unloading\<close>

definition rw_ebpf_shutdown :: "'a ebpf_scheme \<Rightarrow> 'a ebpf_scheme" where
  "rw_ebpf_shutdown s = s\<lparr>eb_loaded := False, eb_rb := False, eb_links := 0, eb_obj := False\<rparr>"

fun attach_programs ::
  "limits \<Rightarrow> os \<Rightarrow> (string \<times> int \<times> bool) list \<Rightarrow> 'a ebpf_scheme \<Rightarrow> 'a ebpf_scheme" where
  "attach_programs L w [] s = s"
| "attach_programs L w ((name, err, link) # ps) s =
     (if eb_links s \<ge> max_links then s
      else if err \<noteq> 0
      then attach_programs L w ps (rw_log_info L w (''eBPF attach failed for program '' @ name @ '': '' @ show_int err
             @ ''; continuing'') s)
      else attach_programs L w ps (if link then s\<lparr>eb_links := eb_links s + 1\<rparr> else s))"

definition rw_ebpf_init_backend :: "limits \<Rightarrow> os \<Rightarrow> bpf_lib \<Rightarrow> 'a ebpf_scheme \<Rightarrow> int \<times> 'a ebpf_scheme" where
  "rw_ebpf_init_backend L w lib s =
     (let s0 = s\<lparr>events_seen := 0, connect_seen := 0, socket_seen := 0, syscall_seen := 0, eb_loaded := False\<rparr>
      in if bl_open_err lib \<noteq> 0 \<or> \<not> bl_obj lib then (-1, s0\<lparr>eb_obj := False\<rparr>)
         else if \<not> bl_load lib then (-1, s0\<lparr>eb_obj := False\<rparr>)
         else let s1 = attach_programs L w (bl_progs lib) (s0\<lparr>eb_obj := True\<rparr>)
              in if eb_links s1 = 0 then (-1, rw_ebpf_shutdown s1)
                 else if \<not> bl_map lib then (-1, rw_ebpf_shutdown s1)
                 else if bl_rb_err lib \<noteq> 0 \<or> \<not> bl_rb lib then (-1, rw_ebpf_shutdown (s1\<lparr>eb_rb := False\<rparr>))
                 else (0, rw_log_info L w (''eBPF attached programs='' @ show_nat (eb_links s1))
                            (s1\<lparr>eb_rb := True, eb_loaded := True\<rparr>)))"

fun ring_records ::
  "limits \<Rightarrow> os \<Rightarrow> fp \<Rightarrow> byte list list \<Rightarrow> 'a ebpf_scheme \<Rightarrow> 'a ebpf_scheme option" where
  "ring_records L w F [] s = Some s"
| "ring_records L w F (d # ds) s = do { s1 \<leftarrow> handle_bpf_event L w F None d s; ring_records L w F ds s1 }"

definition rw_ebpf_poll ::
  "limits \<Rightarrow> os \<Rightarrow> fp \<Rightarrow> rw_config option \<Rightarrow> byte list list \<Rightarrow> 'a ebpf_scheme \<Rightarrow> 'a ebpf_scheme option" where
  "rw_ebpf_poll L w F cfg data s =
     (let s1 = s\<lparr>eb_cfg := cfg\<rparr> in if eb_rb s1 then ring_records L w F data s1 else Some s1)"

definition ebpf_status :: "'a ebpf_scheme \<Rightarrow> string" where
  "ebpf_status s =
     (if \<not> eb_loaded s then ''[ebpf] status: disabled or unavailable'' @ [newline]
      else ''[ebpf] status: loaded links='' @ show_nat (eb_links s) @ '' events='' @ show_u64 (events_seen s)
           @ '' connect='' @ show_u64 (connect_seen s) @ '' socket='' @ show_u64 (socket_seen s)
           @ '' syscall='' @ show_u64 (syscall_seen s) @ [newline])"

subsection \<open>The window of intervals\<close>

definition eb_track_ok :: "ebpf_track \<Rightarrow> bool" where
  "eb_track_ok t \<longleftrightarrow> length (et_buf t) = 16 \<and> et_count t \<le> 16 \<and> (\<forall>x\<in>set (et_intervals t). 1 \<le> x)"

text \<open>The array with its stray write is the list of the newest 16 intervals.\<close>

lemma store_interval_window:
  assumes "length (et_buf t) = 16" "et_count t \<le> 16"
  shows "et_intervals (store_interval x t) = push_interval x (et_intervals t)
    \<and> length (et_buf (store_interval x t)) = 16 \<and> et_count (store_interval x t) = min 16 (et_count t + 1)"
proof -
  obtain xs where buf: "et_buf t = xs" "length xs = 16" using assms(1) by simp
  show ?thesis
  proof (cases "et_count t < 16")
    case True
    have "xs[15 := x] = take 15 xs @ [x]" using buf(2) by (simp add: upd_conv_take_nth_drop)
    with True have "take (Suc (et_count t)) (xs[et_count t := x, 15 := x]) = take (et_count t) xs @ [x]"
      using buf(2) by (cases "et_count t = 15") (auto simp: take_Suc_conv_app_nth nth_list_update list_update_append)
    then show ?thesis using True buf
      by (simp add: store_interval_def et_intervals_def push_interval_def Let_def)
  next
    case False
    then have n: "et_count t = 16" using assms(2) by simp
    obtain y ys where xs: "xs = y # ys" "length ys = 15" using buf(2) by (cases xs) auto
    then have "(ys @ [last xs])[15 := x] = ys @ [x]" by (simp add: list_update_append)
    then show ?thesis using n buf xs
      by (simp add: store_interval_def et_intervals_def push_interval_def Let_def)
  qed
qed

lemma push_newest: "push_interval x (drop (length xs - 16) xs) = drop (length (xs @ [x]) - 16) (xs @ [x])"
proof (cases "length xs < 16")
  case False
  then have "Suc (length xs - 16) = length xs - 15" by simp
  then have "drop (length xs - 16) (tl xs) = drop (length xs - 15) xs" by (metis drop_Suc)
  with False show ?thesis by (simp add: push_interval_def tl_drop)
qed (simp add: push_interval_def)

text \<open>
  C25. The interval array of a connect track, whose last slot is written on every path, holds exactly the
  newest 16 intervals in their order, however many were stored.
\<close>

theorem connect_window_newest:
  "et_intervals (fold store_interval xs (new_connect_track L pid comm ip port now)) = drop (length xs - 16) xs"
proof -
  let ?t = "new_connect_track L pid comm ip port now"
  have "et_intervals (fold store_interval xs ?t) = drop (length xs - 16) xs
    \<and> length (et_buf (fold store_interval xs ?t)) = 16 \<and> et_count (fold store_interval xs ?t) \<le> 16"
  proof (induction xs rule: rev_induct)
    case Nil
    show ?case by (simp add: new_connect_track_def et_intervals_def)
  next
    case (snoc x xs)
    with store_interval_window[of "fold store_interval xs ?t" x] push_newest[of x xs] show ?case by simp
  qed
  then show ?thesis by simp
qed

subsection \<open>The backend keeps its tables\<close>

definition eb_inv :: "limits \<Rightarrow> 'a ebpf_scheme \<Rightarrow> bool" where
  "eb_inv L s \<longleftrightarrow> net_inv L s \<and> length (connect_tracks s) \<le> RW_EBPF_CONNECT_TRACKS
     \<and> list_all eb_track_ok (connect_tracks s) \<and> eb_links s \<le> max_links
     \<and> (eb_loaded s \<longrightarrow> eb_obj s \<and> eb_rb s \<and> 0 < eb_links s)"

definition eb_keeps :: "limits \<Rightarrow> 'a ebpf_scheme \<Rightarrow> 'a ebpf_scheme \<Rightarrow> bool" where
  "eb_keeps L s s' \<longleftrightarrow> (eb_inv L s \<longrightarrow> eb_inv L s') \<and> ebpf.more s' = ebpf.more s"

definition eb_runs :: "limits \<Rightarrow> os \<Rightarrow> 'a ebpf_scheme \<Rightarrow> 'a ebpf_scheme option \<Rightarrow> bool" where
  "eb_runs L w s r \<longleftrightarrow> meets (eb_keeps L) (pread_ok w) s r"

named_theorems eb_intros \<open>steps of the eBPF backend\<close>

interpretation eb_contract: state_contract "eb_keeps L"
  by unfold_locales (auto simp: eb_keeps_def)

lemmas eb_runs_combine [eb_intros] =
  eb_contract.meets_Some[where ok = "pread_ok w" for w, folded eb_runs_def]
  eb_contract.meets_bind[where ok = "pread_ok w" for w, folded eb_runs_def]
  eb_contract.meets_if[where ok = "pread_ok w" for w, folded eb_runs_def]

lemma eb_keeps_net: "net_keeps L s s' \<Longrightarrow> eb_keeps L s s'"
proof -
  assume k: "net_keeps L s s'"
  then have m: "net.more s' = net.more s" by (simp add: net_keeps_def)
  then have "connect_tracks s' = connect_tracks s \<and> eb_links s' = eb_links s \<and> eb_loaded s' = eb_loaded s
    \<and> eb_obj s' = eb_obj s \<and> eb_rb s' = eb_rb s \<and> ebpf.more s' = ebpf.more s"
    by (cases s; cases s') simp
  with k show ?thesis by (simp add: eb_keeps_def eb_inv_def net_keeps_def)
qed

lemma eb_runs_net: "net_runs L w t x \<Longrightarrow> eb_keeps L s t \<Longrightarrow> eb_runs L w s x"
  unfolding net_runs_def eb_runs_def meets_def by (blast intro: eb_contract.trans eb_keeps_net)

lemma eb_runs_core: "runs L w t x \<Longrightarrow> eb_keeps L s t \<Longrightarrow> eb_runs L w s x"
  by (rule eb_runs_net[OF net_runs_core[OF _ net_keeps_refl]])

lemma handle_socket_runs [runs_intros]:
  assumes "limits_ok L" "sys_grows L s t"
  shows "runs L w s (handle_socket_event L w cfg ev t)"
  unfolding handle_socket_event_def Let_def by (intro runs_intros assms)

lemma handle_syscall_runs [runs_intros]:
  assumes "limits_ok L" "sys_grows L s t"
  shows "runs L w s (handle_syscall_event L w cfg ev t)"
  unfolding handle_syscall_event_def Let_def by (intro runs_intros assms)

lemmas eb_runs_calls [eb_intros] =
  runs_score_add[OF _ sys_grows_refl, THEN eb_runs_core]
  runs_case_detail[OF _ sys_grows_refl, THEN eb_runs_core]
  handle_socket_runs[OF _ sys_grows_refl, THEN eb_runs_core]
  handle_syscall_runs[OF _ sys_grows_refl, THEN eb_runs_core]

lemma eb_keeps_steps [eb_intros]:
  "eb_keeps L s t \<Longrightarrow> eb_keeps L s (rw_log_alert L w m t)"
  "eb_keeps L s t \<Longrightarrow> eb_keeps L s (rw_log_network L w m t)"
  "eb_keeps L s t \<Longrightarrow> eb_keeps L s (rw_log_info L w m t)"
  "eb_keeps L s t \<Longrightarrow> eb_keeps L s (snd (sys_time w t))"
  "(b \<Longrightarrow> eb_keeps L s t) \<Longrightarrow> (\<not> b \<Longrightarrow> eb_keeps L s u) \<Longrightarrow> eb_keeps L s (if b then t else u)"
  by (auto elim!: eb_contract.trans intro: eb_keeps_net net_keeps_core runs_intros)

lemma new_connect_track_ok: "eb_track_ok (new_connect_track L pid comm ip port now)"
  by (simp add: eb_track_ok_def new_connect_track_def et_intervals_def)

lemma see_connect_ok:
  assumes "eb_track_ok t"
  shows "eb_track_ok (see_connect F now t)"
proof -
  have "eb_track_ok (store_interval x t)" if "1 \<le> x" for x
    using store_interval_window[of t x] assms that
    by (auto simp: eb_track_ok_def push_interval_def dest: list.set_sel(2)[rotated])
  then show ?thesis using assms by (auto simp: see_connect_def Let_def eb_track_ok_def et_intervals_def)
qed

lemma connect_update_keeps:
  assumes "eb_keeps L s t" "eb_inv L s \<Longrightarrow> eb_track_ok x"
  shows "eb_keeps L s (t\<lparr>connect_tracks := (connect_tracks t)[i := x]\<rparr>)"
  using assms by (auto simp: eb_keeps_def eb_inv_def net_inv_def sys_inv_def intro: list_all_update)

lemma get_connect_keeps:
  assumes "get_or_create_connect_track L w pid comm ip port t = Some (i, u)" "eb_keeps L s t"
  shows "eb_keeps L s u" "i < length (connect_tracks u)"
proof -
  have time: "eb_keeps L s (snd (sys_time w t))" by (rule eb_keeps_steps(4)[OF assms(2)])
  have same: "connect_tracks (snd (sys_time w t)) = connect_tracks t" by (simp add: sys_time_def tick_def)
  have app: "eb_keeps L s (v\<lparr>connect_tracks := connect_tracks v @ [x]\<rparr>)"
    if "eb_keeps L s v" "length (connect_tracks v) < RW_EBPF_CONNECT_TRACKS" "eb_track_ok x" for v and x
    using that by (simp add: eb_keeps_def eb_inv_def net_inv_def sys_inv_def)
  show "eb_keeps L s u"
  proof (cases "find_idx (same_dst pid ip port) (connect_tracks t)")
    case None
    then have "length (connect_tracks t) < RW_EBPF_CONNECT_TRACKS"
      "u = (snd (sys_time w t))\<lparr>connect_tracks := connect_tracks (snd (sys_time w t))
             @ [new_connect_track L pid comm ip port (fst (sys_time w t))]\<rparr>"
      using assms(1) by (auto simp: get_or_create_connect_track_def Let_def split_beta split: if_splits)
    with app[OF time _ new_connect_track_ok] same show ?thesis by simp
  qed (use assms in \<open>simp add: get_or_create_connect_track_def\<close>)
  show "i < length (connect_tracks u)"
    using assms(1) same
    by (auto simp: get_or_create_connect_track_def Let_def split_beta split: option.splits if_splits dest: find_idx_Some)
qed

lemma update_connect_runs [eb_intros]:
  assumes "limits_ok L" "eb_keeps L s t"
  shows "eb_runs L w s (update_ebpf_connect_track L w F cfg pid comm ip port t)"
proof (cases "get_or_create_connect_track L w pid comm ip port t")
  case (Some r)
  then have r: "get_or_create_connect_track L w pid comm ip port t = Some (fst r, snd r)" by simp
  let ?u = "snd (sys_time w (snd r))"
  have g: "eb_keeps L s ?u" by (intro eb_intros get_connect_keeps(1)[OF r assms(2)])
  have same: "connect_tracks ?u = connect_tracks (snd r)" by (simp add: sys_time_def tick_def)
  have "fst r < length (connect_tracks ?u)" using get_connect_keeps(2)[OF r assms(2)] same by simp
  then have "eb_inv L s \<Longrightarrow> eb_track_ok (connect_tracks ?u ! fst r)"
    using g by (simp add: eb_keeps_def eb_inv_def list_all_length)
  then have ok: "eb_inv L s \<Longrightarrow> eb_track_ok (see_connect F now (connect_tracks ?u ! fst r))" for now
    by (simp add: see_connect_ok)
  then have ok': "eb_inv L s \<Longrightarrow> eb_track_ok ((see_connect F now (connect_tracks ?u ! fst r))\<lparr>et_alerted := True\<rparr>)" for now
    by (simp add: eb_track_ok_def et_intervals_def)
  show ?thesis unfolding update_ebpf_connect_track_def Some option.case split_beta Let_def
    by (intro eb_intros connect_update_keeps ok ok' g assms; assumption?)
qed (simp add: update_ebpf_connect_track_def eb_intros assms)

lemma eb_counters [eb_intros]:
  "eb_keeps L s t \<Longrightarrow> eb_keeps L s (t\<lparr>events_seen := n\<rparr>)" "eb_keeps L s t \<Longrightarrow> eb_keeps L s (t\<lparr>connect_seen := n\<rparr>)"
  "eb_keeps L s t \<Longrightarrow> eb_keeps L s (t\<lparr>socket_seen := n\<rparr>)" "eb_keeps L s t \<Longrightarrow> eb_keeps L s (t\<lparr>syscall_seen := n\<rparr>)"
  "eb_keeps L s t \<Longrightarrow> eb_keeps L s (t\<lparr>eb_cfg := c\<rparr>)" "eb_keeps L s t \<Longrightarrow> eb_keeps L s (t\<lparr>eb_loaded := False\<rparr>)"
  "eb_keeps L s t \<Longrightarrow> eb_keeps L s (rw_ebpf_shutdown t)"
  by (auto simp: eb_keeps_def eb_inv_def net_inv_def sys_inv_def rw_ebpf_shutdown_def)

lemma handle_connect_runs [eb_intros]:
  assumes "limits_ok L" "eb_keeps L s t"
  shows "eb_runs L w s (handle_connect_event L w F cfg ev t)"
  unfolding handle_connect_event_def Let_def by (intro eb_intros assms)

lemma handle_bpf_runs [eb_intros]:
  assumes "limits_ok L" "eb_keeps L s t"
  shows "eb_runs L w s (handle_bpf_event L w F ctx data t)"
  unfolding handle_bpf_event_def Let_def by (intro eb_intros assms)

lemma ring_records_runs:
  "limits_ok L \<Longrightarrow> eb_keeps L s t \<Longrightarrow> eb_runs L w s (ring_records L w F ds t)"
  by (induction ds arbitrary: t) (auto intro!: eb_intros)

lemma ebpf_poll_runs [eb_intros]:
  assumes "limits_ok L" "eb_keeps L s t"
  shows "eb_runs L w s (rw_ebpf_poll L w F cfg ds t)"
  unfolding rw_ebpf_poll_def Let_def by (intro eb_intros ring_records_runs assms)

lemma logger_only_ebpf:
  assumes "logger_only s s'"
  shows "eb_links s' = eb_links s" "eb_loaded s' = eb_loaded s" "eb_obj s' = eb_obj s" "eb_rb s' = eb_rb s"
    "events_seen s' = events_seen s" "connect_seen s' = connect_seen s" "socket_seen s' = socket_seen s"
    "syscall_seen s' = syscall_seen s"
  using assms by (cases s; cases s'; simp add: logger_only_def)+

lemmas log_info_ebpf [simp] = logger_only_ebpf[OF rw_log_only(1)]

definition attached :: "bpf_lib \<Rightarrow> nat" where
  "attached lib = length (filter (\<lambda>(_, err, link). err = 0 \<and> link) (bl_progs lib))"

lemma attach_fields:
  "eb_loaded (attach_programs L w ps s) = eb_loaded s" "eb_obj (attach_programs L w ps s) = eb_obj s"
  "eb_rb (attach_programs L w ps s) = eb_rb s" "events_seen (attach_programs L w ps s) = events_seen s"
  "connect_seen (attach_programs L w ps s) = connect_seen s" "socket_seen (attach_programs L w ps s) = socket_seen s"
  "syscall_seen (attach_programs L w ps s) = syscall_seen s"
  by (induction L w ps s rule: attach_programs.induct) simp_all

lemma attach_links: "eb_links s \<le> max_links \<Longrightarrow>
    eb_links (attach_programs L w ps s) = min max_links (eb_links s + length (filter (\<lambda>(_, err, link). err = 0 \<and> link) ps))"
  by (induction L w ps s rule: attach_programs.induct) auto

lemma attach_keeps: "eb_keeps L s t \<Longrightarrow> \<not> eb_loaded t \<Longrightarrow> eb_keeps L s (attach_programs L w ps t)"
proof (induction L w ps t rule: attach_programs.induct)
  case (2 L w name err link ps t)
  have "eb_keeps L s (t\<lparr>eb_links := eb_links t + 1\<rparr>)" if "eb_links t < max_links"
    using that 2(3,4) by (simp add: eb_keeps_def eb_inv_def net_inv_def sys_inv_def)
  with 2 show ?case by (auto intro: eb_intros)
qed simp

lemma ebpf_init_keeps [eb_intros]:
  assumes "eb_keeps L s t"
  shows "eb_keeps L s (snd (rw_ebpf_init_backend L w lib t))"
proof -
  let ?s0 = "t\<lparr>events_seen := 0, connect_seen := 0, socket_seen := 0, syscall_seen := 0, eb_loaded := False\<rparr>"
  let ?s1 = "attach_programs L w (bl_progs lib) (?s0\<lparr>eb_obj := True\<rparr>)"
  have s0: "eb_keeps L s (?s0\<lparr>eb_obj := b\<rparr>)" for b
    using assms by (auto simp: eb_keeps_def eb_inv_def net_inv_def sys_inv_def)
  have s1: "eb_keeps L s ?s1" by (rule attach_keeps[OF s0]) simp
  then have rb: "eb_keeps L s (rw_ebpf_shutdown (?s1\<lparr>eb_rb := False\<rparr>))"
    by (auto simp: eb_keeps_def eb_inv_def net_inv_def sys_inv_def rw_ebpf_shutdown_def)
  have up: "eb_keeps L s (?s1\<lparr>eb_rb := True, eb_loaded := True\<rparr>)" if "eb_links ?s1 \<noteq> 0"
    using s1 that by (auto simp: eb_keeps_def eb_inv_def net_inv_def sys_inv_def attach_fields)
  have "eb_keeps L s (rw_log_info L w m (?s1\<lparr>eb_rb := True, eb_loaded := True\<rparr>))" if "eb_links ?s1 \<noteq> 0" for m
    by (rule eb_keeps_steps(3)[OF up[OF that]])
  with s0 eb_counters(7)[OF s1] rb show ?thesis by (simp add: rw_ebpf_init_backend_def Let_def)
qed

text \<open>
  C24. Loading the backend is all or nothing. With the object opened and loaded, at least one program
  attached, the map found and the ring buffer made, it returns 0 with the links (64 at most) held and the
  counters at zero; a program that cannot be attached is skipped. When any of this fails it returns -1
  and holds no object, no link and no ring buffer.
\<close>

theorem ebpf_init_all_or_nothing:
  assumes "eb_links s = 0" "\<not> eb_rb s" "rw_ebpf_init_backend L w lib s = (rc, s')"
  shows "if bl_open_err lib = 0 \<and> bl_obj lib \<and> bl_load lib \<and> 0 < attached lib \<and> bl_map lib \<and> bl_rb_err lib = 0 \<and> bl_rb lib
    then rc = 0 \<and> eb_loaded s' \<and> eb_obj s' \<and> eb_rb s' \<and> eb_links s' = min 64 (attached lib)
      \<and> events_seen s' = 0 \<and> connect_seen s' = 0 \<and> socket_seen s' = 0 \<and> syscall_seen s' = 0
    else rc = -1 \<and> \<not> eb_loaded s' \<and> \<not> eb_obj s' \<and> \<not> eb_rb s' \<and> eb_links s' = 0"
proof -
  let ?s0 = "s\<lparr>events_seen := 0, connect_seen := 0, socket_seen := 0, syscall_seen := 0, eb_loaded := False, eb_obj := True\<rparr>"
  have "eb_links (attach_programs L w (bl_progs lib) ?s0) = min max_links (attached lib)"
    using assms(1) attach_links[of ?s0 L w "bl_progs lib"] by (simp add: attached_def)
  then show ?thesis using assms
    by (auto simp: rw_ebpf_init_backend_def Let_def rw_ebpf_shutdown_def attach_fields max_links_def split: if_splits)
qed

definition sample_lib :: bpf_lib where
  "sample_lib = \<lparr>bl_open_err = 0, bl_obj = True, bl_load = True,
     bl_progs = [(''a'', 0, True), (''b'', -2, False), (''c'', 0, True)], bl_map = True, bl_rb_err = 0, bl_rb = True\<rparr>"

definition ebpf_start :: "os \<Rightarrow> ebpf" where
  "ebpf_start w = net.extend (net_start w) (ebpf.fields False 0 False None False 0 0 0 0 [])"

lemma ebpf_start_fields:
  "eb_links (ebpf_start w) = 0" "\<not> eb_rb (ebpf_start w)" "connect_tracks (ebpf_start w) = []" "\<not> eb_loaded (ebpf_start w)"
  by (simp_all add: ebpf_start_def net.defs ebpf.defs)

lemma ebpf_init_all_or_nothing_witness:
  "\<exists>s'. rw_ebpf_init_backend small_limits idle_os sample_lib (ebpf_start idle_os) = (0, s') \<and> eb_links s' = 2"
proof -
  obtain rc s' where r: "rw_ebpf_init_backend small_limits idle_os sample_lib (ebpf_start idle_os) = (rc, s')" by fastforce
  with ebpf_init_all_or_nothing[OF ebpf_start_fields(1,2) r] show ?thesis
    by (simp add: sample_lib_def attached_def)
qed

subsection \<open>From the system call to the report\<close>

lemma dotted_fits: "length (dotted [a, b, c, d]) < 16"
proof -
  have "length (show_nat (unat x)) \<le> 3" for x :: byte
    using unsigned_less[of x, where ?'a = nat] by (intro show_byte_length) simp
  from this[of a] this[of b] this[of c] this[of d] show ?thesis by (simp add: dotted_def)
qed

text \<open>
  What counting one connect to a destination means for the list of tracks: the first track of the destination is
  replaced by one that has seen one connect more; if there is none, a track that has seen one is put at the end,
  unless all 2048 are taken. No other track changes.
\<close>

definition track_dst :: "ebpf_track \<Rightarrow> pid \<times> string \<times> nat" where
  "track_dst t = (et_pid t, et_ip t, et_port t)"

definition connect_counted :: "pid \<times> string \<times> nat \<Rightarrow> ebpf_track list \<Rightarrow> ebpf_track list \<Rightarrow> bool" where
  "connect_counted dst ts ts' \<longleftrightarrow>
     (\<forall>i<length ts. track_dst (ts ! i) = dst \<and> (\<forall>j<i. track_dst (ts ! j) \<noteq> dst) \<longrightarrow>
        (\<exists>t. ts' = ts[i := t] \<and> track_dst t = dst \<and> et_total t = et_total (ts ! i) + 1))
   \<and> ((\<forall>t\<in>set ts. track_dst t \<noteq> dst) \<longrightarrow>
        (if length ts < 2048 then \<exists>t. ts' = ts @ [t] \<and> track_dst t = dst \<and> et_total t = 1 else ts' = ts))"

lemma same_dst_eq: "same_dst pid ip port t \<longleftrightarrow> track_dst t = (pid, ip, port)"
  by (auto simp: same_dst_def track_dst_def)

lemma see_connect_fields:
  "track_dst (see_connect F now t) = track_dst t \<and> et_total (see_connect F now t) = et_total t + 1"
  by (simp add: see_connect_def store_interval_def track_dst_def Let_def)

lemma runs_ebpf:
  "runs L w s (Some s') \<Longrightarrow> connect_tracks s' = connect_tracks s \<and> events_seen s' = events_seen s \<and> connect_seen s' = connect_seen s"
  by (cases s; cases s') (simp add: runs_def sys_grows_def)

lemma update_at_index:
  fixes s s1 :: "'a ebpf_scheme"
  assumes "limits_ok L" "pread_ok w" "get_or_create_connect_track L w pid comm ip port s = Some (i, s1)"
  shows "\<exists>s' t. update_ebpf_connect_track L w F cfg pid comm ip port s = Some s'
    \<and> connect_tracks s' = (connect_tracks s1)[i := t] \<and> track_dst t = track_dst (connect_tracks s1 ! i)
    \<and> et_total t = et_total (connect_tracks s1 ! i) + 1 \<and> events_seen s' = events_seen s1 \<and> connect_seen s' = connect_seen s1"
proof -
  obtain now s2 where s2: "sys_time w s1 = (now, s2)" by fastforce
  then have f2: "connect_tracks s2 = connect_tracks s1" "events_seen s2 = events_seen s1" "connect_seen s2 = connect_seen s1"
    by (auto simp: sys_time_def tick_def)
  define t where "t = see_connect F now (connect_tracks s1 ! i)"
  define s3 where "s3 = s2\<lparr>connect_tracks := (connect_tracks s1)[i := t]\<rparr>"
  note tf = see_connect_fields[of F now "connect_tracks s1 ! i", folded t_def]
  define A where "A = (if ebpf_score_connect_track F t > 0
      then score_add L w cfg (et_pid t) (Some (et_comm t)) None ''EBPF_CONNECT'' (cstr_copy 256 (connect_text F t))
             (ebpf_score_connect_track F t) s3
      else Some s3)"
  have "runs L w s3 A" unfolding A_def by (intro runs_intros assms(1))
  then obtain s4 where s4: "A = Some s4" "runs L w s3 (Some s4)" using assms(2) by (auto simp: runs_def)
  note f4 = runs_ebpf[OF s4(2)]
  show ?thesis
  proof (cases "ebpf_score_connect_track F t \<ge> threshold_or 85 cfg \<and> \<not> et_alerted t")
    case True
    define m where "m = ''comm='' @ et_comm t @ '' '' @ connect_text F t"
    define a where "a = ''eBPF possible beacon pid='' @ show_int (et_pid t) @ '' comm='' @ et_comm t
        @ '' '' @ connect_text F t @ '' score='' @ show_int (ebpf_score_connect_track F t)"
    define s5 where "s5 = s4\<lparr>connect_tracks := (connect_tracks s4)[i := t\<lparr>et_alerted := True\<rparr>]\<rparr>"
    define B where "B = case_detail L w cfg (et_pid t) (ebpf_score_connect_track F t) ''EBPF_BEACON_DETAIL'' m (rw_log_alert L w a s5)"
    have "runs L w s5 B" unfolding B_def by (intro runs_intros assms(1))
    then obtain s' where s': "B = Some s'" "runs L w s5 (Some s')" using assms(2) by (auto simp: runs_def)
    have "update_ebpf_connect_track L w F cfg pid comm ip port s = Some s'"
      unfolding update_ebpf_connect_track_def assms(3) option.case prod.case s2 Let_def f2 t_def[symmetric]
        s3_def[symmetric] A_def[symmetric] s4(1) bind.simps using True s'(1)
      by (simp add: B_def m_def a_def s5_def)
    with runs_ebpf[OF s'(2)] f4 f2 tf show ?thesis
      by (intro exI[of _ s'] exI[of _ "t\<lparr>et_alerted := True\<rparr>"]) (simp add: s5_def s3_def track_dst_def)
  next
    case False
    have "update_ebpf_connect_track L w F cfg pid comm ip port s = Some s4"
      unfolding update_ebpf_connect_track_def assms(3) option.case prod.case s2 Let_def f2 t_def[symmetric]
        s3_def[symmetric] A_def[symmetric] s4(1) bind.simps by (simp only: if_not_P[OF False])
    with f4 f2 tf show ?thesis by (intro exI[of _ s4] exI[of _ t]) (simp add: s3_def)
  qed
qed

lemma update_connect_counted:
  fixes s :: "'a ebpf_scheme"
  assumes "limits_ok L" "pread_ok w" "length ip < max_ip_str L"
  shows "\<exists>s'. update_ebpf_connect_track L w F cfg pid comm ip port s = Some s'
    \<and> connect_counted (pid, ip, port) (connect_tracks s) (connect_tracks s')
    \<and> events_seen s' = events_seen s \<and> connect_seen s' = connect_seen s"
proof (cases "find_idx (same_dst pid ip port) (connect_tracks s)")
  case (Some i)
  from find_idx_Some[OF Some] have i: "i < length (connect_tracks s)" "track_dst (connect_tracks s ! i) = (pid, ip, port)"
    "\<forall>j<i. track_dst (connect_tracks s ! j) \<noteq> (pid, ip, port)" by (auto simp: same_dst_eq)
  have uniq: "k = i" if "k < length (connect_tracks s)" "track_dst (connect_tracks s ! k) = (pid, ip, port)"
    "\<forall>j<k. track_dst (connect_tracks s ! j) \<noteq> (pid, ip, port)" for k
    using that i by (metis linorder_neqE_nat)
  have "get_or_create_connect_track L w pid comm ip port s = Some (i, s)"
    by (simp add: get_or_create_connect_track_def Some)
  from update_at_index[OF assms(1,2) this, of F cfg] obtain s' t where
    u: "update_ebpf_connect_track L w F cfg pid comm ip port s = Some s'"
      "connect_tracks s' = (connect_tracks s)[i := t]" "track_dst t = (pid, ip, port)"
      "et_total t = et_total (connect_tracks s ! i) + 1" "events_seen s' = events_seen s" "connect_seen s' = connect_seen s"
    using i(2) by auto
  have "connect_counted (pid, ip, port) (connect_tracks s) (connect_tracks s')"
    using u(2-4) i(1,2) uniq nth_mem[OF i(1)] unfolding connect_counted_def by blast
  with u show ?thesis by blast
next
  case None
  then have new: "\<forall>t\<in>set (connect_tracks s). track_dst t \<noteq> (pid, ip, port)" by (simp add: find_idx_None same_dst_eq)
  show ?thesis
  proof (cases "length (connect_tracks s) < RW_EBPF_CONNECT_TRACKS")
    case True
    let ?t = "new_connect_track L pid comm ip port (env_time w (clk s))"
    let ?u = "(snd (sys_time w s))\<lparr>connect_tracks := connect_tracks s @ [?t]\<rparr>"
    have "get_or_create_connect_track L w pid comm ip port s = Some (length (connect_tracks s), ?u)"
      using None True by (simp add: get_or_create_connect_track_def sys_time_def tick_def)
    from update_at_index[OF assms(1,2) this, of F cfg] obtain s' t where
      u: "update_ebpf_connect_track L w F cfg pid comm ip port s = Some s'" "connect_tracks s' = connect_tracks s @ [t]"
        "track_dst t = track_dst ?t" "et_total t = et_total ?t + 1" "events_seen s' = events_seen s" "connect_seen s' = connect_seen s"
      by (auto simp: sys_time_def tick_def)
    have "track_dst t = (pid, ip, port)" "et_total t = 1"
      using u(3,4) assms(3) by (simp_all add: track_dst_def new_connect_track_def cstr_copy_def)
    with u(2) new True have "connect_counted (pid, ip, port) (connect_tracks s) (connect_tracks s')"
      by (auto simp: connect_counted_def RW_EBPF_CONNECT_TRACKS_def)
    with u show ?thesis by blast
  next
    case False
    with None have "update_ebpf_connect_track L w F cfg pid comm ip port s = Some s"
      by (simp add: update_ebpf_connect_track_def get_or_create_connect_track_def)
    with new False show ?thesis by (auto simp: connect_counted_def RW_EBPF_CONNECT_TRACKS_def)
  qed
qed

text \<open>
  C9. A connect to an IPv4 address is tracked under the address and port the caller gave: the kernel
  program takes them from the caller's \<open>sockaddr_in\<close> and submits an event, the event crosses the ring buffer as
  bytes, and the handler on the user side, which returns, counts it and counts one connect of the calling process to
  the dotted address and the port: the track of that destination has seen one more, or there is a new one that
  has seen one, unless all 2048 are taken. This holds for every configuration, with or without the network
  log. Side conditions: the program's limits are well formed, memory reads of a scan end (\<open>pread_ok\<close>), the
  ring buffer has room (\<open>kn_reserve\<close>) and the caller's \<open>sockaddr_in\<close> can be read.
\<close>

theorem connect_reaches_tracker:
  fixes s :: "'a ebpf_scheme"
  assumes "limits_ok L" "pread_ok w" "kern_ok k" "kn_reserve k" "args ! 1 = uaddr" "uaddr \<noteq> 0"
    "kn_read k uaddr 2 = Some [2, 0]" "kn_read k uaddr 16 = Some ([2, 0, p, q, a, b, c, d] @ pad)" "16 \<le> max_ip_str L"
  shows "\<exists>ev s'. rw_trace_connect k args = Some ev
    \<and> handle_bpf_event L w F None (event_bytes ev) s = Some s'
    \<and> events_seen s' = events_seen s + 1 \<and> connect_seen s' = connect_seen s + 1
    \<and> connect_counted (sint (ucast (drop_bit 32 (kn_id k)) :: 32 word), dotted [a, b, c, d], 256 * unat p + unat q)
        (connect_tracks s) (connect_tracks s')"
proof -
  define ev where "ev = (fill_common k RW_BPF_EVENT_CONNECT 0)\<lparr>be_family := 2,
    be_port := word_of_nat (be_val [p, q]), be_ipv4 := word_of_nat (le_val [a, b, c, d])\<rparr>"
  have tr: "rw_trace_connect k args = Some ev"
    using assms(4-8) by (simp add: rw_trace_connect_def ev_def AF_INET_def Let_def)
  have "event_ok ev" using fill_common_ok[OF assms(3)] by (simp add: ev_def event_ok_def)
  from event_bytes_back[OF this] have read: "event_of_bytes (event_bytes ev) = ev"
    and len: "length (event_bytes ev) = sizeof_bpf_event" by simp_all
  have bytes: "unat x < 256" for x :: byte using unsigned_less[of x, where ?'a = nat] by simp
  have ip: "le_bytes 4 (unat (be_ipv4 ev)) = [a, b, c, d]"
  proof -
    have "le_val [a, b, c, d] < 2 ^ 32" using bytes[of a] bytes[of b] bytes[of c] bytes[of d] by simp
    then have "unat (word_of_nat (le_val [a, b, c, d]) :: 32 word) = le_val [a, b, c, d]"
      unfolding unat_of_nat by (subst mod_less) simp_all
    then have "unat (be_ipv4 ev) = le_val [a, b, c, d]" by (simp add: ev_def)
    moreover have "le_bytes (length [a, b, c, d]) (le_val [a, b, c, d]) = [a, b, c, d]" by (rule le_bytes_val)
    moreover have "length [a, b, c, d] = 4" by simp
    ultimately show ?thesis by (simp only:)
  qed
  have port: "unat (be_port ev) = 256 * unat p + unat q"
  proof -
    have "le_val [q, p] < 2 ^ 16" using bytes[of p] bytes[of q] by simp
    then have "unat (word_of_nat (le_val [q, p]) :: 16 word) = le_val [q, p]"
      unfolding unat_of_nat by (subst mod_less) simp_all
    then show ?thesis by (simp add: ev_def be_val_def)
  qed
  have fields: "be_type ev = 1" "be_tgid ev = ucast (drop_bit 32 (kn_id k))" "be_comm ev = cstr_copy 16 (kn_comm k)"
    by (simp_all add: ev_def fill_common_def RW_BPF_EVENT_CONNECT_def)
  let ?s = "s\<lparr>events_seen := events_seen s + 1, connect_seen := connect_seen s + 1\<rparr>"
  let ?pid = "sint (ucast (drop_bit 32 (kn_id k)) :: 32 word)" and ?cfg = "eb_cfg s"
  have ip': "connect_ip L ev = dotted [a, b, c, d]"
    using dotted_fits[of a b c d] assms(9) ip by (simp add: connect_ip_def ev_def AF_INET_def ntop4_def fits_def)
  obtain m where "handle_bpf_event L w F None (event_bytes ev) s
      = update_ebpf_connect_track L w F ?cfg ?pid (cstr_copy 16 (kn_comm k)) (dotted [a, b, c, d]) (256 * unat p + unat q)
          (if case ?cfg of Some c \<Rightarrow> log_network c | None \<Rightarrow> False then rw_log_network L w m ?s else ?s)"
    using port fields ip'
    by (simp add: handle_bpf_event_def len read handle_connect_event_def Let_def event_pid_def
        RW_BPF_EVENT_CONNECT_def RW_BPF_EVENT_SOCKET_def)
  moreover define u where "u = (if case ?cfg of Some c \<Rightarrow> log_network c | None \<Rightarrow> False then rw_log_network L w m ?s else ?s)"
  moreover have "runs L w ?s (Some u)" unfolding u_def by (intro runs_intros)
  moreover have "length (dotted [a, b, c, d]) < max_ip_str L" using dotted_fits[of a b c d] assms(9) by simp
  ultimately show ?thesis
    using tr update_connect_counted[OF assms(1,2), of "dotted [a, b, c, d]" F ?cfg ?pid "cstr_copy 16 (kn_comm k)" "256 * unat p + unat q" u]
      runs_ebpf[of L w ?s u] by auto
qed

text \<open>
  An anonymous mapping with PROT_EXEC, for which the caller passes the descriptor -1, is reported
  with \<open>fd=4294967295\<close>: the program keeps the low 32 bits of the descriptor in an unsigned field, and the
  handler widens that field to \<open>long long\<close> before it prints it as a signed number.
\<close>

theorem anonymous_mmap_fd:
  assumes "kn_reserve k" "and prot PROT_EXEC \<noteq> 0"
  shows "\<exists>ev pre. rw_trace_mmap k [addr, len, prot, flags, -1, 0] = Some ev \<and> syscall_alerts ev
    \<and> syscall_detail ev = cstr_copy 512 (pre @ ''fd=4294967295'')"
proof -
  define ev where "ev = (fill_common k RW_BPF_EVENT_SYSCALL (kind_code K_MMAP_EXEC))\<lparr>be_a0 := addr, be_a1 := len,
    be_a2 := prot, be_a3 := flags, be_protocol := ucast (-1 :: 64 word)\<rparr>"
  let ?pre = "''addr='' @ show_x64 addr @ '' len='' @ show_u64 len @ '' prot='' @ show_x64 prot @ '' flags=''
    @ show_x64 flags @ '' ''"
  have ev: "rw_trace_mmap k [addr, len, prot, flags, -1, 0] = Some ev"
    using assms by (simp add: rw_trace_mmap_def reserve_syscall_event_def Let_def ev_def)
  have kind: "kind_of_code (be_kind ev) = Some K_MMAP_EXEC"
    by (simp add: kind_of_code_def fill_common_def ev_def)
  have args: "be_a0 ev = addr" "be_a1 ev = len" "be_a2 ev = prot" "be_a3 ev = flags" by (simp_all add: ev_def)
  have fd: "show_int (sint (ucast (be_protocol ev) :: 64 word)) = ''4294967295''"
  proof -
    have "ucast (- 1 :: 64 word) = (- 1 :: 32 word)" by transfer simp
    then have "be_protocol ev = - 1" by (simp add: ev_def)
    moreover have "sint (ucast (- 1 :: 32 word) :: 64 word) = 4294967295" by code_simp
    moreover have "show_int 4294967295 = ''4294967295''"
      by (simp add: show_int_def show_nat_def show_base.simps digit_char_def)
    ultimately show ?thesis by (simp only:)
  qed
  have "syscall_alerts ev" unfolding syscall_alerts_def kind by simp
  moreover have "syscall_detail ev = cstr_copy 512 (?pre @ ''fd=4294967295'')"
    unfolding syscall_detail_def kind option.case bpf_kind.case fd args append_assoc
    by simp
  ultimately show ?thesis using ev by blast
qed

lemma anonymous_mmap_fd_witness:
  "\<exists>ev pre. rw_trace_mmap sample_kern [0, 4096, 7, 34, -1, 0] = Some ev \<and> syscall_alerts ev
    \<and> syscall_detail ev = cstr_copy 512 (pre @ ''fd=4294967295'')"
  by (rule anonymous_mmap_fd) (simp_all add: sample_kern_def PROT_EXEC_def)

lemma connect_reaches_tracker_witness:
  "\<exists>ev s' t. rw_trace_connect sample_kern [3, 4096, 16, 0, 0, 0] = Some ev
    \<and> handle_bpf_event small_limits idle_os exact_fp None (event_bytes ev) ((ebpf_start idle_os)\<lparr>eb_cfg := Some default_config\<rparr>) = Some s'
    \<and> connect_tracks s' = [t] \<and> et_pid t = 7 \<and> et_ip t = ''10.0.0.1'' \<and> et_port t = 443 \<and> et_total t = 1 \<and> connect_seen s' = 1"
proof -
  let ?s = "(ebpf_start idle_os)\<lparr>eb_cfg := Some default_config\<rparr>"
  have f: "connect_tracks ?s = []" "connect_seen ?s = 0" by (simp_all add: ebpf_start_def net.defs ebpf.defs)
  have id: "sint (ucast (drop_bit 32 (kn_id sample_kern)) :: 32 word) = 7" by code_simp
  have mem: "kn_read sample_kern 4096 2 = Some [2, 0]"
    "kn_read sample_kern 4096 16 = Some ([2, 0, 1, 187, 10, 0, 0, 1] @ replicate 8 0)" "kn_reserve sample_kern"
    by (code_simp, code_simp, simp_all add: sample_kern_def)
  have port: "256 * unat (1 :: byte) + unat (187 :: byte) = 443" by simp
  have ip: "dotted [10, 0, 0, 1] = ''10.0.0.1''" by code_simp
  show ?thesis
    using connect_reaches_tracker[OF small_limits_ok idle_pread_ok sample_kern_ok, of "[3, 4096, 16, 0, 0, 0]" 4096 1 187 10 0 0 1
        "replicate 8 0" exact_fp ?s]
    unfolding id port ip f by (auto simp: mem small_limits_def connect_counted_def track_dst_def)
qed

text \<open>The execute bits that the handler of chmod looks at never change what it decides.\<close>

lemma chmod_mode_ignored:
  "be_kind ev = kind_code K_CHMOD \<or> be_kind ev = kind_code K_FCHMODAT
   \<Longrightarrow> syscall_alerts ev = bpf_path_is_suspicious (be_str ev)"
  by (auto simp: syscall_alerts_def kind_of_code_def bpf_path_is_suspicious_def)

subsection \<open>From a system call to a case\<close>

lemma syscall_alert_opens:
  assumes "limits_ok L" "pread_ok w" "\<And>t p. env_mkdir w t p" "case_dir_fits L w cfg pid" "0 < pid" "whitelist_off cfg"
    "\<forall>points. threshold_or 60 cfg \<le> default_floor_for_finding (Some ''SYSCALL'') (Some kind) points" "kind \<noteq> []"
  shows "\<exists>s'. rw_syscall_alert L w cfg pid comm (Some kind) detail s = Some s' \<and> (tables_full s' \<or> rw_case_has pid s')"
proof -
  let ?points = "if strstr kind ''ptrace'' \<or> strstr kind ''process_vm_writev'' \<or> strstr kind ''mprotect'' \<or> strstr kind ''mmap''
    then 85 else 75 :: int"
  have "runs L w s (rw_syscall_alert L w cfg pid comm (Some kind) detail s)"
    by (rule runs_syscall_alert[OF assms(1) sys_grows_refl])
  then obtain s' where s': "rw_syscall_alert L w cfg pid comm (Some kind) detail s = Some s'"
    using assms(2) by (auto simp: runs_def)
  moreover have "str_or (Some kind) d = kind" for d using assms(8) by (cases kind) simp_all
  ultimately obtain t s1 m where s1: "score_add L w cfg pid (Some (str_or comm ''<unknown>'')) None ''SYSCALL'' kind ?points t = Some s1"
    and rest: "case_detail L w cfg pid ?points ''SYSCALL_DETAIL'' m s1 = Some s'"
    unfolding rw_syscall_alert_def Let_def Option.bind_eq_Some_conv by metis
  have "runs L w s1 (Some s')" unfolding rest[symmetric] by (rule runs_case_detail[OF assms(1) sys_grows_refl])
  then have g: "tables_grow s1 s'" by (auto simp: runs_def intro: sys_grows_tables)
  have "rw_case_has pid s'" if "\<not> tables_full s'"
    using score_add_opens[OF assms(1-5) _ assms(6) _ s1 tables_grow_room[OF g that]] assms(7)
    by (auto intro: tables_grow_has[OF g])
  with s' show ?thesis by blast
qed

text \<open>
  C4. A process that traces another one, or writes into its memory, gets a case: the kernel program submits
  an event, the bytes of the event read back on the user side, and the handler, which returns, leaves the
  calling process with a case, unless a table is full. The threshold must be 85 at most and the
  whitelist off, and directories can be made.
\<close>

theorem injecting_syscalls_open_cases:
  assumes "limits_ok L" "pread_ok w" "\<And>t p. env_mkdir w t p" "kern_ok k" "kn_reserve k"
    "prog = rw_trace_ptrace \<or> prog = rw_trace_process_vm_writev"
    "pid = sint (ucast (drop_bit 32 (kn_id k)) :: 32 word)" "0 < pid" "case_dir_fits L w (eb_cfg s) pid"
    "whitelist_off (eb_cfg s)" "threshold_or 60 (eb_cfg s) \<le> 85"
  shows "\<exists>ev s'. prog k args = Some ev \<and> handle_bpf_event L w F None (event_bytes ev) s = Some s'
    \<and> (tables_full s' \<or> rw_case_has pid s')"
proof -
  have "\<exists>K ev. (K = K_PTRACE \<or> K = K_PVM_WRITE) \<and> prog k args = Some ev \<and> be_kind ev = kind_code K
      \<and> be_type ev = RW_BPF_EVENT_SYSCALL \<and> be_tgid ev = ucast (drop_bit 32 (kn_id k)) \<and> event_ok ev"
    using assms(6)
  proof
    assume "prog = rw_trace_ptrace"
    then show ?thesis using assms(5) fill_common_ok[OF assms(4)]
      by (intro exI[of _ K_PTRACE]) (auto simp: rw_trace_ptrace_def reserve_syscall_event_def fill_common_def event_ok_def)
  next
    assume "prog = rw_trace_process_vm_writev"
    then show ?thesis using assms(5) fill_common_ok[OF assms(4)]
      by (intro exI[of _ K_PVM_WRITE])
        (auto simp: rw_trace_process_vm_writev_def reserve_syscall_event_def fill_common_def event_ok_def)
  qed
  then obtain K ev where K: "K = K_PTRACE \<or> K = K_PVM_WRITE" and ev: "prog k args = Some ev" "be_kind ev = kind_code K"
    "be_type ev = RW_BPF_EVENT_SYSCALL" "be_tgid ev = ucast (drop_bit 32 (kn_id k))" "event_ok ev" by blast
  have kind: "kind_of_code (kind_code K) = Some K" using K by (auto simp: kind_of_code_def)
  then have al: "syscall_alerts ev" using K ev(2) by (auto simp: syscall_alerts_def)
  have fl: "85 \<le> default_floor_for_finding (Some ''SYSCALL'') (Some (kind_name K)) points" for points
    using K by (auto simp: default_floor_for_finding_def contains_ci_sublist)
  have h: "handle_bpf_event L w F None (event_bytes ev) s =
     rw_syscall_alert L w (eb_cfg s) pid (Some (be_comm ev)) (Some (kind_name K)) (Some (syscall_detail ev))
       (s\<lparr>events_seen := events_seen s + 1, syscall_seen := syscall_seen s + 1\<rparr>)"
    using event_bytes_back[OF ev(5)] al ev(2-4) kind assms(7)
    by (simp add: handle_bpf_event_def handle_syscall_event_def Let_def event_pid_def syscall_kind_name_def
        RW_BPF_EVENT_CONNECT_def RW_BPF_EVENT_SOCKET_def RW_BPF_EVENT_SYSCALL_def)
  have th: "\<forall>points. threshold_or 60 (eb_cfg s) \<le> default_floor_for_finding (Some ''SYSCALL'') (Some (kind_name K)) points"
    using fl assms(11) by (blast intro: order_trans)
  have "kind_name K \<noteq> []" using K by auto
  from syscall_alert_opens[OF assms(1-3,9,8,10) th this] show ?thesis by (intro exI[of _ ev]) (simp only: ev(1) h simp_thms HOL.ex_simps)
qed

lemma injecting_syscalls_open_cases_witness:
  "\<exists>ev s'. rw_trace_ptrace sample_kern [16, 9, 0, 0, 0, 0] = Some ev
    \<and> handle_bpf_event small_limits idle_os exact_fp None (event_bytes ev) (ebpf_start idle_os) = Some s'
    \<and> (tables_full s' \<or> rw_case_has 7 s')"
proof -
  have f: "eb_cfg (ebpf_start idle_os) = None" by (simp add: ebpf_start_def net.defs ebpf.defs)
  have id: "7 = sint (ucast (drop_bit 32 (kn_id sample_kern)) :: 32 word)" by code_simp
  have fits: "case_dir_fits small_limits idle_os None 7"
    using show_nat_length[of 7] by (simp add: case_dir_fits_def case_base_def idle_os_def small_limits_def show_int_def)
  have mk: "env_mkdir idle_os t p" for t p by (simp add: idle_os_def)
  show ?thesis
    by (rule injecting_syscalls_open_cases[OF small_limits_ok idle_pread_ok _ sample_kern_ok _ _ id])
      (simp_all add: f fits mk whitelist_off_def threshold_or_def sample_kern_def)
qed

end
