(* ===== verification/Modman.thy ===== *)
theory Modman
  imports Ebpf
begin

section \<open>The module manager (\<open>core/module.c\<close>)\<close>

text \<open>
  Four built-in modules that wrap the backends, and plugins: shared objects that \<open>dlopen\<close> loads and whose
  module struct the manager drives. The state of the manager extends that of the eBPF backend and is the
  state of the whole program, \<open>daemon\<close>. A library is a number, the same for every path that leads to the
  same file; its module struct (\<open>dyn_on\<close> is the field \<open>initialized\<close> in it) and its static data
  (\<open>plug_mem\<close>, a number) come into being when its reference count leaves zero and are gone when it is
  back there, as \<open>dlopen\<close> and \<open>dlclose\<close> document. What a plugin does is a parameter: functions on the
  state of the program, because a plugin may call everything the program exports. The value
  \<open>RW_MODULE_ABI_VERSION\<close> is a parameter too, its header is not in the repository.
\<close>

definition RW_MAX_DYNAMIC_MODULES :: nat where "RW_MAX_DYNAMIC_MODULES = 64"

definition RW_MAX_MODULE_CONFIG_LINE :: nat where "RW_MAX_MODULE_CONFIG_LINE = 1024"

datatype builtin = M_whitelist | M_proc_connector | M_fanotify | M_ebpf

fun builtin_name :: "builtin \<Rightarrow> string" where
  "builtin_name M_whitelist = ''whitelist''"
| "builtin_name M_proc_connector = ''proc_connector''"
| "builtin_name M_fanotify = ''fanotify''"
| "builtin_name M_ebpf = ''ebpf''"

definition g_modules :: "builtin list" where
  "g_modules = [M_whitelist, M_proc_connector, M_fanotify, M_ebpf]"

record dyn_slot =
  ds_lib :: nat
  ds_path :: string

record daemon = ebpf +
  mod_on :: "builtin \<Rightarrow> bool"
  mod_fd :: "builtin \<Rightarrow> int"
  last_status :: time
  dyn_slots :: "dyn_slot list"
  dyn_on :: "nat \<Rightarrow> bool"
  dl_refs :: "nat \<Rightarrow> int"
  plug_mem :: "nat \<Rightarrow> int"

record plugin =
  pg_name :: "string option"
  pg_abi :: int
  pg_enabled :: "(rw_config option \<Rightarrow> bool) option"
  pg_init :: "(rw_config option \<Rightarrow> daemon \<Rightarrow> int \<times> daemon) option"
  pg_poll :: "(rw_config option \<Rightarrow> daemon \<Rightarrow> daemon) option"
  pg_shutdown :: "(daemon \<Rightarrow> daemon) option"

text \<open>
  The machine the program runs on: the parameters of the components, what the initialisation of the two
  kernel interfaces returns, what \<open>stat\<close> and \<open>fopen\<close> say of the whitelist file, and the dynamic loader.
\<close>

record machine =
  mc_lim :: limits
  mc_os :: os
  mc_fp :: fp
  mc_bpf :: bpf_lib
  mc_proc_fd :: int
  mc_fan_fd :: int
  mc_wl :: "nat \<Rightarrow> time option \<times> string option"
  mc_wl_path_len :: nat
  mc_abi :: int
  mc_dlopen :: "nat \<Rightarrow> string \<Rightarrow> nat option"
  mc_dlerror :: string
  mc_symbol :: "nat \<Rightarrow> bool"
  mc_module :: "nat \<Rightarrow> plugin option"

text \<open>What the kernel delivers to the built-in modules at one poll.\<close>

record delivery =
  dv_proc :: "proc_event list list"
  dv_fan :: "fan_event list list"
  dv_ring :: "byte list list"

definition log_m :: "machine \<Rightarrow> string \<Rightarrow> 'a logger_scheme \<Rightarrow> 'a logger_scheme" where
  "log_m mc msg s = rw_log_info (mc_lim mc) (mc_os mc) msg s"

definition errno_text :: "machine \<Rightarrow> 'a world_scheme \<Rightarrow> string" where
  "errno_text mc s = env_strerror (mc_os mc) (clk s)"

subsection \<open>Built-in modules\<close>

fun enabled_in :: "builtin \<Rightarrow> rw_config option \<Rightarrow> bool" where
  "enabled_in m None = False"
| "enabled_in m (Some c) = (case m of
     M_whitelist \<Rightarrow> enable_whitelist c
   | M_proc_connector \<Rightarrow> enable_proc_events c
   | M_fanotify \<Rightarrow> enable_fanotify c
   | M_ebpf \<Rightarrow> enable_ebpf c)"

definition builtin_init :: "machine \<Rightarrow> rw_config option \<Rightarrow> builtin \<Rightarrow> daemon \<Rightarrow> int \<times> daemon" where
  "builtin_init mc cfg m s = (case m of
     M_whitelist \<Rightarrow>
       (let (mtime, content) = mc_wl mc (clk s);
            s1 = tick (s\<lparr>mod_fd := (mod_fd s)(m := -1)\<rparr>)
        in (0, s1\<lparr>wl := rw_whitelist_init (mc_wl_path_len mc) cfg mtime content (wl s1)\<rparr>))
   | M_proc_connector \<Rightarrow>
       (if mc_proc_fd mc < 0 then -1 else 0, s\<lparr>mod_fd := (mod_fd s)(m := mc_proc_fd mc)\<rparr>)
   | M_fanotify \<Rightarrow>
       (if mc_fan_fd mc < 0 then -1 else 0, s\<lparr>mod_fd := (mod_fd s)(m := mc_fan_fd mc)\<rparr>)
   | M_ebpf \<Rightarrow>
       (let (rc, s1) = rw_ebpf_init_backend (mc_lim mc) (mc_os mc) (mc_bpf mc) (s\<lparr>mod_fd := (mod_fd s)(m := -1)\<rparr>)
        in (if rc \<noteq> 0 then -1 else 0, s1)))"

definition builtin_poll :: "machine \<Rightarrow> rw_config \<Rightarrow> delivery \<Rightarrow> builtin \<Rightarrow> daemon \<Rightarrow> daemon option" where
  "builtin_poll mc cfg dv m s = (case m of
     M_whitelist \<Rightarrow>
       (let (now, s1) = sys_time (mc_os mc) s;
            (mtime, content) = mc_wl mc (clk s1)
        in Some ((tick s1)\<lparr>wl := rw_whitelist_poll (mc_wl_path_len mc) (Some cfg) now mtime content (wl s1)\<rparr>))
   | M_proc_connector \<Rightarrow>
       (if mod_fd s m \<ge> 0 then rw_proc_events_poll (mc_lim mc) (mc_os mc) cfg (dv_proc dv) s else Some s)
   | M_fanotify \<Rightarrow>
       (if mod_fd s m \<ge> 0 then rw_fanotify_poll (mc_lim mc) (mc_os mc) cfg (dv_fan dv) s else Some s)
   | M_ebpf \<Rightarrow>
       (let (now, s1) = sys_time (mc_os mc) s
        in do {
             s2 \<leftarrow> rw_ebpf_poll (mc_lim mc) (mc_os mc) (mc_fp mc) (Some cfg) (dv_ring dv) s1;
             Some (if now - last_status s2 \<ge> 15 then s2\<lparr>last_status := now\<rparr> else s2) }))"

definition builtin_shutdown :: "builtin \<Rightarrow> daemon \<Rightarrow> daemon" where
  "builtin_shutdown m s = (case m of
     M_whitelist \<Rightarrow> s\<lparr>wl := rw_whitelist_shutdown (wl s)\<rparr>
   | M_proc_connector \<Rightarrow> s
   | M_fanotify \<Rightarrow> s
   | M_ebpf \<Rightarrow> rw_ebpf_shutdown s)"

subsection \<open>The module configuration\<close>

definition is_blank :: "char \<Rightarrow> bool" where
  "is_blank c \<longleftrightarrow> c = CHR '' '' \<or> c = CHR 0x09 \<or> c = CHR 0x0D \<or> c = newline"

definition mtrim :: "string \<Rightarrow> string" where
  "mtrim s = rev (dropWhile is_blank (rev (dropWhile is_blank s)))"

definition str_bool_enabled :: "string option \<Rightarrow> bool \<Rightarrow> bool" where
  "str_bool_enabled s default_value = (case s of
     None \<Rightarrow> default_value
   | Some v \<Rightarrow> if v \<in> {''1'', ''on'', ''yes'', ''true'', ''enabled''} then True
              else if v \<in> {''0'', ''off'', ''no'', ''false'', ''disabled''} then False
              else default_value)"

text \<open>A line \<open>key=value\<close>; comments and lines without \<open>=\<close> are skipped.\<close>

definition config_entry :: "string \<Rightarrow> (string \<times> string) option" where
  "config_entry line =
     (let p = mtrim line
      in if p = [] \<or> hd p = CHR ''#'' then None
         else if CHR ''='' \<notin> set p then None
         else Some (mtrim (takeWhile (\<lambda>c. c \<noteq> CHR ''='') p), mtrim (tl (dropWhile (\<lambda>c. c \<noteq> CHR ''='') p))))"

definition config_lines :: "machine \<Rightarrow> rw_config option \<Rightarrow> 'a world_scheme \<Rightarrow> string list option \<times> 'a world_scheme" where
  "config_lines mc cfg s = (case cfg of
     None \<Rightarrow> (None, s)
   | Some c \<Rightarrow> (case module_config_path c of
       None \<Rightarrow> (None, s)
     | Some path \<Rightarrow>
         (let (t, s1) = sys_read (mc_os mc) path s
          in (map_option (fgets_lines RW_MAX_MODULE_CONFIG_LINE) t, s1))))"

fun builtin_lines :: "string \<Rightarrow> bool \<Rightarrow> string list \<Rightarrow> bool \<Rightarrow> bool" where
  "builtin_lines name default_value [] result = result"
| "builtin_lines name default_value (l # ls) result =
     builtin_lines name default_value ls (case config_entry l of
        None \<Rightarrow> result
      | Some (key, value) \<Rightarrow>
          if key = cstr_copy 256 (''builtin.'' @ name) then str_bool_enabled (Some value) default_value else result)"

definition builtin_config_enabled ::
  "machine \<Rightarrow> rw_config option \<Rightarrow> string \<Rightarrow> bool \<Rightarrow> 'a world_scheme \<Rightarrow> bool \<times> 'a world_scheme" where
  "builtin_config_enabled mc cfg name default_value s =
     (let (ls, s1) = config_lines mc cfg s
      in (case ls of None \<Rightarrow> default_value | Some l \<Rightarrow> builtin_lines name default_value l default_value, s1))"

subsection \<open>Plugins\<close>

text \<open>
  The count of a library is an int, so that closing it more often than it was opened shows as a negative count.
\<close>

definition dl_open :: "nat \<Rightarrow> daemon \<Rightarrow> daemon" where
  "dl_open lib s =
     (let s1 = (if dl_refs s lib = 0
                then s\<lparr>dyn_on := (dyn_on s)(lib := False), plug_mem := (plug_mem s)(lib := 0)\<rparr> else s)
      in s1\<lparr>dl_refs := (dl_refs s)(lib := dl_refs s lib + 1)\<rparr>)"

definition dl_close :: "nat \<Rightarrow> daemon \<Rightarrow> daemon" where
  "dl_close lib s = s\<lparr>dl_refs := (dl_refs s)(lib := dl_refs s lib - 1)\<rparr>"

definition dynamic_module_already_loaded :: "string \<Rightarrow> daemon \<Rightarrow> bool" where
  "dynamic_module_already_loaded path s \<longleftrightarrow> (\<exists>d\<in>set (dyn_slots s). ds_path d = path)"

definition init_dynamic_module ::
  "machine \<Rightarrow> nat \<Rightarrow> plugin option \<Rightarrow> string \<Rightarrow> rw_config option \<Rightarrow> daemon \<Rightarrow> int \<times> daemon" where
  "init_dynamic_module mc lib md path cfg s = (case md of
     None \<Rightarrow> (-1, log_m mc (''plugin '' @ path @ '' returned invalid module'') s)
   | Some p \<Rightarrow> (case pg_name p of
       None \<Rightarrow> (-1, log_m mc (''plugin '' @ path @ '' returned invalid module'') s)
     | Some name \<Rightarrow>
         if pg_abi p \<noteq> 0 \<and> pg_abi p \<noteq> mc_abi mc
         then (-1, log_m mc (''plugin '' @ path @ '' ABI mismatch'') s)
         else if (case pg_enabled p of Some f \<Rightarrow> \<not> f cfg | None \<Rightarrow> False) then (-1, s)
         else (let (rc, s1) = (case pg_init p of Some f \<Rightarrow> f cfg s | None \<Rightarrow> (0, s))
               in if rc \<noteq> 0
                  then (-1, log_m mc (''plugin module '' @ name @ '' init failed: '' @ errno_text mc s1) s1)
                  else let s2 = s1\<lparr>dyn_on := (dyn_on s1)(lib := True)\<rparr>
                       in if length (dyn_slots s2) \<ge> RW_MAX_DYNAMIC_MODULES
                          then (-1, log_m mc (''dynamic module limit reached, skipping '' @ path) s2)
                          else (0, log_m mc (''dynamic module '' @ name @ '' enabled from '' @ path)
                                 (s2\<lparr>dyn_slots := dyn_slots s2 @ [\<lparr>ds_lib = lib, ds_path = cstr_copy 512 path\<rparr>]\<rparr>)))))"

definition load_dynamic_module_file ::
  "machine \<Rightarrow> string option \<Rightarrow> rw_config option \<Rightarrow> daemon \<Rightarrow> int \<times> daemon" where
  "load_dynamic_module_file mc path cfg s = (case path of
     None \<Rightarrow> (0, s)
   | Some p \<Rightarrow>
       if dynamic_module_already_loaded p s then (0, s)
       else case mc_dlopen mc (clk s) p of
          None \<Rightarrow> (-1, log_m mc (''dlopen failed for '' @ p @ '': '' @ mc_dlerror mc) (tick s))
        | Some lib \<Rightarrow>
            (let s1 = dl_open lib (tick s)
             in if \<not> mc_symbol mc lib
                then (-1, dl_close lib (log_m mc (''plugin '' @ p @ '' missing signalhunter_module'') s1))
                else let (rc, s2) = init_dynamic_module mc lib (mc_module mc lib) p cfg s1
                     in if rc \<noteq> 0 then (-1, dl_close lib s2) else (0, s2)))"

definition has_so_suffix :: "string option \<Rightarrow> bool" where
  "has_so_suffix name = (case name of
     None \<Rightarrow> False
   | Some n \<Rightarrow> length n > 3 \<and> drop (length n - 3) n = ''.so'')"

fun load_names :: "machine \<Rightarrow> string \<Rightarrow> rw_config option \<Rightarrow> string list \<Rightarrow> int \<times> daemon \<Rightarrow> int \<times> daemon" where
  "load_names mc dir cfg [] st = st"
| "load_names mc dir cfg (n # ns) (cnt, s) =
     (if \<not> has_so_suffix (Some n) then load_names mc dir cfg ns (cnt, s)
      else let (rc, s1) = load_dynamic_module_file mc (Some (cstr_copy 1024 (dir @ ''/'' @ n))) cfg s
           in load_names mc dir cfg ns (if rc = 0 then cnt + 1 else cnt, s1))"

definition ENOENT :: int where "ENOENT = 2"

definition load_dynamic_module_dir ::
  "machine \<Rightarrow> string option \<Rightarrow> rw_config option \<Rightarrow> daemon \<Rightarrow> int \<times> daemon" where
  "load_dynamic_module_dir mc dir_path cfg s = (case dir_path of
     None \<Rightarrow> (0, s)
   | Some dir \<Rightarrow>
       (let (names, s1) = sys_opendir (mc_os mc) dir s
        in case names of
             None \<Rightarrow> (0, if env_errno (mc_os mc) (clk s1) \<noteq> ENOENT
                         then log_m mc (''plugin dir '' @ dir @ '' unavailable: '' @ errno_text mc s1) s1 else s1)
           | Some ns \<Rightarrow> load_names mc dir cfg ns (0, s1)))"

fun load_config_lines :: "machine \<Rightarrow> rw_config option \<Rightarrow> string list \<Rightarrow> int \<times> daemon \<Rightarrow> int \<times> daemon" where
  "load_config_lines mc cfg [] st = st"
| "load_config_lines mc cfg (l # ls) (cnt, s) =
     load_config_lines mc cfg ls (case config_entry l of
        None \<Rightarrow> (cnt, s)
      | Some (key, value) \<Rightarrow>
          if key = ''plugin''
          then (let (rc, s1) = load_dynamic_module_file mc (Some value) cfg s in (if rc = 0 then cnt + 1 else cnt, s1))
          else if key = ''plugin_dir''
          then (let (n, s1) = load_dynamic_module_dir mc (Some value) cfg s in (cnt + n, s1))
          else (cnt, s))"

definition load_dynamic_modules_from_config :: "machine \<Rightarrow> rw_config option \<Rightarrow> daemon \<Rightarrow> int \<times> daemon" where
  "load_dynamic_modules_from_config mc cfg s =
     (let (ls, s1) = config_lines mc cfg s
      in case ls of None \<Rightarrow> (0, s1) | Some l \<Rightarrow> load_config_lines mc cfg l (0, s1))"

definition rw_modules_load_dynamic :: "machine \<Rightarrow> rw_config option \<Rightarrow> daemon \<Rightarrow> int \<times> daemon" where
  "rw_modules_load_dynamic mc cfg s = (case cfg of
     None \<Rightarrow> (0, s)
   | Some c \<Rightarrow>
       if \<not> enable_dynamic_plugins c then (0, s)
       else let (n, s1) = load_dynamic_modules_from_config mc cfg s;
                (m, s2) = load_dynamic_module_dir mc (plugin_dir c) cfg s1
            in (n + m, s2))"

subsection \<open>All modules\<close>

definition init_builtin :: "machine \<Rightarrow> rw_config option \<Rightarrow> builtin \<Rightarrow> int \<times> daemon \<Rightarrow> int \<times> daemon" where
  "init_builtin mc cfg m st = (case st of (n, s) \<Rightarrow>
     if \<not> enabled_in m cfg then (n, s)
     else let (on, s1) = builtin_config_enabled mc cfg (builtin_name m) True s
          in if \<not> on then (n, log_m mc (''builtin module '' @ builtin_name m @ '' disabled by module config'') s1)
             else let (rc, s2) = builtin_init mc cfg m s1
                  in if rc \<noteq> 0
                     then (n, log_m mc (''module '' @ builtin_name m @ '' unavailable: '' @ errno_text mc s2) s2)
                     else (n + 1, log_m mc (''module '' @ builtin_name m @ '' enabled'')
                             (s2\<lparr>mod_on := (mod_on s2)(m := True)\<rparr>)))"

definition rw_modules_init_all :: "machine \<Rightarrow> rw_config option \<Rightarrow> daemon \<Rightarrow> int \<times> daemon" where
  "rw_modules_init_all mc cfg s =
     (let (n, s1) = fold (init_builtin mc cfg) g_modules (0, s);
          (k, s2) = rw_modules_load_dynamic mc cfg s1
      in (n + k, s2))"

fun poll_builtins :: "machine \<Rightarrow> rw_config \<Rightarrow> delivery \<Rightarrow> builtin list \<Rightarrow> daemon \<Rightarrow> daemon option" where
  "poll_builtins mc cfg dv [] s = Some s"
| "poll_builtins mc cfg dv (m # ms) s =
     (if \<not> mod_on s m then poll_builtins mc cfg dv ms s
      else do { s1 \<leftarrow> builtin_poll mc cfg dv m s; poll_builtins mc cfg dv ms s1 })"

definition poll_plugin :: "machine \<Rightarrow> rw_config option \<Rightarrow> dyn_slot \<Rightarrow> daemon \<Rightarrow> daemon" where
  "poll_plugin mc cfg d s =
     (if \<not> dyn_on s (ds_lib d) then s
      else case Option.bind (mc_module mc (ds_lib d)) pg_poll of None \<Rightarrow> s | Some f \<Rightarrow> f cfg s)"

definition rw_modules_poll_all :: "machine \<Rightarrow> rw_config \<Rightarrow> delivery \<Rightarrow> daemon \<Rightarrow> daemon option" where
  "rw_modules_poll_all mc cfg dv s = do {
     s1 \<leftarrow> poll_builtins mc cfg dv g_modules s;
     Some (fold (poll_plugin mc (Some cfg)) (dyn_slots s1) s1) }"

definition shutdown_builtin :: "builtin \<Rightarrow> daemon \<Rightarrow> daemon" where
  "shutdown_builtin m s =
     (if \<not> mod_on s m then s
      else let s1 = builtin_shutdown m s in s1\<lparr>mod_on := (mod_on s1)(m := False)\<rparr>)"

definition shutdown_plugin :: "machine \<Rightarrow> dyn_slot \<Rightarrow> daemon \<Rightarrow> daemon" where
  "shutdown_plugin mc d s =
     (let lib = ds_lib d;
          s1 = (if dyn_on s lib
                then (case Option.bind (mc_module mc lib) pg_shutdown of
                        None \<Rightarrow> s
                      | Some f \<Rightarrow> (let s2 = f s in s2\<lparr>dyn_on := (dyn_on s2)(lib := False)\<rparr>))
                else s)
      in dl_close lib s1)"

definition rw_modules_shutdown_all :: "machine \<Rightarrow> daemon \<Rightarrow> daemon" where
  "rw_modules_shutdown_all mc s =
     (let s1 = fold shutdown_builtin g_modules s
      in (fold (shutdown_plugin mc) (dyn_slots s1) s1)\<lparr>dyn_slots := []\<rparr>)"

definition rw_modules_print_active :: "machine \<Rightarrow> daemon \<Rightarrow> string" where
  "rw_modules_print_active mc s =
     (let names = map builtin_name (filter (mod_on s) g_modules)
                @ map (\<lambda>d. (case Option.bind (mc_module mc (ds_lib d)) pg_name of Some n \<Rightarrow> n | None \<Rightarrow> [])
                           @ ''(dynamic)'') (filter (\<lambda>d. dyn_on s (ds_lib d)) (dyn_slots s))
      in case names of
           [] \<Rightarrow> ''none''
         | n # ns \<Rightarrow> n @ concat (map (\<lambda>x. '', '' @ x) ns))"

subsection \<open>The example plugin (\<open>plugins/example_heartbeat.c\<close>)\<close>

definition heartbeat_init :: "machine \<Rightarrow> rw_config option \<Rightarrow> daemon \<Rightarrow> int \<times> daemon" where
  "heartbeat_init mc cfg s = (0, log_m mc ''example heartbeat plugin initialized'' s)"

definition heartbeat_poll :: "machine \<Rightarrow> nat \<Rightarrow> rw_config option \<Rightarrow> daemon \<Rightarrow> daemon" where
  "heartbeat_poll mc lib cfg s =
     (let (now, s1) = sys_time (mc_os mc) s
      in if now - plug_mem s1 lib \<ge> 30
         then (rw_log_event (mc_lim mc) (mc_os mc) (''plugin=example_heartbeat status=alive time='' @ show_int now) s1)
                \<lparr>plug_mem := (plug_mem s1)(lib := now)\<rparr>
         else s1)"

definition heartbeat_shutdown :: "machine \<Rightarrow> daemon \<Rightarrow> daemon" where
  "heartbeat_shutdown mc s = log_m mc ''example heartbeat plugin shutdown'' s"

definition heartbeat_module :: "machine \<Rightarrow> nat \<Rightarrow> plugin" where
  "heartbeat_module mc lib =
     \<lparr>pg_name = Some ''example_heartbeat'', pg_abi = mc_abi mc, pg_enabled = None,
      pg_init = Some (heartbeat_init mc), pg_poll = Some (heartbeat_poll mc lib),
      pg_shutdown = Some (heartbeat_shutdown mc)\<rparr>"

subsection \<open>The contract of a plugin\<close>

text \<open>
  What the manager relies on when it calls into a plugin: the call may do anything to the state that the
  exported functions can do, but it leaves the manager's own table and the loader's counts alone.
\<close>

definition plugin_call :: "limits \<Rightarrow> daemon \<Rightarrow> daemon \<Rightarrow> bool" where
  "plugin_call L s s' \<longleftrightarrow> (eb_inv L s \<longrightarrow> eb_inv L s') \<and> dyn_slots s' = dyn_slots s \<and> dl_refs s' = dl_refs s"

locale plugin_abi =
  fixes L :: limits and p :: plugin
  assumes init_law: "pg_init p = Some f \<Longrightarrow> plugin_call L s (snd (f cfg s))"
    and poll_law: "pg_poll p = Some g \<Longrightarrow> plugin_call L s (g cfg s)"
    and shutdown_law: "pg_shutdown p = Some h \<Longrightarrow> plugin_call L s (h s)"
begin

lemma init_call: "plugin_call L s (snd (case pg_init p of Some f \<Rightarrow> f cfg s | None \<Rightarrow> (0, s)))"
proof (cases "pg_init p")
  case (Some f)
  with init_law[OF Some, of s cfg] show ?thesis by simp
qed (simp add: plugin_call_def)

lemma shutdown_refs: "pg_shutdown p = Some h \<Longrightarrow> dyn_slots (h s) = dyn_slots s \<and> dl_refs (h s) = dl_refs s"
  using shutdown_law[of h s] by (simp add: plugin_call_def)

end

definition plugins_ok :: "machine \<Rightarrow> bool" where
  "plugins_ok mc \<longleftrightarrow> (\<forall>lib p. mc_module mc lib = Some p \<longrightarrow> plugin_abi (mc_lim mc) p)"

lemma plugin_call_eb: "eb_keeps L s s' \<Longrightarrow> plugin_call L s s'"
  by (cases s; cases s') (simp add: plugin_call_def eb_keeps_def)

lemma plugin_call_trans: "plugin_call L s t \<Longrightarrow> plugin_call L t u \<Longrightarrow> plugin_call L s u"
  by (simp add: plugin_call_def)

lemma log_plugin_call: "plugin_call L s (log_m mc m s)" "plugin_call L s (rw_log_event K w m s)"
  unfolding log_m_def by (rule plugin_call_eb[OF eb_keeps_net[OF net_keeps_core[OF sys_grows_logger[OF rw_log_only(1)]]]],
      rule plugin_call_eb[OF eb_keeps_net[OF net_keeps_core[OF sys_grows_logger[OF rw_log_only(5)]]]])

interpretation heartbeat: plugin_abi "mc_lim mc" "heartbeat_module mc lib"
proof
  fix f g h cfg s
  show "pg_init (heartbeat_module mc lib) = Some f \<Longrightarrow> plugin_call (mc_lim mc) s (snd (f cfg s))"
    by (auto simp: heartbeat_module_def heartbeat_init_def log_plugin_call)
  show "pg_shutdown (heartbeat_module mc lib) = Some h \<Longrightarrow> plugin_call (mc_lim mc) s (h s)"
    by (auto simp: heartbeat_module_def heartbeat_shutdown_def log_plugin_call)
  have t: "plugin_call (mc_lim mc) s (snd (sys_time (mc_os mc) s))"
    by (rule plugin_call_eb[OF eb_keeps_steps(4)[OF eb_contract.refl]])
  have m: "plugin_call (mc_lim mc) t (t\<lparr>plug_mem := x\<rparr>)" for t x
    by (simp add: plugin_call_def eb_inv_def net_inv_def sys_inv_def)
  show "pg_poll (heartbeat_module mc lib) = Some g \<Longrightarrow> plugin_call (mc_lim mc) s (g cfg s)"
    using plugin_call_trans[OF t plugin_call_trans[OF log_plugin_call(2) m]] t
    by (auto simp: heartbeat_module_def heartbeat_poll_def Let_def split_beta)
qed

subsection \<open>The table of plugins\<close>

definition held :: "nat \<Rightarrow> daemon \<Rightarrow> nat" where
  "held lib s = length (filter (\<lambda>d. ds_lib d = lib) (dyn_slots s))"

definition dm_inv :: "machine \<Rightarrow> daemon \<Rightarrow> bool" where
  "dm_inv mc s \<longleftrightarrow> eb_inv (mc_lim mc) s \<and> length (dyn_slots s) \<le> RW_MAX_DYNAMIC_MODULES
     \<and> (\<forall>lib. dl_refs s lib = int (held lib s))"

definition dm_keeps :: "machine \<Rightarrow> daemon \<Rightarrow> daemon \<Rightarrow> bool" where
  "dm_keeps mc s s' \<longleftrightarrow> (dm_inv mc s \<longrightarrow> dm_inv mc s')"

definition dm_runs :: "machine \<Rightarrow> daemon \<Rightarrow> daemon option \<Rightarrow> bool" where
  "dm_runs mc s r \<longleftrightarrow> meets (dm_keeps mc) (pread_ok (mc_os mc)) s r"

named_theorems dm_intros \<open>steps of the program\<close>

interpretation dm_contract: state_contract "dm_keeps mc"
  by unfold_locales (auto simp: dm_keeps_def)

lemmas dm_runs_combine [dm_intros] =
  dm_contract.meets_Some[where ok = "pread_ok (mc_os mc)" and mc = mc for mc, folded dm_runs_def]
  dm_contract.meets_bind[where ok = "pread_ok (mc_os mc)" and mc = mc for mc, folded dm_runs_def]
  dm_contract.meets_if[where ok = "pread_ok (mc_os mc)" and mc = mc for mc, folded dm_runs_def]

lemma dm_keeps_call: "plugin_call (mc_lim mc) s s' \<Longrightarrow> dm_keeps mc s s'"
  by (simp add: dm_keeps_def dm_inv_def plugin_call_def held_def)

lemma dm_keeps_eb: "eb_keeps (mc_lim mc) s s' \<Longrightarrow> dm_keeps mc s s'"
  by (rule dm_keeps_call[OF plugin_call_eb])

lemma dm_runs_eb: "eb_runs (mc_lim mc) (mc_os mc) t x \<Longrightarrow> dm_keeps mc s t \<Longrightarrow> dm_runs mc s x"
  unfolding eb_runs_def dm_runs_def meets_def by (blast intro: dm_contract.trans dm_keeps_eb)

lemma dm_keeps_log [dm_intros]: "dm_keeps mc s t \<Longrightarrow> dm_keeps mc s (log_m mc m t)"
  by (rule dm_contract.trans[OF _ dm_keeps_call[OF log_plugin_call(1)]])

lemma log_m_fields:
  "dyn_slots (log_m mc m s) = dyn_slots (s :: daemon)" "dl_refs (log_m mc m s) = dl_refs s"
  "eb_inv (mc_lim mc) s \<Longrightarrow> eb_inv (mc_lim mc) (log_m mc m s)"
  using log_plugin_call(1)[of "mc_lim mc" s mc m] by (simp_all add: plugin_call_def)

text \<open>Loading one file: refused without a trace in table and counts, or one more slot that holds its library.\<close>

lemma init_dynamic_slots:
  assumes "plugins_ok mc" "init_dynamic_module mc lib (mc_module mc lib) path cfg s = (rc, s')"
  shows "(rc = -1 \<and> dyn_slots s' = dyn_slots s \<or> rc = 0 \<and> length (dyn_slots s) < RW_MAX_DYNAMIC_MODULES
      \<and> dyn_slots s' = dyn_slots s @ [\<lparr>ds_lib = lib, ds_path = cstr_copy 512 path\<rparr>])
    \<and> dl_refs s' = dl_refs s \<and> (eb_inv (mc_lim mc) s \<longrightarrow> eb_inv (mc_lim mc) s')"
proof (cases "mc_module mc lib")
  case None
  then show ?thesis using assms(2) log_plugin_call(1)[of "mc_lim mc" s mc]
    by (auto simp: init_dynamic_module_def plugin_call_def)
next
  case (Some p)
  then have abi: "plugin_abi (mc_lim mc) p" using assms(1) by (auto simp: plugins_ok_def)
  note C = plugin_abi.init_call[OF abi, of s cfg]
  define r where "r = (case pg_init p of Some f \<Rightarrow> f cfg s | None \<Rightarrow> (0, s))"
  have same: "plugin_call (mc_lim mc) s (snd r)" using C by (simp add: r_def)
  have on: "plugin_call (mc_lim mc) t (t\<lparr>dyn_on := x\<rparr>)" for t :: daemon and x
    by (simp add: plugin_call_def eb_inv_def net_inv_def sys_inv_def)
  let ?t = "(snd r)\<lparr>dyn_on := (dyn_on (snd r))(lib := True)\<rparr>"
  have t: "plugin_call (mc_lim mc) s ?t" by (rule plugin_call_trans[OF same on])
  have upd: "eb_inv (mc_lim mc) (u\<lparr>dyn_slots := x\<rparr>) = eb_inv (mc_lim mc) u" for u :: daemon and x
    by (simp add: eb_inv_def net_inv_def sys_inv_def)
  have fields: "dyn_slots ?t = dyn_slots s" "dl_refs ?t = dl_refs s" "eb_inv (mc_lim mc) s \<longrightarrow> eb_inv (mc_lim mc) ?t"
    "dyn_slots (snd r) = dyn_slots s" "dl_refs (snd r) = dl_refs s" "eb_inv (mc_lim mc) s \<longrightarrow> eb_inv (mc_lim mc) (snd r)"
    using t same by (simp_all add: plugin_call_def)
  have "init_dynamic_module mc lib (Some p) path cfg s = (rc, s')" using assms(2) Some by simp
  then show ?thesis
    unfolding init_dynamic_module_def option.case r_def[symmetric] split_beta Let_def
    using fields upd
    by (cases "pg_name p") (auto simp: log_m_fields split: if_splits option.splits)
qed

lemma dl_open_fields:
  "dyn_slots (dl_open lib s) = dyn_slots s" "dl_refs (dl_open lib s) = (dl_refs s)(lib := dl_refs s lib + 1)"
  "eb_inv L (dl_open lib s) = eb_inv L s"
  by (simp_all add: dl_open_def Let_def eb_inv_def net_inv_def sys_inv_def)

lemma dl_close_fields:
  "dyn_slots (dl_close lib s) = dyn_slots s" "dl_refs (dl_close lib s) = (dl_refs s)(lib := dl_refs s lib - 1)"
  "eb_inv L (dl_close lib s) = eb_inv L s"
  by (simp_all add: dl_close_def eb_inv_def net_inv_def sys_inv_def)

lemma tick_dm_fields:
  "dyn_slots (tick s) = dyn_slots s" "dl_refs (tick s) = dl_refs s" "eb_inv L (tick s) = eb_inv L s"
  by (simp_all add: tick_def eb_inv_def net_inv_def sys_inv_def)

lemmas manager_fields = dl_open_fields dl_close_fields log_m_fields tick_dm_fields

lemma plugin_load_slots:
  assumes "plugins_ok mc" "load_dynamic_module_file mc path cfg s = (rc, s')"
  shows "if rc = 0
    then s' = s \<and> (path = None \<or> dynamic_module_already_loaded (the path) s)
      \<or> (\<exists>d. dyn_slots s' = dyn_slots s @ [d] \<and> length (dyn_slots s') \<le> 64
           \<and> dl_refs s' = (dl_refs s)(ds_lib d := dl_refs s (ds_lib d) + 1))
    else rc = -1 \<and> dyn_slots s' = dyn_slots s \<and> dl_refs s' = dl_refs s"
proof (cases "path = None \<or> dynamic_module_already_loaded (the path) s")
  case True
  then show ?thesis using assms(2) by (cases path) (auto simp: load_dynamic_module_file_def)
next
  case False
  then obtain p where p: "path = Some p" "\<not> dynamic_module_already_loaded p s" by auto
  show ?thesis
  proof (cases "mc_dlopen mc (clk s) p")
    case None
    then show ?thesis using assms(2) p by (auto simp: load_dynamic_module_file_def manager_fields)
  next
    case (Some lib)
    let ?s1 = "dl_open lib (tick s)"
    obtain r t where i: "init_dynamic_module mc lib (mc_module mc lib) p cfg ?s1 = (r, t)" by fastforce
    note I = init_dynamic_slots[OF assms(1) i]
    have "load_dynamic_module_file mc path cfg s = (if \<not> mc_symbol mc lib
        then (-1, dl_close lib (log_m mc (''plugin '' @ p @ '' missing signalhunter_module'') ?s1))
        else if r \<noteq> 0 then (-1, dl_close lib t) else (0, t))"
      using p Some i by (simp add: load_dynamic_module_file_def Let_def)
    then show ?thesis using assms(2) I
      by (auto simp: manager_fields fun_upd_idem RW_MAX_DYNAMIC_MODULES_def split: if_splits)
  qed
qed

text \<open>
  C8. Loading a plugin file leaves no half-loaded library behind. A call that fails leaves the table and
  the reference count of every library as they were; one that succeeds either changed nothing, because
  there was no path or its path is in the table, or appended one slot and holds one more reference to
  that slot's library, in a table that never exceeds 64 slots.
\<close>

theorem plugin_load_all_or_nothing:
  assumes "plugins_ok mc" "load_dynamic_module_file mc path cfg s = (rc, s')"
  shows "if rc = 0
    then s' = s \<and> (path = None \<or> dynamic_module_already_loaded (the path) s)
      \<or> (\<exists>d. dyn_slots s' = dyn_slots s @ [d] \<and> length (dyn_slots s') \<le> 64
           \<and> dl_refs s' = (dl_refs s)(ds_lib d := dl_refs s (ds_lib d) + 1))
    else rc = -1 \<and> dyn_slots s' = dyn_slots s \<and> dl_refs s' = dl_refs s"
  by (rule plugin_load_slots[OF assms])

lemma held_append: "dyn_slots s' = dyn_slots s @ [d] \<Longrightarrow> held lib s' = held lib s + (if ds_lib d = lib then 1 else 0)"
  by (simp add: held_def)

lemma load_file_keeps [dm_intros]:
  assumes "plugins_ok mc" "dm_keeps mc s t"
  shows "dm_keeps mc s (snd (load_dynamic_module_file mc path cfg t))"
proof (rule dm_contract.trans[OF assms(2)])
  obtain rc t' where l: "load_dynamic_module_file mc path cfg t = (rc, t')" by fastforce
  have eb: "eb_inv (mc_lim mc) t \<Longrightarrow> eb_inv (mc_lim mc) t'"
  proof (cases "path = None \<or> dynamic_module_already_loaded (the path) t")
    case False
    assume inv: "eb_inv (mc_lim mc) t"
    from False obtain p where p: "path = Some p" "\<not> dynamic_module_already_loaded p t" by auto
    show ?thesis
    proof (cases "mc_dlopen mc (clk t) p")
      case (Some lib)
      obtain r u where i: "init_dynamic_module mc lib (mc_module mc lib) p cfg (dl_open lib (tick t)) = (r, u)" by fastforce
      from init_dynamic_slots[OF assms(1) i] inv have "eb_inv (mc_lim mc) u" by (simp add: manager_fields)
      with l p Some i inv show ?thesis
        by (auto simp: load_dynamic_module_file_def Let_def manager_fields split: if_splits)
    qed (use l p inv in \<open>auto simp: load_dynamic_module_file_def manager_fields\<close>)
  qed (use l in \<open>cases path; auto simp: load_dynamic_module_file_def\<close>)
  show "dm_keeps mc t (snd (load_dynamic_module_file mc path cfg t))"
    using plugin_load_slots[OF assms(1) l] eb l held_append[of t' t]
    by (auto simp: dm_keeps_def dm_inv_def held_def RW_MAX_DYNAMIC_MODULES_def split: if_splits)
qed

subsection \<open>Every step of the manager\<close>

lemma dm_keeps_core: "sys_grows (mc_lim mc) s t \<Longrightarrow> dm_keeps mc s t"
  by (rule dm_keeps_eb[OF eb_keeps_net[OF net_keeps_core]])

lemma dm_keeps_world [dm_intros]:
  "dm_keeps mc s t \<Longrightarrow> dm_keeps mc s (snd (sys_read w p t))"
  "dm_keeps mc s t \<Longrightarrow> dm_keeps mc s (snd (sys_opendir w p t))"
  "dm_keeps mc s t \<Longrightarrow> dm_keeps mc s (snd (sys_time w t))"
  "dm_keeps mc s t \<Longrightarrow> dm_keeps mc s (tick t)"
  by (erule dm_contract.trans, rule dm_keeps_core, intro runs_intros)+

lemma dm_keeps_fields [dm_intros]:
  "dm_keeps mc s t \<Longrightarrow> dm_keeps mc s (t\<lparr>wl := x\<rparr>)" "dm_keeps mc s t \<Longrightarrow> dm_keeps mc s (t\<lparr>mod_fd := f\<rparr>)"
  "dm_keeps mc s t \<Longrightarrow> dm_keeps mc s (t\<lparr>mod_on := g\<rparr>)" "dm_keeps mc s t \<Longrightarrow> dm_keeps mc s (t\<lparr>last_status := n\<rparr>)"
  "dm_keeps mc s t \<Longrightarrow> dm_keeps mc s (snd (v, t))"
  "(b \<Longrightarrow> dm_keeps mc s t) \<Longrightarrow> (\<not> b \<Longrightarrow> dm_keeps mc s u) \<Longrightarrow> dm_keeps mc s (if b then t else u)"
  by (auto simp: dm_keeps_def dm_inv_def held_def eb_inv_def net_inv_def sys_inv_def)

lemma config_lines_keeps [dm_intros]: "dm_keeps mc s t \<Longrightarrow> dm_keeps mc s (snd (config_lines mc' cfg t))"
  unfolding config_lines_def Let_def split_beta by (auto intro!: dm_intros split: option.split)

lemma load_names_keeps:
  "plugins_ok mc \<Longrightarrow> dm_keeps mc s (snd st) \<Longrightarrow> dm_keeps mc s (snd (load_names mc dir cfg ns st))"
  by (induction ns arbitrary: st) (auto simp: split_beta Let_def split_paired_all intro!: dm_intros)

lemma load_dir_keeps [dm_intros]:
  "plugins_ok mc \<Longrightarrow> dm_keeps mc s t \<Longrightarrow> dm_keeps mc s (snd (load_dynamic_module_dir mc dir cfg t))"
  unfolding load_dynamic_module_dir_def Let_def split_beta
  by (auto intro!: dm_intros load_names_keeps split: option.split)

lemma load_config_keeps:
  "plugins_ok mc \<Longrightarrow> dm_keeps mc s (snd st) \<Longrightarrow> dm_keeps mc s (snd (load_config_lines mc cfg ls st))"
proof (induction ls arbitrary: st)
  case (Cons l ls)
  obtain n t where st: "st = (n, t)" by fastforce
  show ?case unfolding st load_config_lines.simps
    by (rule Cons.IH[OF Cons.prems(1)])
       (use Cons.prems st in \<open>auto simp: Let_def split_beta intro!: dm_intros split: option.split\<close>)
qed simp

lemma load_dynamic_keeps [dm_intros]:
  "plugins_ok mc \<Longrightarrow> dm_keeps mc s t \<Longrightarrow> dm_keeps mc s (snd (rw_modules_load_dynamic mc cfg t))"
  unfolding rw_modules_load_dynamic_def load_dynamic_modules_from_config_def Let_def split_beta
  by (auto intro!: dm_intros load_config_keeps split: option.split)

lemma builtin_init_keeps [dm_intros]:
  assumes "dm_keeps mc s t"
  shows "dm_keeps mc s (snd (builtin_init mc cfg m t))"
proof -
  have e: "dm_keeps mc s u \<Longrightarrow> dm_keeps mc s (snd (rw_ebpf_init_backend (mc_lim mc) (mc_os mc) lib u))" for u lib
    by (erule dm_contract.trans) (rule dm_keeps_eb[OF ebpf_init_keeps[OF eb_contract.refl]])
  show ?thesis
    by (cases m; simp only: builtin_init_def builtin.case Let_def split_beta; intro dm_intros e assms)
qed

lemma init_builtin_keeps:
  "dm_keeps mc s (snd st) \<Longrightarrow> dm_keeps mc s (snd (init_builtin mc cfg m st))"
proof -
  have b: "dm_keeps mc s u \<Longrightarrow> dm_keeps mc s (snd (builtin_config_enabled mc cfg n d u))" for u n d
    unfolding builtin_config_enabled_def Let_def split_beta by (intro dm_intros)
  show "dm_keeps mc s (snd st) \<Longrightarrow> dm_keeps mc s (snd (init_builtin mc cfg m st))"
    by (auto simp: init_builtin_def Let_def split_beta intro!: dm_intros b)
qed

lemma init_all_keeps [dm_intros]:
  assumes "plugins_ok mc" "dm_keeps mc s t"
  shows "dm_keeps mc s (snd (rw_modules_init_all mc cfg t))"
proof -
  have "dm_keeps mc s (snd (fold (init_builtin mc cfg) ms st))" if "dm_keeps mc s (snd st)" for ms st
    using that
  proof (induction ms arbitrary: st)
    case (Cons m ms)
    show ?case using Cons.IH[OF init_builtin_keeps[OF Cons.prems]] by simp
  qed simp
  from this[of "(0, t)"] assms show ?thesis
    unfolding rw_modules_init_all_def Let_def split_beta by (auto intro!: dm_intros)
qed

lemma builtin_poll_runs [dm_intros]:
  assumes "limits_ok (mc_lim mc)" "dm_keeps mc s t"
  shows "dm_runs mc s (builtin_poll mc cfg dv m t)"
proof -
  have core: "dm_keeps mc s u \<Longrightarrow> runs (mc_lim mc) (mc_os mc) u x \<Longrightarrow> dm_runs mc s x" for u x
    by (rule dm_runs_eb[OF eb_runs_core[OF _ eb_contract.refl]])
  have p: "dm_keeps mc s u \<Longrightarrow> dm_runs mc s (rw_proc_events_poll (mc_lim mc) (mc_os mc) cfg bs u)"
    "dm_keeps mc s u \<Longrightarrow> dm_runs mc s (rw_fanotify_poll (mc_lim mc) (mc_os mc) cfg fs u)"
    "dm_keeps mc s u \<Longrightarrow> dm_runs mc s (rw_ebpf_poll (mc_lim mc) (mc_os mc) F c ds u)" for u bs fs F c ds
    by (rule core[OF _ proc_poll_runs[OF assms(1) sys_grows_refl]], assumption,
        rule core[OF _ fanotify_runs[OF assms(1) sys_grows_refl]], assumption,
        rule dm_runs_eb[OF ebpf_poll_runs[OF assms(1) eb_contract.refl]])
  show ?thesis
    by (cases m; simp only: builtin_poll_def builtin.case Let_def split_beta; intro dm_intros p assms(2))
qed

lemma poll_builtins_runs:
  "limits_ok (mc_lim mc) \<Longrightarrow> dm_keeps mc s t \<Longrightarrow> dm_runs mc s (poll_builtins mc cfg dv ms t)"
  by (induction ms arbitrary: t) (auto intro!: dm_intros)

lemma poll_plugin_keeps:
  assumes "plugins_ok mc"
  shows "dm_keeps mc t (poll_plugin mc cfg d t)"
proof (cases "mc_module mc (ds_lib d)")
  case (Some p)
  then have abi: "plugin_abi (mc_lim mc) p" using assms by (auto simp: plugins_ok_def)
  from Some show ?thesis
    by (auto simp: poll_plugin_def dm_contract.refl intro!: dm_keeps_call plugin_abi.poll_law[OF abi] split: option.split)
qed (simp add: poll_plugin_def dm_contract.refl)

lemma poll_all_runs [dm_intros]:
  assumes "limits_ok (mc_lim mc)" "plugins_ok mc" "dm_keeps mc s t"
  shows "dm_runs mc s (rw_modules_poll_all mc cfg dv t)"
proof -
  have f: "dm_keeps mc s u \<Longrightarrow> dm_keeps mc s (fold (poll_plugin mc c) ds u)" for ds u c
    by (erule dm_contract.trans) (rule dm_contract.keeps_fold, rule poll_plugin_keeps[OF assms(2)])
  show ?thesis unfolding rw_modules_poll_all_def
    by (intro dm_intros poll_builtins_runs f assms; assumption?)
qed

subsection \<open>Shutdown\<close>

lemma builtin_shutdown_fields:
  "dyn_slots (builtin_shutdown m s) = dyn_slots s" "dl_refs (builtin_shutdown m s) = dl_refs s"
  by (cases m; simp add: builtin_shutdown_def rw_ebpf_shutdown_def)+

lemma shutdown_builtin_fields:
  "dyn_slots (shutdown_builtin m s) = dyn_slots s" "dl_refs (shutdown_builtin m s) = dl_refs s"
  by (simp_all add: shutdown_builtin_def Let_def builtin_shutdown_fields)

lemma shutdown_plugin_refs:
  assumes "plugins_ok mc"
  shows "dl_refs (shutdown_plugin mc d s) = (dl_refs s)(ds_lib d := dl_refs s (ds_lib d) - 1)"
proof (cases "mc_module mc (ds_lib d)")
  case (Some p)
  then have abi: "plugin_abi (mc_lim mc) p" using assms by (auto simp: plugins_ok_def)
  have "dl_refs (h s) = dl_refs s" if "pg_shutdown p = Some h" for h using plugin_abi.shutdown_refs[OF abi that] by simp
  with Some show ?thesis by (auto simp: shutdown_plugin_def Let_def dl_close_def split: option.split)
qed (auto simp: shutdown_plugin_def Let_def dl_close_def)

lemma fold_shutdown_refs:
  assumes "plugins_ok mc"
  shows "dl_refs (fold (shutdown_plugin mc) ds s) lib = dl_refs s lib - int (length (filter (\<lambda>d. ds_lib d = lib) ds))"
  by (induction ds arbitrary: s) (auto simp: shutdown_plugin_refs[OF assms])

text \<open>
  C23. Shutting down releases everything: from a well-formed state, in which every library is open once for each
  slot that holds it, each library is closed exactly as often as it was opened, neither less nor more, so its count
  is zero, and the table is empty. Plugins keep to their contract (\<open>plugins_ok\<close>).
\<close>

theorem shutdown_releases_all:
  assumes "plugins_ok mc" "dm_inv mc s" "s' = rw_modules_shutdown_all mc s"
  shows "dyn_slots s' = [] \<and> (\<forall>lib. dl_refs s' lib = 0)"
proof -
  have "dyn_slots (fold shutdown_builtin ms t) = dyn_slots t \<and> dl_refs (fold shutdown_builtin ms t) = dl_refs t" for ms t
    by (induction ms arbitrary: t) (simp_all add: shutdown_builtin_fields)
  then show ?thesis using assms(2)
    by (simp add: assms(3) rw_modules_shutdown_all_def Let_def fold_shutdown_refs[OF assms(1)] dm_inv_def held_def)
qed

definition daemon_start :: "os \<Rightarrow> daemon" where
  "daemon_start w = ebpf.extend (ebpf_start w)
     (daemon.fields (\<lambda>_. False) (\<lambda>_. -1) 0 [] (\<lambda>_. False) (\<lambda>_. 0) (\<lambda>_. 0))"

lemma daemon_start_fields:
  "dyn_slots (daemon_start w) = []" "dl_refs (daemon_start w) lib = 0" "clk (daemon_start w) = 0" "mod_on (daemon_start w) m = False"
  by (simp_all add: daemon_start_def ebpf.defs daemon.defs ebpf_start_def net.defs net_start_def sys.defs sys_start_def
      scoring.defs event_start_def eventlog.defs lineage_start_def lineage.defs logger_start_def logger.defs)

lemma daemon_start_inv: "dm_inv mc (daemon_start w)"
  by (simp add: dm_inv_def eb_inv_def net_inv_def sys_inv_def daemon_start_def net_start_def sys.defs net.defs
      ebpf_start_def ebpf.defs daemon.defs held_def table_ok_def)

text \<open>A machine for the witnesses: every library is the example plugin.\<close>

definition bare_machine :: machine where
  "bare_machine = \<lparr>mc_lim = small_limits, mc_os = idle_os, mc_fp = exact_fp, mc_bpf = sample_lib, mc_proc_fd = -1,
     mc_fan_fd = 4, mc_wl = (\<lambda>_. (None, None)), mc_wl_path_len = 512, mc_abi = 1, mc_dlopen = (\<lambda>_ p. Some (length p)),
     mc_dlerror = ''E'', mc_symbol = (\<lambda>_. True), mc_module = (\<lambda>_. None)\<rparr>"

definition plugin_machine :: machine where
  "plugin_machine = bare_machine\<lparr>mc_module := (\<lambda>lib. Some (heartbeat_module bare_machine lib))\<rparr>"

lemma plugin_machine_ok: "plugins_ok plugin_machine"
  using heartbeat.plugin_abi_axioms[of bare_machine] by (simp add: plugins_ok_def plugin_machine_def)

lemma plugin_load_all_or_nothing_witness:
  "\<exists>s'. load_dynamic_module_file plugin_machine (Some ''p.so'') None (daemon_start idle_os) = (0, s')
     \<and> length (dyn_slots s') = 1"
proof -
  obtain rc s' where r: "load_dynamic_module_file plugin_machine (Some ''p.so'') None (daemon_start idle_os) = (rc, s')"
    by fastforce
  have "rc = 0" using r
    by (simp add: load_dynamic_module_file_def dynamic_module_already_loaded_def daemon_start_fields plugin_machine_def
        bare_machine_def init_dynamic_module_def heartbeat_module_def heartbeat_init_def Let_def log_m_fields
        manager_fields RW_MAX_DYNAMIC_MODULES_def)
  moreover have "s' = daemon_start idle_os \<and> (False \<or> dynamic_module_already_loaded ''p.so'' (daemon_start idle_os)) \<or>
      (\<exists>d. dyn_slots s' = dyn_slots (daemon_start idle_os) @ [d])"
    using plugin_load_all_or_nothing[OF plugin_machine_ok r] \<open>rc = 0\<close> by auto
  ultimately show ?thesis using r by (auto simp: daemon_start_fields dynamic_module_already_loaded_def)
qed

lemma shutdown_releases_all_witness:
  "let s = snd (load_dynamic_module_file plugin_machine (Some ''p.so'') None (daemon_start idle_os));
       s' = rw_modules_shutdown_all plugin_machine s
   in dl_refs s 4 = 1 \<and> dyn_slots s' = [] \<and> dl_refs s' 4 = 0"
proof -
  let ?s = "snd (load_dynamic_module_file plugin_machine (Some ''p.so'') None (daemon_start idle_os))"
  have "dl_refs ?s 4 = 1"
    by (simp add: load_dynamic_module_file_def dynamic_module_already_loaded_def daemon_start_fields plugin_machine_def
        bare_machine_def init_dynamic_module_def heartbeat_module_def heartbeat_init_def Let_def log_m_fields
        manager_fields RW_MAX_DYNAMIC_MODULES_def)
  moreover have "dm_inv plugin_machine (snd (load_dynamic_module_file plugin_machine (Some ''p.so'') None (daemon_start idle_os)))"
    using load_file_keeps[OF plugin_machine_ok dm_contract.refl] daemon_start_inv by (simp add: dm_keeps_def)
  ultimately show ?thesis using shutdown_releases_all[OF plugin_machine_ok _ refl, of ?s] by (simp add: Let_def)
qed

subsection \<open>Two limits\<close>

text \<open>
  A plugin that is loaded when 64 are there has run its \<open>init\<close>, with every effect of it, before the
  manager looks at the limit; the library is then closed without a call of its \<open>shutdown\<close>.
\<close>

theorem plugin_limit_skips_shutdown:
  assumes "length (dyn_slots s) = 64" "\<not> dynamic_module_already_loaded path s" "mc_dlopen mc (clk s) path = Some lib"
    "mc_symbol mc lib" "mc_module mc lib = Some p" "pg_name p = Some name" "pg_abi p = mc_abi mc" "pg_enabled p = None"
    "pg_init p = Some f" "f cfg (dl_open lib (tick s)) = (0, s1)" "plugin_abi (mc_lim mc) p"
  shows "load_dynamic_module_file mc (Some path) cfg s
    = (-1, dl_close lib (log_m mc (''dynamic module limit reached, skipping '' @ path)
             (s1\<lparr>dyn_on := (dyn_on s1)(lib := True)\<rparr>)))"
proof -
  have "plugin_call (mc_lim mc) (dl_open lib (tick s)) s1"
    using plugin_abi.init_law[OF assms(11) assms(9), of "dl_open lib (tick s)" cfg] assms(10) by simp
  then have "length (dyn_slots s1) = 64" using assms(1) by (simp add: plugin_call_def manager_fields)
  then show ?thesis using assms
    by (simp add: load_dynamic_module_file_def init_dynamic_module_def Let_def RW_MAX_DYNAMIC_MODULES_def)
qed

lemma plugin_limit_skips_shutdown_witness:
  "let s = (daemon_start idle_os)\<lparr>dyn_slots := replicate 64 \<lparr>ds_lib = 5, ds_path = ''b.so''\<rparr>\<rparr> in
   fst (load_dynamic_module_file plugin_machine (Some ''p.so'') None s) = -1"
proof -
  let ?s = "(daemon_start idle_os)\<lparr>dyn_slots := replicate 64 \<lparr>ds_lib = 5, ds_path = ''b.so''\<rparr>\<rparr>"
  have "plugin_abi (mc_lim plugin_machine) (heartbeat_module bare_machine 4)"
    using heartbeat.plugin_abi_axioms[of bare_machine] by (simp add: plugin_machine_def)
  from plugin_limit_skips_shutdown[OF _ _ _ _ _ _ _ _ _ _ this, of ?s "''p.so''" 4 "''example_heartbeat''"
      "heartbeat_init bare_machine" None]
  show ?thesis
    by (simp add: dynamic_module_already_loaded_def plugin_machine_def bare_machine_def heartbeat_module_def
        heartbeat_init_def)
qed

text \<open>The entry that decides a switch: the last line with its key.\<close>

definition last_entry :: "string \<Rightarrow> string list \<Rightarrow> string option" where
  "last_entry key ls = map_option snd (find (\<lambda>e. fst e = key) (rev (List.map_filter config_entry ls)))"

lemma find_append: "find P (xs @ ys) = (case find P xs of None \<Rightarrow> find P ys | Some x \<Rightarrow> Some x)"
  by (induction xs) auto

lemma builtin_lines_last:
  "builtin_lines name d ls r = (case last_entry (cstr_copy 256 (''builtin.'' @ name)) ls of
     None \<Rightarrow> r | Some v \<Rightarrow> str_bool_enabled (Some v) d)"
  by (induction ls arbitrary: r)
     (auto simp: last_entry_def List.map_filter_simps find_append split: option.splits prod.splits)

text \<open>
  C34. A built-in module is switched by the last line of the module configuration that names it; a value
  that is no boolean word means the default, whatever earlier lines said, and so does a file that cannot be read.
\<close>

theorem builtin_switch_last_line:
  "fst (builtin_config_enabled mc (Some c) (builtin_name m) d s) =
     (case module_config_path c of
        None \<Rightarrow> d
      | Some path \<Rightarrow> (case fst (sys_read (mc_os mc) path s) of
          None \<Rightarrow> d
        | Some t \<Rightarrow> (case last_entry (''builtin.'' @ builtin_name m) (fgets_lines 1024 t) of
            None \<Rightarrow> d
          | Some v \<Rightarrow> str_bool_enabled (Some v) d)))"
proof -
  have "length (''builtin.'' @ builtin_name m) < 256" by (cases m) simp_all
  then have "cstr_copy 256 (''builtin.'' @ builtin_name m) = ''builtin.'' @ builtin_name m" by (rule cstr_copy_fits)
  then show ?thesis
    by (auto simp: builtin_config_enabled_def config_lines_def builtin_lines_last Let_def split_beta
        RW_MAX_MODULE_CONFIG_LINE_def split: option.split)
qed

end
