(* ===== verification/Daemon.thy ===== *)
theory Daemon
  imports Modman
begin

section \<open>The program (\<open>app/main.c\<close>)\<close>

text \<open>
  The command line, the commands, and the monitor with its endless loop. One pass of the loop is
  \<open>monitor_round\<close>, given what the kernel delivers to the modules in that pass; the loop is the passes over
  a list of such deliveries, of any length. \<open>sleep\<close> is the time between two passes, the clock runs on.
  The exit codes of the commands are kept, what they print is not. \<open>RW_MAX_ITEMS\<close> and the pid of the
  program are parameters.
\<close>

subsection \<open>Options\<close>

definition flag_option :: "string \<Rightarrow> (rw_config \<Rightarrow> rw_config) option" where
  "flag_option o' =
     (if o' = ''--no-proc-events'' then Some (\<lambda>c. c\<lparr>enable_proc_events := False\<rparr>)
      else if o' = ''--no-fanotify'' then Some (\<lambda>c. c\<lparr>enable_fanotify := False\<rparr>)
      else if o' = ''--no-ebpf'' then Some (\<lambda>c. c\<lparr>enable_ebpf := False\<rparr>)
      else if o' = ''--stop-suspicious'' then Some (\<lambda>c. c\<lparr>stop_suspicious := True\<rparr>)
      else if o' = ''--verbose'' then Some (\<lambda>c. c\<lparr>verbose := True\<rparr>)
      else if o' = ''--quiet-network'' then Some (\<lambda>c. c\<lparr>log_network := False\<rparr>)
      else if o' = ''--quiet-raw'' then Some (\<lambda>c. c\<lparr>log_raw := False\<rparr>)
      else if o' = ''--quiet-syn'' then Some (\<lambda>c. c\<lparr>log_synscan := False\<rparr>)
      else if o' = ''--quiet-syscalls'' then Some (\<lambda>c. c\<lparr>log_syscalls := False\<rparr>)
      else if o' = ''--syslog'' then Some (\<lambda>c. c\<lparr>use_syslog := True\<rparr>)
      else if o' = ''--no-whitelist'' then Some (\<lambda>c. c\<lparr>enable_whitelist := False\<rparr>)
      else if o' = ''--no-dynamic-plugins'' then Some (\<lambda>c. c\<lparr>enable_dynamic_plugins := False\<rparr>)
      else None)"

text \<open>The options with a value, each with the repair of values out of range.\<close>

definition value_option :: "string \<Rightarrow> (string \<Rightarrow> rw_config \<Rightarrow> rw_config) option" where
  "value_option o' =
     (if o' = ''--case-threshold''
      then Some (\<lambda>v c. let n = atoi v; n = (if n < 1 then 60 else n); n = (if n > 100 then 100 else n)
                       in c\<lparr>case_threshold := n\<rparr>)
      else if o' = ''--injection-scan-seconds''
      then Some (\<lambda>v c. c\<lparr>injection_scan_seconds := (let n = atoi v in if n < 0 then 0 else n)\<rparr>)
      else if o' = ''--log-dir'' then Some (\<lambda>v c. c\<lparr>log_dir := Some v\<rparr>)
      else if o' = ''--log-max-bytes''
      then Some (\<lambda>v c. c\<lparr>log_max_bytes := (let n = atol v in if n < 0 then 0 else n)\<rparr>)
      else if o' = ''--log-archives''
      then Some (\<lambda>v c. c\<lparr>log_archives := (let n = atoi v in if n < 0 then 0 else n)\<rparr>)
      else if o' = ''--log-rate-seconds''
      then Some (\<lambda>v c. c\<lparr>log_rate_seconds := (let n = atoi v in if n < 0 then 0 else n)\<rparr>)
      else if o' = ''--whitelist'' then Some (\<lambda>v c. c\<lparr>whitelist_path := Some v\<rparr>)
      else if o' = ''--whitelist-percent''
      then Some (\<lambda>v c. let n = atoi v; n = (if n < 0 then 0 else n); n = (if n > 100 then 100 else n)
                       in c\<lparr>whitelist_score_percent := n\<rparr>)
      else if o' = ''--plugin-dir'' then Some (\<lambda>v c. c\<lparr>plugin_dir := Some v\<rparr>)
      else if o' = ''--module-config'' then Some (\<lambda>v c. c\<lparr>module_config_path := Some v\<rparr>)
      else None)"

text \<open>A value option at the end of the line, and an unknown option, only give a warning.\<close>

fun parse_options :: "string list \<Rightarrow> rw_config \<Rightarrow> rw_config" where
  "parse_options [] cfg = cfg"
| "parse_options [o'] cfg = (case flag_option o' of Some f \<Rightarrow> f cfg | None \<Rightarrow> cfg)"
| "parse_options (o' # v # as) cfg = (case flag_option o' of
     Some f \<Rightarrow> parse_options (v # as) (f cfg)
   | None \<Rightarrow> (case value_option o' of
       Some g \<Rightarrow> parse_options as (g v cfg)
     | None \<Rightarrow> parse_options (v # as) cfg))"

datatype command =
    Monitor rw_config
  | Inspect pid
  | Scan_Injection pid
  | Scan_All_Injection
  | Ebpf_Status
  | Ebpf_Selftest
  | Bad_Pid
  | Usage

definition poll_arg :: "string \<Rightarrow> int" where
  "poll_arg v = (let n = atoi v in if n \<le> 0 then 2 else n)"

text \<open>\<open>main\<close> on the arguments behind the program name.\<close>

fun parse_command :: "string list \<Rightarrow> command" where
  "parse_command [] = Monitor (parse_options [] default_config)"
| "parse_command (a # as) =
     (if take 1 a = ''-'' then Monitor (parse_options (a # as) default_config)
      else if a = ''monitor''
      then (case as of
              v # rest \<Rightarrow>
                if rw_is_numeric (Some v) then Monitor (parse_options rest (default_config\<lparr>poll_seconds := poll_arg v\<rparr>))
                else Monitor (parse_options as default_config)
            | [] \<Rightarrow> Monitor (parse_options as default_config))
      else if a = ''inspect'' \<or> a = ''scan-injection''
      then (case as of
              v # rest \<Rightarrow>
                if rw_is_numeric (Some v) then (if a = ''inspect'' then Inspect (atoi v) else Scan_Injection (atoi v))
                else Bad_Pid
            | [] \<Rightarrow> Bad_Pid)
      else if a = ''scan-all-injection'' then Scan_All_Injection
      else if a = ''ebpf-status'' then Ebpf_Status
      else if a = ''ebpf-selftest'' then Ebpf_Selftest
      else Usage)"

subsection \<open>Starting the monitor\<close>

record host =
  ho_machine :: machine
  ho_max_items :: nat
  ho_pid :: pid

text \<open>The logger takes its limits from the environment, so the options go there first.\<close>

definition set_log_env :: "rw_config \<Rightarrow> os \<Rightarrow> os" where
  "set_log_env cfg w =
     (let e = env_getenv w;
          e = (if log_max_bytes cfg > 0 then e(''RW_LOG_MAX_BYTES'' \<mapsto> show_int (log_max_bytes cfg)) else e);
          e = (if log_archives cfg \<ge> 0 then e(''RW_LOG_ARCHIVES'' \<mapsto> show_int (log_archives cfg)) else e);
          e = (if log_rate_seconds cfg \<ge> 0 then e(''RW_LOG_RATE_SECONDS'' \<mapsto> show_int (log_rate_seconds cfg)) else e)
      in w\<lparr>env_getenv := e\<rparr>)"

definition with_log_env :: "rw_config \<Rightarrow> machine \<Rightarrow> machine" where
  "with_log_env cfg mc = mc\<lparr>mc_os := set_log_env cfg (mc_os mc)\<rparr>"

definition start_monitor :: "machine \<Rightarrow> rw_config \<Rightarrow> daemon \<Rightarrow> daemon" where
  "start_monitor mc cfg s =
     (let (_, s1) = rw_log_init (mc_lim mc) (mc_os mc) (log_dir cfg) (use_syslog cfg) s;
          s2 = rw_lineage_init (rw_event_init (rw_score_init s1));
          s3 = rw_lineage_refresh_procfs (mc_lim mc) (mc_os mc) s2;
          (_, s4) = rw_modules_init_all mc (Some cfg) s3
      in log_m mc (''daemon started poll='' @ show_int (poll_seconds cfg) @ '' action=''
           @ (if stop_suspicious cfg then ''stop'' else ''alert-only'')
           @ '' log_network='' @ (if log_network cfg then ''yes'' else ''no'')) s4)"

subsection \<open>The loop\<close>

text \<open>When the full and the self scan ran last, with the state of the program.\<close>

type_synonym loop_state = "time \<times> time \<times> daemon"

fun update_tracks :: "machine \<Rightarrow> rw_config \<Rightarrow> conn_event list \<Rightarrow> daemon \<Rightarrow> daemon option" where
  "update_tracks mc cfg [] s = Some s"
| "update_tracks mc cfg (ev # es) s = do {
     s1 \<leftarrow> rw_update_track (mc_lim mc) (mc_os mc) (mc_fp mc) cfg ev s;
     update_tracks mc cfg es s1 }"

definition network_pass :: "host \<Rightarrow> rw_config \<Rightarrow> daemon \<Rightarrow> daemon option" where
  "network_pass h cfg s =
     (let mc = ho_machine h; L = mc_lim mc; w = mc_os mc;
          (owners, s1) = rw_collect_inode_owners L w (ho_max_items h) s;
          (es, s2) = rw_collect_tcp_events L w owners (ho_max_items h) s1
      in do {
           s3 \<leftarrow> update_tracks mc cfg es s2;
           rw_scan_raw_sockets L w (Some cfg) owners s3 })"

definition self_scan :: "host \<Rightarrow> rw_config \<Rightarrow> time \<Rightarrow> time \<Rightarrow> daemon \<Rightarrow> (time \<times> daemon) option" where
  "self_scan h cfg now last_self s =
     (let mc = ho_machine h
      in if now - last_self \<ge> 5
         then do { r \<leftarrow> rw_scan_injection_pid (mc_lim mc) (mc_os mc) (Some cfg) (ho_pid h) s; Some (now, snd r) }
         else Some (last_self, s))"

definition full_scan :: "host \<Rightarrow> rw_config \<Rightarrow> time \<Rightarrow> time \<Rightarrow> daemon \<Rightarrow> (time \<times> daemon) option" where
  "full_scan h cfg now last_full s =
     (let mc = ho_machine h
      in if injection_scan_seconds cfg > 0 \<and> now - last_full \<ge> injection_scan_seconds cfg
         then do { r \<leftarrow> rw_scan_all_injection (mc_lim mc) (mc_os mc) (Some cfg) s; Some (now, snd r) }
         else Some (last_full, s))"

definition monitor_round :: "host \<Rightarrow> rw_config \<Rightarrow> delivery \<Rightarrow> loop_state \<Rightarrow> loop_state option" where
  "monitor_round h cfg dv st = (case st of (last_full, last_self, s) \<Rightarrow>
     let mc = ho_machine h; w = mc_os mc;
         (now, s1) = sys_time w s;
         got_owners = env_malloc w (clk s1) (ho_max_items h);
         got_events = env_malloc w (clk s1 + 1) (ho_max_items h);
         s2 = tick (tick s1)
     in if \<not> got_owners \<or> \<not> got_events then Some (last_full, last_self, s2)
        else do {
          s3 \<leftarrow> network_pass h cfg (rw_lineage_refresh_procfs (mc_lim mc) w s2);
          s4 \<leftarrow> rw_modules_poll_all mc cfg dv s3;
          (self, s5) \<leftarrow> self_scan h cfg now last_self (rw_score_decay_all w s4);
          (full, s6) \<leftarrow> full_scan h cfg now last_full s5;
          Some (full, self, s6) })"

fun monitor_rounds :: "host \<Rightarrow> rw_config \<Rightarrow> delivery list \<Rightarrow> loop_state \<Rightarrow> loop_state option" where
  "monitor_rounds h cfg [] st = Some st"
| "monitor_rounds h cfg (dv # dvs) st = Option.bind (monitor_round h cfg dv st) (monitor_rounds h cfg dvs)"

definition rw_monitor_all :: "host \<Rightarrow> rw_config \<Rightarrow> delivery list \<Rightarrow> daemon \<Rightarrow> loop_state option" where
  "rw_monitor_all h cfg dvs s =
     (let mc = with_log_env cfg (ho_machine h)
      in monitor_rounds (h\<lparr>ho_machine := mc\<rparr>) cfg dvs (0, 0, start_monitor mc cfg s))"

subsection \<open>The other commands\<close>

definition ebpf_status_command :: "machine \<Rightarrow> byte list list \<Rightarrow> daemon \<Rightarrow> (int \<times> daemon) option" where
  "ebpf_status_command mc data s =
     (let L = mc_lim mc; w = mc_os mc;
          (_, s1) = rw_log_init L w (log_dir default_config) (use_syslog default_config) s;
          (rc, s2) = rw_ebpf_init_backend L w (mc_bpf mc) s1
      in if rc \<noteq> 0 then Some (1, s2)
         else do {
           s3 \<leftarrow> rw_ebpf_poll L w (mc_fp mc) (Some default_config) data s2;
           Some (0, rw_ebpf_shutdown s3) })"

text \<open>Exit code and state; the monitor has no exit.\<close>

fun run_command :: "machine \<Rightarrow> byte list list \<Rightarrow> command \<Rightarrow> daemon \<Rightarrow> (int \<times> daemon) option" where
  "run_command mc data (Monitor cfg) s = None"
| "run_command mc data (Inspect pid) s = map_option (\<lambda>r. (0, snd r)) (rw_inspect_process (mc_lim mc) (mc_os mc) pid s)"
| "run_command mc data (Scan_Injection pid) s =
     map_option (\<lambda>r. (0, snd r)) (rw_scan_injection_pid (mc_lim mc) (mc_os mc) (Some default_config) pid s)"
| "run_command mc data Scan_All_Injection s =
     map_option (\<lambda>r. (0, snd r)) (rw_scan_all_injection (mc_lim mc) (mc_os mc) (Some default_config) s)"
| "run_command mc data Ebpf_Status s = ebpf_status_command mc data s"
| "run_command mc data Ebpf_Selftest s = Some (0, s)"
| "run_command mc data Bad_Pid s = Some (1, s)"
| "run_command mc data Usage s = Some (1, s)"

subsection \<open>The options\<close>

definition config_ok :: "rw_config \<Rightarrow> bool" where
  "config_ok c \<longleftrightarrow> 0 < poll_seconds c \<and> 1 \<le> case_threshold c \<and> case_threshold c \<le> 100
     \<and> 0 \<le> injection_scan_seconds c \<and> 0 \<le> log_max_bytes c \<and> log_max_bytes c < 2 ^ 63
     \<and> 0 \<le> log_archives c \<and> log_archives c < 2 ^ 31 \<and> 0 \<le> log_rate_seconds c \<and> log_rate_seconds c < 2 ^ 31
     \<and> 0 \<le> whitelist_score_percent c \<and> whitelist_score_percent c \<le> 100
     \<and> log_dir c \<noteq> None \<and> whitelist_path c \<noteq> None \<and> plugin_dir c \<noteq> None \<and> module_config_path c \<noteq> None"

lemma default_config_ok: "config_ok default_config"
  by (simp add: config_ok_def default_config_def)

lemma atoi_range: "- (2 ^ 31) \<le> atoi v \<and> atoi v < 2 ^ 31"
  unfolding atoi_def by (rule c_int_range)

lemma atol_range: "atol v < 2 ^ 63"
  by (auto simp: atol_def clamp_long_def split: option.split)

lemma flag_option_ok: "flag_option a = Some f \<Longrightarrow> config_ok c \<Longrightarrow> config_ok (f c)"
  by (auto simp: flag_option_def config_ok_def split: if_splits)

lemma value_option_ok: "value_option a = Some g \<Longrightarrow> config_ok c \<Longrightarrow> config_ok (g v c)"
  using atoi_range[of v] atol_range[of v]
  by (auto simp: value_option_def config_ok_def Let_def split: if_splits)

lemma parse_options_ok: "config_ok c \<Longrightarrow> config_ok (parse_options as c)"
proof (induction as c rule: parse_options.induct)
  case (3 a v as c)
  show ?case
  proof (cases "flag_option a")
    case None
    with 3 value_option_ok[of a _ c v] show ?thesis by (cases "value_option a") simp_all
  next
    case (Some f)
    with 3 flag_option_ok[OF Some] show ?thesis by simp
  qed
qed (auto split: option.split intro: flag_option_ok)

lemma command_line_config:
  assumes "parse_command argv = Monitor cfg"
  shows "config_ok cfg"
proof -
  have poll: "config_ok (default_config\<lparr>poll_seconds := poll_arg v\<rparr>)" for v
    using default_config_ok by (simp add: config_ok_def poll_arg_def Let_def)
  show ?thesis using assms
    by (cases argv) (auto intro!: parse_options_ok default_config_ok poll split: if_splits list.splits)
qed

text \<open>
  C11. Every command line that starts the monitor gives it a configuration in range: a positive poll
  interval, a threshold from 1 to 100, a percentage from 0 to 100, no negative limit or period, and no
  path missing, whatever the arguments are.
\<close>

theorem command_line_config_ok:
  assumes "parse_command argv = Monitor cfg"
  shows "config_ok cfg"
  by (rule command_line_config[OF assms])

lemma command_line_config_ok_witness:
  "config_ok (default_config\<lparr>poll_seconds := 5, case_threshold := 60, verbose := True\<rparr>)"
  by (rule command_line_config_ok[of "[''monitor'', ''5'', ''--case-threshold'', ''0'', ''--verbose'', ''--log-dir'']"])
     code_simp

subsection \<open>From the options to the logger\<close>

definition settings :: "'a logger_scheme \<Rightarrow> int \<times> int \<times> int \<times> bool" where
  "settings s = (max_bytes s, archives s, rate_seconds s, use_syslog_now s)"

lemma settings_calls:
  "settings (tick s) = settings s" "settings (put_file p t s) = settings s" "settings (snd (sys_fopen_w w p s)) = settings s"
  "settings (snd (sys_fopen_a w p s)) = settings s" "settings (fprintf_to p t s) = settings s"
  "settings (sys_unlink w p s) = settings s" "settings (sys_rename w p q s) = settings s" "settings (set_open lid b s) = settings s"
  "settings (snd (case_timestamp w f s)) = settings s" "settings (snd (sys_time w s)) = settings s"
  "settings (s\<lparr>sinks := x\<rparr>) = settings s" "settings (s\<lparr>dedup := y\<rparr>) = settings s" "settings (s\<lparr>syslog_out := z\<rparr>) = settings s"
  by (simp_all add: settings_def tick_def put_file_def sys_fopen_w_def sys_fopen_a_def fprintf_to_def sys_unlink_def
      sys_rename_def set_open_def case_timestamp_def sys_time_def Let_def split_beta)

lemma rotate_shift_settings: "settings (rotate_shift w cap path i s) = settings s"
  by (induction w cap path i s rule: rotate_shift.induct) (simp_all add: settings_calls)

lemma write_line_settings: "settings (write_line L w lid level m n s) = settings s"
  by (simp add: write_line_def rotate_if_needed_def Let_def split_beta settings_calls rotate_shift_settings)

lemma rw_log_info_settings: "settings (rw_log_info L w m s) = settings s"
  by (simp add: rw_log_info_def vlog_to_def should_emit_line_def Let_def split_beta settings_calls write_line_settings)

lemma rw_log_init_settings:
  assumes "rw_log_init L w d b s = (0, s' :: 'a logger_scheme)"
  shows "\<exists>u :: 'a logger_scheme. settings s' = (env_or atol (env_getenv w ''RW_LOG_MAX_BYTES'') (max_bytes u) (10 * 1024 * 1024),
      env_or atoi (env_getenv w ''RW_LOG_ARCHIVES'') (archives u) 5,
      env_or atoi (env_getenv w ''RW_LOG_RATE_SECONDS'') (rate_seconds u) 10, b)"
proof -
  obtain u m where "s' = rw_log_info L w m (u\<lparr>max_bytes := env_or atol (env_getenv w ''RW_LOG_MAX_BYTES'') (max_bytes u) (10 * 1024 * 1024),
      archives := env_or atoi (env_getenv w ''RW_LOG_ARCHIVES'') (archives u) 5,
      rate_seconds := env_or atoi (env_getenv w ''RW_LOG_RATE_SECONDS'') (rate_seconds u) 10, use_syslog_now := b\<rparr>)"
    using assms unfolding rw_log_init_def Let_def split_beta by (auto split: if_splits)
  then have "settings s' = (env_or atol (env_getenv w ''RW_LOG_MAX_BYTES'') (max_bytes u) (10 * 1024 * 1024),
      env_or atoi (env_getenv w ''RW_LOG_ARCHIVES'') (archives u) 5,
      env_or atoi (env_getenv w ''RW_LOG_RATE_SECONDS'') (rate_seconds u) 10, b)"
    by (simp add: rw_log_info_settings) (simp add: settings_def)
  then show ?thesis by blast
qed

lemma set_log_env_values:
  assumes "0 \<le> log_archives c" "0 \<le> log_rate_seconds c"
  shows "0 < log_max_bytes c \<Longrightarrow> env_getenv (set_log_env c w) ''RW_LOG_MAX_BYTES'' = Some (show_int (log_max_bytes c))"
    "env_getenv (set_log_env c w) ''RW_LOG_ARCHIVES'' = Some (show_int (log_archives c))"
    "env_getenv (set_log_env c w) ''RW_LOG_RATE_SECONDS'' = Some (show_int (log_rate_seconds c))"
  using assms by (simp_all add: set_log_env_def Let_def)

lemma atol_show_int: "0 \<le> i \<Longrightarrow> i < 2 ^ 63 \<Longrightarrow> atol (show_int i) = i"
  by (simp add: atol_def scan_show_int clamp_long_def)

lemma show_int_nonempty: "nonempty_str (Some (show_int i))"
  by (cases "show_int i") (auto simp: show_int_def split: if_splits)

text \<open>
  C27. The limits of the command line reach the logger, although it reads them from the environment: once
  the logger is up, it keeps exactly the archives and the rate window that the options say, with syslog as they say,
  and rotates at the given size when one above zero is given.
\<close>

theorem options_reach_logger:
  assumes "parse_command argv = Monitor cfg" "w' = set_log_env cfg w"
    "rw_log_init L w' (log_dir cfg) (use_syslog cfg) s = (0, s' :: 'a logger_scheme)"
  shows "archives s' = log_archives cfg \<and> rate_seconds s' = log_rate_seconds cfg \<and> use_syslog_now s' = use_syslog cfg
    \<and> (0 < log_max_bytes cfg \<longrightarrow> max_bytes s' = log_max_bytes cfg)"
proof -
  have ok: "config_ok cfg" by (rule command_line_config[OF assms(1)])
  obtain u :: "'a logger_scheme" where u: "settings s' = (env_or atol (env_getenv w' ''RW_LOG_MAX_BYTES'') (max_bytes u) (10 * 1024 * 1024),
      env_or atoi (env_getenv w' ''RW_LOG_ARCHIVES'') (archives u) 5,
      env_or atoi (env_getenv w' ''RW_LOG_RATE_SECONDS'') (rate_seconds u) 10, use_syslog cfg)"
    using rw_log_init_settings[OF assms(3)] by blast
  have "atoi (show_int (log_archives cfg)) = log_archives cfg" "atoi (show_int (log_rate_seconds cfg)) = log_rate_seconds cfg"
    using ok by (auto simp: config_ok_def intro!: atoi_show_int)
  moreover have "atol (show_int (log_max_bytes cfg)) = log_max_bytes cfg"
    using ok by (auto simp: config_ok_def intro!: atol_show_int)
  ultimately show ?thesis
    using ok u show_int_nonempty by (auto simp: settings_def env_or_def assms(2) set_log_env_values config_ok_def Let_def)
qed

subsection \<open>The monitor keeps running\<close>

lemma owner_fds_only: "world_only s (snd (owner_fds L w n pid exe dir ds os s))"
  unfolding world_only_def
  by (induction ds arbitrary: os s) (simp_all add: Let_def split_beta world_more_calls split: option.split)

lemma owner_procs_only: "world_only s (snd (owner_procs L w n ds os s))"
  unfolding world_only_def
  by (induction ds arbitrary: os s)
     (simp_all add: Let_def split_beta world_more_calls owner_fds_only[unfolded world_only_def] split: option.split)

lemma collect_owners_only: "world_only s (snd (rw_collect_inode_owners L w n s))"
  by (auto simp: rw_collect_inode_owners_def Let_def split_beta world_only_def world_more_calls
      owner_procs_only[unfolded world_only_def] split: option.split)

lemma tcp_lines_only: "world_only s (snd (tcp_lines L w v6 ow n ls es s))"
  unfolding world_only_def
  by (induction ls arbitrary: es s) (simp_all add: Let_def split_beta world_more_calls split: option.split)

lemma collect_tcp_only: "world_only s (snd (rw_collect_tcp_events L w ow n s))"
proof -
  have "world_only t (snd (collect_tcp_file L w p v6 ow k t))" for p v6 k and t :: "'a world_scheme"
    by (auto simp: collect_tcp_file_def Let_def split_beta world_only_def world_more_calls
        tcp_lines_only[unfolded world_only_def] split: option.split)
  then show ?thesis by (simp add: rw_collect_tcp_events_def Let_def split_beta world_only_def)
qed

lemma log_init_only: "logger_only s (snd (rw_log_init L w d b s))"
proof -
  have f: "logger_only t (snd (open_log_file L w lid dir name lev pri t))" for t :: "'a logger_scheme" and lid dir name lev pri
    by (simp add: open_log_file_def Let_def split_beta logger_only_more logger_more_calls)
  have o: "logger_only t (snd (open_log_files L w dir fs t))" for t :: "'a logger_scheme" and dir fs
  proof (induction fs arbitrary: t)
    case (Cons x fs)
    obtain lid name lev pri where x: "x = (lid, name, lev, pri)" by (cases x)
    have "logger_only t (snd (open_log_file L w lid dir name lev pri t))" by (rule f)
    with Cons.IH[of "snd (open_log_file L w lid dir name lev pri t)"] f[of t lid dir name lev pri] show ?case
      by (auto simp: x split_beta Let_def intro: logger_only_trans)
  qed simp
  show ?thesis
    by (auto simp: rw_log_init_def Let_def split_beta logger_only_more logger_more_calls
        rw_log_only[unfolded logger_only_more] o[unfolded logger_only_more] split: option.split)
qed

lemma dm_keeps_logger: "logger_only s t \<Longrightarrow> dm_keeps mc s t"
  by (rule dm_keeps_core[OF sys_grows_logger])

lemma dm_keeps_lineage:
  "limits_ok (mc_lim mc) \<Longrightarrow> dm_keeps mc s (rw_lineage_refresh_procfs (mc_lim mc) w s)"
  by (rule dm_keeps_core, intro runs_intros)

lemma start_monitor_keeps:
  assumes "limits_ok (mc_lim mc)" "plugins_ok mc"
  shows "dm_keeps mc s (start_monitor mc cfg s)"
proof -
  let ?s1 = "snd (rw_log_init (mc_lim mc) (mc_os mc) (log_dir cfg) (use_syslog cfg) s)"
  have s1: "dm_keeps mc s ?s1" by (rule dm_keeps_logger[OF log_init_only])
  have reset: "dm_keeps mc t (rw_lineage_init (rw_event_init (rw_score_init t)))" for t
    by (simp add: dm_keeps_def dm_inv_def eb_inv_def net_inv_def sys_inv_def held_def rw_lineage_init_def
        rw_event_init_def rw_score_init_def lin_ok_def scores_ok_def)
  have "dm_keeps mc s (rw_lineage_refresh_procfs (mc_lim mc) (mc_os mc) (rw_lineage_init (rw_event_init (rw_score_init ?s1))))"
    by (rule dm_contract.trans[OF dm_contract.trans[OF s1 reset] dm_keeps_lineage[OF assms(1)]])
  then show ?thesis unfolding start_monitor_def Let_def split_beta by (intro dm_intros assms(2))
qed

lemma update_tracks_runs:
  "limits_ok (mc_lim mc) \<Longrightarrow> dm_keeps mc s t \<Longrightarrow> dm_runs mc s (update_tracks mc cfg es t)"
proof (induction es arbitrary: t)
  case (Cons ev es)
  have "dm_runs mc s (rw_update_track (mc_lim mc) (mc_os mc) (mc_fp mc) cfg ev t)"
    by (rule dm_runs_eb[OF eb_runs_net[OF update_track_runs[OF Cons.prems(1) net_keeps_refl] eb_contract.refl] Cons.prems(2)])
  then show ?case unfolding update_tracks.simps by (rule dm_runs_combine(2)) (rule Cons.IH[OF Cons.prems(1)])
qed (simp add: dm_intros)

lemma network_pass_runs:
  assumes "limits_ok (mc_lim (ho_machine h))" "dm_keeps (ho_machine h) s t"
  shows "dm_runs (ho_machine h) s (network_pass h cfg t)"
proof -
  have world: "world_only u v \<Longrightarrow> dm_keeps (ho_machine h) u v" for u v
    by (rule dm_keeps_core[OF sys_grows_world])
  have raw: "dm_runs (ho_machine h) s (rw_scan_raw_sockets (mc_lim (ho_machine h)) (mc_os (ho_machine h)) (Some cfg) ow u)"
    if "dm_keeps (ho_machine h) s u" for ow u
    by (rule dm_runs_eb[OF eb_runs_net[OF raw_sockets_runs[OF assms(1) net_keeps_refl] eb_contract.refl] that])
  show ?thesis unfolding network_pass_def Let_def split_beta
    by (intro dm_runs_combine raw update_tracks_runs assms(1); assumption?)
       (rule dm_contract.trans[OF dm_contract.trans[OF assms(2) world[OF collect_owners_only]] world[OF collect_tcp_only]])
qed

lemma dm_scan_runs:
  assumes "limits_ok (mc_lim mc)" "dm_keeps mc s t"
  shows "dm_runs mc s (map_option snd (rw_scan_injection_pid (mc_lim mc) (mc_os mc) cfg pid t))"
    "dm_runs mc s (map_option snd (rw_scan_all_injection (mc_lim mc) (mc_os mc) cfg t))"
    "dm_runs mc s (map_option snd (rw_inspect_process (mc_lim mc) (mc_os mc) pid t))"
  by (rule dm_runs_eb[OF eb_runs_core[OF _ eb_contract.refl] assms(2)], intro runs_intros assms(1))+

lemma self_scan_runs:
  assumes "limits_ok (mc_lim (ho_machine h))" "dm_keeps (ho_machine h) s t"
  shows "dm_runs (ho_machine h) s (map_option snd (self_scan h cfg now prev t))"
    "dm_runs (ho_machine h) s (map_option snd (full_scan h cfg now prev t))"
  using dm_scan_runs(1)[OF assms, of "Some cfg" "ho_pid h"] dm_scan_runs(2)[OF assms, of "Some cfg"] assms(2)
  by (auto simp: self_scan_def full_scan_def Let_def dm_runs_def meets_def split: bind_splits)

lemma monitor_round_runs:
  assumes "limits_ok (mc_lim (ho_machine h))" "plugins_ok (ho_machine h)" "dm_keeps (ho_machine h) s t"
  shows "dm_runs (ho_machine h) s (map_option (\<lambda>st. snd (snd st)) (monitor_round h cfg dv (full, self, t)))"
proof -
  let ?mc = "ho_machine h"
  let ?w = "mc_os ?mc" and ?L = "mc_lim ?mc"
  let ?s2 = "tick (tick (snd (sys_time ?w t)))"
  have s2: "dm_keeps ?mc s ?s2" by (intro dm_intros assms(3))
  have net: "dm_runs ?mc s (network_pass h cfg (rw_lineage_refresh_procfs ?L ?w ?s2))"
    by (rule network_pass_runs[OF assms(1) dm_contract.trans[OF s2 dm_keeps_lineage[OF assms(1)]]])
  have decay: "dm_keeps ?mc u (rw_score_decay_all ?w u)" for u by (rule dm_keeps_core[OF decay_all_grows])
  have scans: "dm_runs ?mc s (map_option (\<lambda>st. snd (snd st))
      (do { (f, s5) \<leftarrow> self_scan h cfg now self u; (g, s6) \<leftarrow> full_scan h cfg now full s5; Some (g, f, s6) }))"
    if "dm_keeps ?mc s u" for u now
    using self_scan_runs(1)[OF assms(1) that, of cfg now self] self_scan_runs(2)[OF assms(1), of s _ cfg now full]
    by (cases "self_scan h cfg now self u"; cases "full_scan h cfg now full (snd (the (self_scan h cfg now self u)))")
       (force simp: dm_runs_def meets_def)+
  have tail: "dm_runs ?mc s (map_option (\<lambda>st. snd (snd st)) (do {
        s4 \<leftarrow> rw_modules_poll_all ?mc cfg dv u;
        (f, s5) \<leftarrow> self_scan h cfg now self (rw_score_decay_all ?w s4);
        (g, s6) \<leftarrow> full_scan h cfg now full s5; Some (g, f, s6) }))" if "dm_keeps ?mc s u" for u now
    unfolding map_option_bind o_def
    by (rule dm_runs_combine(2)[OF poll_all_runs[OF assms(1,2) that]])
       (rule scans[unfolded map_option_bind o_def], rule dm_contract.trans[OF _ decay])
  show ?thesis
    unfolding monitor_round_def Let_def split_beta prod.case
    using dm_runs_combine(1)[OF s2]
      dm_runs_combine(2)[OF net tail[unfolded map_option_bind o_def split_beta], of "\<lambda>u. u"]
    by (simp add: map_option_bind o_def split_beta)
qed

lemma monitor_rounds_runs:
  assumes "limits_ok (mc_lim (ho_machine h))" "plugins_ok (ho_machine h)"
  shows "dm_runs (ho_machine h) t (map_option (\<lambda>st. snd (snd st)) (monitor_rounds h cfg dvs (full, self, t)))"
proof (induction dvs arbitrary: full self t)
  case (Cons dv dvs)
  show ?case
  proof (cases "monitor_round h cfg dv (full, self, t)")
    case None
    then show ?thesis using monitor_round_runs[OF assms dm_contract.refl, of t cfg dv full self] by simp
  next
    case (Some st)
    obtain f g u where st: "st = (f, g, u)" by (cases st)
    have "dm_keeps (ho_machine h) t u"
      using monitor_round_runs[OF assms dm_contract.refl, of t cfg dv full self] Some st by (simp add: dm_runs_def meets_def)
    then show ?thesis using Cons.IH[where t = u and full = f and self = g] Some st
      by (auto simp: dm_runs_def meets_def intro: dm_contract.trans)
  qed
qed (simp add: dm_intros dm_contract.refl)

lemma with_log_env_same:
  "mc_lim (with_log_env cfg mc) = mc_lim mc" "plugins_ok (with_log_env cfg mc) = plugins_ok mc"
  "dm_inv (with_log_env cfg mc) s = dm_inv mc s" "pread_ok (mc_os (with_log_env cfg mc)) = pread_ok (mc_os mc)"
  by (simp_all add: with_log_env_def plugins_ok_def dm_inv_def pread_ok_def set_log_env_def Let_def)

text \<open>
  C1. The monitor never hangs in a pass and never corrupts its state: from the start of the program, for
  every configuration and any number of passes with whatever the kernel delivers in them, the last pass
  ends, and then the tables of all components are well formed and within their arrays and every plugin
  library is held by exactly its slots. \<open>pread\<close> must not be interrupted for ever, and plugins must leave the
  manager's table alone.
\<close>

theorem monitor_keeps_running:
  assumes "limits_ok (mc_lim (ho_machine h))" "plugins_ok (ho_machine h)" "pread_ok (mc_os (ho_machine h))"
  shows "\<exists>full self s. rw_monitor_all h cfg dvs (daemon_start w) = Some (full, self, s) \<and> dm_inv (ho_machine h) s"
proof -
  let ?mc = "with_log_env cfg (ho_machine h)"
  let ?h = "h\<lparr>ho_machine := ?mc\<rparr>" and ?s = "start_monitor (with_log_env cfg (ho_machine h)) cfg (daemon_start w)"
  have ok: "limits_ok (mc_lim ?mc)" "plugins_ok ?mc" using assms by (simp_all add: with_log_env_same)
  have inv: "dm_inv ?mc ?s"
    using start_monitor_keeps[OF ok] daemon_start_inv by (simp add: dm_keeps_def)
  have "dm_runs ?mc ?s (map_option (\<lambda>st. snd (snd st)) (monitor_rounds ?h cfg dvs (0, 0, ?s)))"
    using monitor_rounds_runs[of ?h] ok by simp
  then obtain st where "monitor_rounds ?h cfg dvs (0, 0, ?s) = Some st" "dm_keeps ?mc ?s (snd (snd st))"
    using assms(3) by (auto simp: dm_runs_def meets_def with_log_env_same)
  with inv have "rw_monitor_all h cfg dvs (daemon_start w) = Some (fst st, fst (snd st), snd (snd st))"
    "dm_inv (ho_machine h) (snd (snd st))"
    by (simp_all add: rw_monitor_all_def Let_def dm_keeps_def with_log_env_same)
  then show ?thesis by blast
qed

definition sample_host :: host where
  "sample_host = \<lparr>ho_machine = plugin_machine, ho_max_items = 64, ho_pid = 42\<rparr>"

lemma sample_host_ok:
  "limits_ok (mc_lim (ho_machine sample_host))" "plugins_ok (ho_machine sample_host)"
  "pread_ok (mc_os (ho_machine sample_host))"
  using plugin_machine_ok small_limits_ok idle_pread_ok
  by (simp_all add: sample_host_def plugin_machine_def bare_machine_def)

lemma monitor_keeps_running_witness:
  "\<exists>full self s. rw_monitor_all sample_host default_config
     [\<lparr>dv_proc = [[PE_Fork 1 7, PE_Exec 7 7]], dv_fan = [], dv_ring = []\<rparr>, \<lparr>dv_proc = [], dv_fan = [], dv_ring = []\<rparr>]
     (daemon_start idle_os) = Some (full, self, s)"
  using monitor_keeps_running[OF sample_host_ok] by blast

subsection \<open>The other commands end\<close>

lemma command_ends:
  assumes "limits_ok (mc_lim mc)" "pread_ok (mc_os mc)" "\<forall>cfg. cmd \<noteq> Monitor cfg"
  shows "\<exists>rc s'. run_command mc data cmd s = Some (rc, s') \<and> (dm_inv mc s \<longrightarrow> dm_inv mc s')
    \<and> (cmd = Bad_Pid \<or> cmd = Usage \<longrightarrow> s' = s)
    \<and> rc = (if cmd = Bad_Pid \<or> cmd = Usage
            \<or> cmd = Ebpf_Status \<and> fst (rw_ebpf_init_backend (mc_lim mc) (mc_os mc) (mc_bpf mc)
                 (snd (rw_log_init (mc_lim mc) (mc_os mc) (Some ''logs'') False s))) \<noteq> 0 then 1 else 0)"
proof -
  have scan: "\<exists>s'. map_option snd x = Some s' \<and> (dm_inv mc s \<longrightarrow> dm_inv mc s')" if "dm_runs mc s (map_option snd x)" for x :: "('b \<times> daemon) option"
    using that assms(2) by (auto simp: dm_runs_def meets_def dm_keeps_def)
  note S = dm_scan_runs[OF assms(1) dm_contract.refl, of s, THEN scan]
  show ?thesis
  proof (cases cmd)
    case Ebpf_Status
    let ?s1 = "snd (rw_log_init (mc_lim mc) (mc_os mc) (Some ''logs'') False s)"
    let ?r = "rw_ebpf_init_backend (mc_lim mc) (mc_os mc) (mc_bpf mc) ?s1"
    have s1: "dm_keeps mc s ?s1" by (rule dm_keeps_logger[OF log_init_only])
    have s2: "dm_keeps mc s (snd ?r)"
      by (rule dm_contract.trans[OF s1 dm_keeps_eb[OF ebpf_init_keeps[OF eb_contract.refl]]])
    have "dm_runs mc s (rw_ebpf_poll (mc_lim mc) (mc_os mc) (mc_fp mc) (Some default_config) data (snd ?r))"
      by (rule dm_runs_eb[OF ebpf_poll_runs[OF assms(1) eb_contract.refl] s2])
    then obtain u where u: "rw_ebpf_poll (mc_lim mc) (mc_os mc) (mc_fp mc) (Some default_config) data (snd ?r) = Some u"
      "dm_keeps mc s u" using assms(2) by (auto simp: dm_runs_def meets_def)
    have "dm_keeps mc u (rw_ebpf_shutdown u)" by (rule dm_keeps_eb[OF eb_counters(7)[OF eb_contract.refl]])
    with u s2 Ebpf_Status show ?thesis
      by (auto simp: ebpf_status_command_def Let_def split_beta default_config_def dm_keeps_def)
  qed (use S assms(3) in \<open>auto simp: default_config_def\<close>)
qed

text \<open>What the arguments are, read off the text: a decimal number, and the words that name a command.\<close>

definition digits_only :: "string \<Rightarrow> bool" where
  "digits_only v \<longleftrightarrow> v \<noteq> [] \<and> set v \<subseteq> set ''0123456789''"

lemma isdigit_set: "isdigit c \<longleftrightarrow> c \<in> set ''0123456789''"
proof
  assume "isdigit c"
  then have "of_char c \<in> set [48..<58 :: nat]" by (auto simp only: isdigit_def chr_code_def set_upt atLeastLessThan_iff)
  then have "char_of (of_char c :: nat) \<in> set (map char_of [48..<58 :: nat])" by (simp only: set_map image_eqI[OF refl])
  moreover have "map char_of [48..<58 :: nat] = ''0123456789''" by code_simp
  ultimately show "c \<in> set ''0123456789''" by (simp only: char_of_char)
qed (auto simp: isdigit_def chr_code_def)

lemma numeric_digits: "rw_is_numeric (Some v) \<longleftrightarrow> digits_only v"
proof -
  have "set v \<subseteq> set ''0123456789'' \<longleftrightarrow> list_all isdigit v" unfolding list_all_iff isdigit_set by blast
  then show ?thesis unfolding digits_only_def rw_is_numeric_def by (cases v) simp_all
qed

text \<open>
  C35. Every command line but those of the monitor (no argument, a first argument that starts with a dash, the word
  \<open>monitor\<close>) ends, and the exit code can be read off it: \<open>inspect\<close> and \<open>scan-injection\<close> give 0 when a second
  argument of nothing but digits follows and 1 otherwise, \<open>scan-all-injection\<close> and \<open>ebpf-selftest\<close> give 0,
  \<open>ebpf-status\<close> gives 0 when the backend can be loaded after the logger was set up and 1 otherwise, and every other word
  gives 1. A missing or malformed pid and an unknown word change nothing, and every command leaves well-formed tables
  well formed. Memory reads of a scan must end (\<open>pread_ok\<close>).
\<close>

theorem commands_end:
  assumes "limits_ok (mc_lim mc)" "pread_ok (mc_os mc)" "take 1 c \<noteq> ''-''" "c \<noteq> ''monitor''"
  shows "\<exists>rc s'. run_command mc data (parse_command (c # as)) s = Some (rc, s') \<and> (dm_inv mc s \<longrightarrow> dm_inv mc s')
    \<and> rc = (if c = ''inspect'' \<or> c = ''scan-injection'' then (if as \<noteq> [] \<and> digits_only (hd as) then 0 else 1)
            else if c = ''scan-all-injection'' \<or> c = ''ebpf-selftest'' then 0
            else if c = ''ebpf-status''
            then (if fst (rw_ebpf_init_backend (mc_lim mc) (mc_os mc) (mc_bpf mc)
                       (snd (rw_log_init (mc_lim mc) (mc_os mc) (Some ''logs'') False s))) = 0 then 0 else 1)
            else 1)
    \<and> ((c = ''inspect'' \<or> c = ''scan-injection'') \<and> \<not> (as \<noteq> [] \<and> digits_only (hd as))
       \<or> c \<notin> {''inspect'', ''scan-injection'', ''scan-all-injection'', ''ebpf-selftest'', ''ebpf-status''} \<longrightarrow> s' = s)"
proof -
  let ?pid = "c = ''inspect'' \<or> c = ''scan-injection''" and ?ok = "as \<noteq> [] \<and> digits_only (hd as)"
  have cmd: "parse_command (c # as) =
     (if ?pid then (if ?ok then (if c = ''inspect'' then Inspect (atoi (hd as)) else Scan_Injection (atoi (hd as))) else Bad_Pid)
      else if c = ''scan-all-injection'' then Scan_All_Injection else if c = ''ebpf-status'' then Ebpf_Status
      else if c = ''ebpf-selftest'' then Ebpf_Selftest else Usage)"
    using assms(3,4) by (cases as) (auto simp: numeric_digits)
  then have "\<forall>cfg. parse_command (c # as) \<noteq> Monitor cfg" by (simp del: parse_command.simps)
  from command_ends[OF assms(1,2) this, of data s] show ?thesis
    unfolding cmd by (auto split: if_splits simp del: parse_command.simps)
qed

lemma commands_end_witness:
  "(\<exists>s'. run_command plugin_machine [] (parse_command [''inspect'', ''7'']) (daemon_start idle_os) = Some (0, s'))
   \<and> run_command plugin_machine [] (parse_command [''inspect'', ''7x'']) (daemon_start idle_os) = Some (1, daemon_start idle_os)"
proof -
  have ok: "limits_ok (mc_lim plugin_machine)" "pread_ok (mc_os plugin_machine)"
    using sample_host_ok by (simp_all add: sample_host_def)
  have d: "digits_only ''7''" "\<not> digits_only ''7x''" by (simp_all add: digits_only_def)
  show ?thesis
    using commands_end[OF ok, of "''inspect''" "[]" "[''7'']" "daemon_start idle_os"]
      commands_end[OF ok, of "''inspect''" "[]" "[''7x'']" "daemon_start idle_os"]
    by (auto simp: d simp del: parse_command.simps)
qed

lemma log_init_succeeds:
  assumes "\<forall>t p. env_mkdir w t p" "\<forall>t p. env_open w t p" "length (str_or d ''logs'') + 17 < max_path L"
  shows "fst (rw_log_init L w d b s) = 0"
proof -
  have open_ok: "fst (open_log_files L w dir fs t) = 0"
    if "\<forall>x\<in>set fs. length dir + length (fst (snd x)) + 1 < max_path L" for dir fs and t :: "'a logger_scheme"
    using that assms(2)
    by (induction fs arbitrary: t) (auto simp: open_log_file_def sys_fopen_a_def Let_def split_beta)
  have "fst (open_log_files L w (str_or d ''logs'') log_files t) = 0" for t :: "'a logger_scheme"
    by (rule open_ok) (use assms(3) in \<open>simp add: log_files_def\<close>)
  then show ?thesis using assms(1) by (simp add: rw_log_init_def Let_def split_beta sys_mkdir_def)
qed

lemma options_reach_logger_witness:
  "let cfg = default_config\<lparr>log_archives := 3\<rparr>;
       r = rw_log_init small_limits (set_log_env cfg idle_os) (Some ''logs'') False (logger_start idle_os (\<lambda>_. None))
   in fst r = 0 \<and> archives (snd r) = 3"
proof -
  let ?cfg = "default_config\<lparr>log_archives := 3\<rparr>" and ?w = "set_log_env (default_config\<lparr>log_archives := 3\<rparr>) idle_os"
  let ?r = "rw_log_init small_limits ?w (Some ''logs'') False (logger_start idle_os (\<lambda>_. None))"
  have cmd: "parse_command [''--log-archives'', ''3''] = Monitor ?cfg" by code_simp
  have w: "env_mkdir ?w = (\<lambda>_ _. True)" "env_open ?w = (\<lambda>_ _. True)"
    by (simp_all add: set_log_env_def Let_def idle_os_def)
  have "fst ?r = 0"
    by (rule log_init_succeeds) (simp_all add: w small_limits_def)
  then have "rw_log_init small_limits ?w (log_dir ?cfg) (use_syslog ?cfg) (logger_start idle_os (\<lambda>_. None)) = (0, snd ?r)"
    by (simp add: default_config_def prod_eq_iff)
  from options_reach_logger[OF cmd refl this] \<open>fst ?r = 0\<close> show ?thesis by (simp add: Let_def)
qed

end
