(* ===== verification/Spec2Isabelle.thy ===== *)
theory Spec2Isabelle
  imports Shellcode Daemon
begin

text \<open>
  SignalHunter is a monitor for Linux hosts. It reads procfs, the connector of process events, fanotify
  and a set of eBPF programs, turns what it sees into findings, adds them to a risk score per process,
  and opens a case, a directory of evidence, for every process whose score reaches a threshold. These
  theories model its C sources, \<open>src/src/\<close> and the example plugin, and prove what its parts promise.

  \<^bold>\<open>How the parts work together.\<close> \<open>main\<close> reads the command line into a configuration and runs a command
  or the monitor (\<open>Daemon\<close>). The monitor starts the tables and the modules, then repeats one pass: refresh the
  lineage table from procfs, collect the owners of sockets and the TCP connections, update the
  trackers of connections, look for raw sockets (\<open>Netmon\<close>), poll the modules (\<open>Modman\<close>), let the scores
  decay, and scan for injected code (\<open>Inject\<close>). The modules are the whitelist, the process connector and
  fanotify (\<open>Hostmon\<close>), the eBPF backend (\<open>Ebpf\<close>, fed by the kernel programs of \<open>Bpf\<close>), and plugins. Every
  detector reports in the same way (\<open>Report\<close>): \<open>rw_score_add\<close> (\<open>Score\<close>, \<open>Cases\<close>) weighs the finding against
  the whitelist, records it in the event log and decides about a case; opening a case writes evidence,
  the family tree and the timeline, and scans the memory of the process (\<open>Memscan\<close>), which scores again.

  \<^bold>\<open>Theories and sources.\<close>
  \<^item> \<open>Prelude\<close>, \<open>CText\<close>: C strings with the sizes of their buffers, the number formats, \<open>sscanf\<close> and
    \<open>fgets\<close>; the locales \<open>slot_table\<close> (a static array with a counter and a lookup by key) and
    \<open>state_contract\<close> (an operation that ends and keeps an invariant); theorem collections.
  \<^item> \<open>Config\<close>: \<open>rw_config_t\<close> and the defaults of \<open>app/main.c\<close>; \<open>World\<close>: what the sources ask of the
    kernel and the file system; \<open>Files\<close>: \<open>rw_copy_file\<close>, \<open>rw_sha256_file\<close> of \<open>core/util.c\<close>.
  \<^item> \<open>Sha256\<close>: \<open>crypto/sha256.c\<close>, against the definition of the standard. \<open>Shellcode\<close>:
    \<open>detect/shellcode.c\<close>, against a table of heuristics.
  \<^item> \<open>Logger\<close>: the logger of \<open>core/util.c\<close>. \<open>Event\<close>: \<open>core/event.c\<close>. \<open>Lineage\<close>: \<open>core/lineage.c\<close>.
    \<open>Whitelist\<close>: \<open>core/whitelist.c\<close>. \<open>Score\<close>: \<open>core/score.c\<close> up to the point where a case is opened.
  \<^item> \<open>Memscan\<close>: \<open>detect/memscan.c\<close>, with what it does with a finding as an argument. \<open>Cases\<close>:
    \<open>case/case.c\<close> and the end of \<open>rw_score_add\<close>, which closes the recursion. \<open>System\<close>: what score, case
    and memory scan do together. \<open>Report\<close>: \<open>rw_syscall_alert\<close> and the calls that detectors share.
  \<^item> \<open>Inject\<close>: \<open>detect/inject.c\<close>. \<open>Hostmon\<close>: \<open>platform/fanmon.c\<close>, \<open>platform/proc_events.c\<close>,
    \<open>case/inspect.c\<close>. \<open>Netmon\<close>: \<open>net/netmon.c\<close>. \<open>Bpf\<close>: \<open>ebpf/signalhunter_ebpf.bpf.c\<close>. \<open>Ebpf\<close>:
    \<open>platform/ebpfmon.c\<close>. \<open>Modman\<close>: \<open>core/module.c\<close> and \<open>plugins/example_heartbeat.c\<close>. \<open>Daemon\<close>: the
    rest of \<open>app/main.c\<close>.

  \<^bold>\<open>Correspondence.\<close> A function of the source is a definition of the same name (with a prefix where two
  files or HOL use the name). The static variables of the files are records that extend one another in
  the order in which the files call each other (\<open>world\<close>, \<open>logger\<close>, \<open>lineage\<close>, \<open>scoring\<close>, \<open>sys\<close>, \<open>net\<close>, \<open>ebpf\<close>,
  \<open>daemon\<close>), so an operation of an early theory applies to the states of all later ones. A static
  array with its counter is the list of its live entries. A copy into an array of \<open>n\<close> bytes is
  \<open>cstr_copy n\<close>, which cuts as \<open>snprintf\<close> does. A pointer that may be NULL and a call that may fail are
  options. An operation that can call \<open>rw_score_add\<close> has an option as its result: \<open>None\<close> is a call that does
  not return.

  \<^bold>\<open>Parameters.\<close> What the code under \<open>src/\<close> does not define is an argument: \<open>os\<close> (the answers of the
  kernel, which may change from one call to the next: each call advances the counter \<open>clk\<close>; opening, reading,
  renaming and removing a file may fail), \<open>limits\<close>
  (the macros and array sizes of \<open>include/signalhunter/signalhunter.h\<close>, which is not in the
  repository), \<open>fp\<close> (rounding and printing of doubles), \<open>kern\<close> (the helpers of the kernel programs),
  \<open>bpf_lib\<close> (libbpf), \<open>plugin\<close> and \<open>machine\<close> (shared objects and the loader), \<open>delivery\<close> (what a poll of the
  descriptors yields). The hypotheses on them state what their documentation does: \<open>limits_ok\<close> (every array
  has room for a byte), \<open>pread_ok\<close> (no more bytes than asked for, not interrupted for ever), \<open>fp_ok\<close>
  (rounding is monotone and exact on small integers), \<open>kern_ok\<close> (strings end at a NUL, reads have the
  asked length), \<open>plugins_ok\<close> (a plugin leaves the table of the manager alone, the locale
  \<open>plugin_abi\<close>, which the example plugin is shown to satisfy).

  \<^bold>\<open>What the lemmas show.\<close> Per component: its table or ring is well formed and within its array after every
  operation (the interpretations of \<open>slot_table\<close>, \<open>bounded_log\<close>, \<open>finding_keeper\<close> and \<open>state_contract\<close>),
  and what each operation computes, on every branch. Equivalences: SHA-256 with the standard, shellcode
  scans with the table of heuristics, scores with the documented formula, family questions with a closure,
  SYN alarms with counts of a set, module switches with the last entry of the file. Refinements: the
  event ring and the interval windows against lists. Round trips: rule files, map lines, event records. Lines of
  procfs (\<open>maps\<close>, \<open>net/packet\<close>, \<open>net/raw\<close>) have the layout that the kernel prints, with its padding.
  Across components: every finding is scored and returns, a case opens exactly at the threshold, a
  connect seen by a kernel program reaches the tracker, an injecting system call and a packet socket
  lead to a case, and the monitor ends every pass in a well-formed state, from the start of the
  program on.

  \<^bold>\<open>Bounds and fuel.\<close> \<open>rw_score_add\<close>, which a memory scan that it starts calls again, takes the
  number of nested levels as its first argument; \<open>score_add\<close> of theory \<open>Report\<close> passes 2, and
  \<open>System\<close> proves that this always returns and that more levels change nothing: a case is registered
  before its memory is scanned, so the nested calls find it and scan no more. All other
  recursions are structural or have a measure; the retry loop of \<open>pread\<close> is a partial function, proved
  to return under \<open>pread_ok\<close>. The endless loop of the monitor is the run over a list of deliveries, of any
  length. Pids, counters and scores are integers or naturals where no operation of the source can
  reach their width; hashes, event records, counters of events and SHA-256 are words. The count of a
  library that the loader holds is an int, so that a library closed too often shows.

  \<^bold>\<open>Not modelled.\<close> Console output (\<open>printf\<close> and the usage text), except in the
  inspection, whose result it is; syslog; the system calls that open the connector and the fanotify
  descriptor, whose result is a parameter; the closing of file descriptors; signals that
  interrupt the program; big-endian machines, whose event records have the bytes of their numbers the other way
  round on both sides; the stubs of \<open>ebpfmon.c\<close> for a build without eBPF; the scripts, packaging and
  unit files of the repository, which are not C.
\<close>

end
